(* ===== verification/Prelude.thy ===== *)
theory Prelude
  imports Main "HOL-Library.Word" "HOL-Library.Multiset"
begin

text \<open>
  Shared vocabulary of the development: what the sources use of Rust's core library.
  \<^item> \<open>cmp_result\<close> is \<open>std::cmp::Ordering\<close>; \<open>then_with\<close>, \<open>cmp_of\<close>, \<open>cmp_option\<close>, \<open>cmp_list\<close> and
    \<open>cmp_pair\<close> are \<open>Ordering::then_with\<close> and the derived orders of the primitive types, of
    \<open>Option\<close>, of \<open>Vec\<close> and of tuples.
  \<^item> \<open>sort_by\<close> is the stable \<open>slice::sort_by\<close>; the locale \<open>total_cmp\<close> is its contract.
  \<^item> the string functions (\<open>find_sub\<close>, \<open>replace_all\<close>, \<open>split_on\<close>, \<open>trim_end_matches\<close> and so on)
    are the methods of \<open>str\<close> on the bytes of a string. A Rust string is modelled by the list of
    its UTF-8 bytes (type \<open>string\<close>); every pattern the sources search for is ASCII, and an ASCII
    byte never occurs inside a multi-byte sequence, so working on bytes gives the same result.
\<close>

named_theorems cmp_simps \<open>evaluation rules for comparison functions\<close>
named_theorems str_simps \<open>evaluation rules for the string functions\<close>

type_synonym u8 = "8 word"
type_synonym u16 = "16 word"
type_synonym u32 = "32 word"
type_synonym u64 = "64 word"
type_synonym u128 = "128 word"
type_synonym bytes = "8 word list"

section \<open>Comparison results and total comparison functions\<close>

datatype cmp_result = Less | Equal | Greater

fun flip_cmp :: "cmp_result \<Rightarrow> cmp_result" where
  "flip_cmp Less = Greater"
| "flip_cmp Equal = Equal"
| "flip_cmp Greater = Less"

fun then_with :: "cmp_result \<Rightarrow> cmp_result \<Rightarrow> cmp_result" where
  "then_with Equal c = c"
| "then_with Less c = Less"
| "then_with Greater c = Greater"

definition cmp_of :: "'a::linorder \<Rightarrow> 'a \<Rightarrow> cmp_result" where
  "cmp_of a b = (if a < b then Less else if a = b then Equal else Greater)"

fun cmp_option :: "('a \<Rightarrow> 'a \<Rightarrow> cmp_result) \<Rightarrow> 'a option \<Rightarrow> 'a option \<Rightarrow> cmp_result" where
  "cmp_option c None None = Equal"
| "cmp_option c None (Some b) = Less"
| "cmp_option c (Some a) None = Greater"
| "cmp_option c (Some a) (Some b) = c a b"

fun cmp_list :: "('a \<Rightarrow> 'a \<Rightarrow> cmp_result) \<Rightarrow> 'a list \<Rightarrow> 'a list \<Rightarrow> cmp_result" where
  "cmp_list c [] [] = Equal"
| "cmp_list c [] (b # bs) = Less"
| "cmp_list c (a # as) [] = Greater"
| "cmp_list c (a # as) (b # bs) = then_with (c a b) (cmp_list c as bs)"

definition cmp_pair ::
  "('a \<Rightarrow> 'a \<Rightarrow> cmp_result) \<Rightarrow> ('b \<Rightarrow> 'b \<Rightarrow> cmp_result) \<Rightarrow> 'a \<times> 'b \<Rightarrow> 'a \<times> 'b \<Rightarrow> cmp_result" where
  "cmp_pair c d p q = then_with (c (fst p) (fst q)) (d (snd p) (snd q))"

text \<open>Strings compare by their bytes.\<close>

definition cmp_char :: "char \<Rightarrow> char \<Rightarrow> cmp_result" where
  "cmp_char a b = cmp_of (of_char a :: nat) (of_char b)"

definition cmp_string :: "string \<Rightarrow> string \<Rightarrow> cmp_result" where
  "cmp_string = cmp_list cmp_char"

lemma flip_cmp_flip_cmp [simp]: "flip_cmp (flip_cmp c) = c"
  by (cases c) auto

lemma flip_cmp_eq_iff [simp]:
  "flip_cmp c = Equal \<longleftrightarrow> c = Equal" "flip_cmp c = Less \<longleftrightarrow> c = Greater"
  "flip_cmp c = Greater \<longleftrightarrow> c = Less"
  by (cases c; simp)+

lemma flip_then_with [simp]: "flip_cmp (then_with a b) = then_with (flip_cmp a) (flip_cmp b)"
  by (cases a) auto

lemma then_with_Equal_right [simp]: "then_with c Equal = c"
  by (cases c) auto

lemma then_with_eq_Equal [simp]: "then_with a b = Equal \<longleftrightarrow> a = Equal \<and> b = Equal"
  by (cases a) auto

lemma then_with_eq_Greater:
  "then_with a b = Greater \<longleftrightarrow> a = Greater \<or> a = Equal \<and> b = Greater"
  by (cases a) auto

lemma then_with_eq_Less: "then_with a b = Less \<longleftrightarrow> a = Less \<or> a = Equal \<and> b = Less"
  by (cases a) auto

lemma cmp_of_simps [simp]:
  "cmp_of a b = Equal \<longleftrightarrow> a = b" "cmp_of a b = Less \<longleftrightarrow> a < b" "cmp_of a b = Greater \<longleftrightarrow> b < a"
  by (auto simp: cmp_of_def)

text \<open>
  The contract of a comparison function that \<open>sort_by\<close> and \<open>BTreeMap\<close> rely on: a total
  preorder. The lemmas on sorting are proved once from it.
\<close>

locale total_cmp =
  fixes cmp :: "'a \<Rightarrow> 'a \<Rightarrow> cmp_result"
  assumes cmp_refl: "cmp a a = Equal"
    and cmp_flip: "cmp b a = flip_cmp (cmp a b)"
    and cmp_trans: "cmp a b \<noteq> Greater \<Longrightarrow> cmp b c \<noteq> Greater \<Longrightarrow> cmp a c \<noteq> Greater"
begin

lemma Greater_iff: "cmp a b = Greater \<longleftrightarrow> cmp b a = Less"
  using cmp_flip [of b a] by simp

lemma Equal_sym: "cmp a b = Equal \<Longrightarrow> cmp b a = Equal"
  using cmp_flip [of b a] by simp

lemma Less_le_trans: "cmp a b = Less \<Longrightarrow> cmp b c \<noteq> Greater \<Longrightarrow> cmp a c = Less"
  using cmp_trans [of b c a] Greater_iff [of b a] Equal_sym [of a c] Greater_iff [of c a]
    cmp_trans [of a b c] by (cases "cmp a c") auto

lemma le_Less_trans: "cmp a b \<noteq> Greater \<Longrightarrow> cmp b c = Less \<Longrightarrow> cmp a c = Less"
  using cmp_trans [of c a b] Greater_iff [of c b] Equal_sym [of a c] cmp_trans [of a b c]
  by (cases "cmp a c") auto

lemma Equal_squeeze:
  assumes "cmp a b \<noteq> Greater" "cmp b c \<noteq> Greater" "cmp a c = Equal"
  shows "cmp a b = Equal \<and> cmp b c = Equal"
  using assms Less_le_trans [of a b c] le_Less_trans [of a b c]
  by (cases "cmp a b"; cases "cmp b c") auto

lemma Equal_trans: "cmp a b = Equal \<Longrightarrow> cmp b c = Equal \<Longrightarrow> cmp a c = Equal"
  using cmp_trans [of a b c] cmp_trans [of c b a] Equal_sym [of a b] Equal_sym [of b c]
    Greater_iff [of c a] by (cases "cmp a c") auto

lemma Equal_cong_left:
  assumes "cmp a b = Equal"
  shows "cmp a c = cmp b c"
proof (cases "cmp b c")
  case Less
  then show ?thesis using assms le_Less_trans [of a b c] by simp
next
  case Equal
  then show ?thesis using assms Equal_trans [of a b c] by simp
next
  case Greater
  then have "cmp c a = Less"
    using assms Less_le_trans [of c b a] by (simp add: Greater_iff Equal_sym)
  then have "cmp a c = Greater" using Greater_iff [of a c] by simp
  with Greater show ?thesis by simp
qed

lemma Equal_cong_right: "cmp a b = Equal \<Longrightarrow> cmp c a = cmp c b"
  using Equal_cong_left [of a b c] cmp_flip [of c a] cmp_flip [of c b] by simp

end

lemma total_cmp_of: "total_cmp (cmp_of :: 'a::linorder \<Rightarrow> _)"
  by unfold_locales (auto simp: cmp_of_def split: if_splits)

lemma total_cmp_vimage: "total_cmp c \<Longrightarrow> total_cmp (\<lambda>a b. c (f a) (f b))"
  unfolding total_cmp_def by blast

lemma total_cmp_const: "total_cmp (\<lambda>a b. Equal)"
  by unfold_locales auto

lemma total_cmp_then_with:
  assumes "total_cmp c" and "total_cmp d"
  shows "total_cmp (\<lambda>a b. then_with (c a b) (d a b))"
proof (unfold_locales, goal_cases)
  case (1 a)
  then show ?case using assms by (simp add: total_cmp.cmp_refl)
next
  case (2 b a)
  then show ?case
    using total_cmp.cmp_flip [OF assms(1), of b a] total_cmp.cmp_flip [OF assms(2), of b a] by simp
next
  case (3 a b e)
  then have le: "c a b \<noteq> Greater" "c b e \<noteq> Greater" by (auto simp: then_with_eq_Greater)
  then have ce: "c a e \<noteq> Greater" by (rule total_cmp.cmp_trans [OF assms(1)])
  show ?case
  proof (cases "c a e")
    case Equal
    with le have "c a b = Equal" "c b e = Equal"
      using total_cmp.Equal_squeeze [OF assms(1)] by blast+
    with 3 have "d a b \<noteq> Greater" "d b e \<noteq> Greater" by auto
    then have "d a e \<noteq> Greater" by (rule total_cmp.cmp_trans [OF assms(2)])
    with Equal show ?thesis by simp
  qed (use ce in auto)
qed

lemma total_cmp_option:
  assumes "total_cmp c"
  shows "total_cmp (cmp_option c)"
proof (unfold_locales, goal_cases)
  case (1 a)
  then show ?case using assms by (cases a) (auto simp: total_cmp.cmp_refl)
next
  case (2 b a)
  show ?case
  proof (cases a)
    case None
    then show ?thesis by (cases b) auto
  next
    case (Some a')
    then show ?thesis by (cases b) (auto simp: total_cmp.cmp_flip [OF assms, of _ a'])
  qed
next
  case (3 a b e)
  show ?case
  proof (cases a)
    case None
    then show ?thesis by (cases e) auto
  next
    case (Some a')
    with 3 obtain b' e' where "b = Some b'" "e = Some e'" by (cases b; cases e) auto
    with Some 3 show ?thesis using total_cmp.cmp_trans [OF assms, of a' b' e'] by simp
  qed
qed

lemma total_cmp_list:
  assumes "total_cmp c"
  shows "total_cmp (cmp_list c)"
proof (unfold_locales, goal_cases)
  case (1 as)
  show ?case by (induction as) (auto simp: total_cmp.cmp_refl [OF assms])
next
  case (2 bs as)
  show ?case
  proof (induction as arbitrary: bs)
    case Nil
    then show ?case by (cases bs) auto
  next
    case (Cons a as)
    then show ?case
      by (cases bs) (auto simp: total_cmp.cmp_flip [OF assms, of _ a])
  qed
next
  case (3 as bs es)
  then show ?case
  proof (induction as arbitrary: bs es)
    case Nil
    then show ?case by (cases es) auto
  next
    case (Cons a as)
    then obtain b bs' where bs: "bs = b # bs'" by (cases bs) auto
    with Cons.prems obtain e es' where es: "es = e # es'" by (cases es) auto
    have le: "c a b \<noteq> Greater" "c b e \<noteq> Greater"
      using Cons.prems bs es by (auto simp: then_with_eq_Greater)
    then have ce: "c a e \<noteq> Greater" using total_cmp.cmp_trans [OF assms] by blast
    show ?case
    proof (cases "c a e = Equal")
      case False
      with ce show ?thesis by (simp add: es then_with_eq_Greater)
    next
      case True
      with le have "c a b = Equal" "c b e = Equal"
        using total_cmp.Equal_squeeze [OF assms] by blast+
      with Cons.prems bs es have "cmp_list c as bs' \<noteq> Greater" "cmp_list c bs' es' \<noteq> Greater" by auto
      then have "cmp_list c as es' \<noteq> Greater" by (rule Cons.IH)
      with True show ?thesis by (simp add: es)
    qed
  qed
qed

lemma total_cmp_pair: "total_cmp c \<Longrightarrow> total_cmp d \<Longrightarrow> total_cmp (cmp_pair c d)"
  unfolding cmp_pair_def by (rule total_cmp_then_with) (rule total_cmp_vimage, assumption)+

lemma total_cmp_char: "total_cmp cmp_char"
  unfolding cmp_char_def by (rule total_cmp_vimage [OF total_cmp_of])

lemma total_cmp_string: "total_cmp cmp_string"
  unfolding cmp_string_def by (rule total_cmp_list [OF total_cmp_char])

lemmas total_cmp_intros =
  total_cmp_of total_cmp_then_with total_cmp_option total_cmp_list total_cmp_pair total_cmp_string

lemma cmp_list_Equal_iff:
  assumes "\<And>a b. c a b = Equal \<longleftrightarrow> a = b"
  shows "cmp_list c as bs = Equal \<longleftrightarrow> as = bs"
proof (induction as arbitrary: bs)
  case Nil
  then show ?case by (cases bs) auto
next
  case (Cons a as)
  then show ?case by (cases bs) (auto simp: assms)
qed

lemma cmp_string_Equal_iff [simp]: "cmp_string s t = Equal \<longleftrightarrow> s = t"
  unfolding cmp_string_def by (rule cmp_list_Equal_iff) (simp add: cmp_char_def)

lemma cmp_option_Equal_iff:
  assumes "\<And>a b. c a b = Equal \<longleftrightarrow> a = b"
  shows "cmp_option c x y = Equal \<longleftrightarrow> x = y"
  by (cases x; cases y) (auto simp: assms)

section \<open>Stable sorting\<close>

fun insert_by :: "('a \<Rightarrow> 'a \<Rightarrow> cmp_result) \<Rightarrow> 'a \<Rightarrow> 'a list \<Rightarrow> 'a list" where
  "insert_by c x [] = [x]"
| "insert_by c x (y # ys) = (if c x y = Greater then y # insert_by c x ys else x # y # ys)"

definition sort_by :: "('a \<Rightarrow> 'a \<Rightarrow> cmp_result) \<Rightarrow> 'a list \<Rightarrow> 'a list" where
  "sort_by c xs = foldr (insert_by c) xs []"

lemma sort_by_simps [simp]:
  "sort_by c [] = []" "sort_by c (x # xs) = insert_by c x (sort_by c xs)"
  by (simp_all add: sort_by_def)

lemma mset_insert_by [simp]: "mset (insert_by c x xs) = add_mset x (mset xs)"
  by (induction xs) auto

lemma mset_sort_by [simp]: "mset (sort_by c xs) = mset xs"
  by (induction xs) auto

lemma set_sort_by [simp]: "set (sort_by c xs) = set xs"
  by (metis mset_sort_by set_mset_mset)

lemma length_sort_by [simp]: "length (sort_by c xs) = length xs"
  by (metis mset_sort_by size_mset)

lemma set_insert_by [simp]: "set (insert_by c x xs) = insert x (set xs)"
  by (induction xs) auto

lemma insert_by_cong:
  "(\<And>y. y \<in> set ys \<Longrightarrow> c x y = d x y) \<Longrightarrow> insert_by c x ys = insert_by d x ys"
  by (induction ys) auto

lemma sort_by_cong:
  "(\<And>x y. x \<in> set xs \<Longrightarrow> y \<in> set xs \<Longrightarrow> c x y = d x y) \<Longrightarrow> sort_by c xs = sort_by d xs"
proof (induction xs)
  case (Cons x xs)
  have "sort_by c xs = sort_by d xs" by (rule Cons.IH) (simp add: Cons.prems)
  moreover have "insert_by c x (sort_by d xs) = insert_by d x (sort_by d xs)"
    by (rule insert_by_cong) (simp add: Cons.prems)
  ultimately show ?case by simp
qed simp

context total_cmp
begin

abbreviation sorted_by :: "'a list \<Rightarrow> bool" where
  "sorted_by xs \<equiv> sorted_wrt (\<lambda>a b. cmp a b \<noteq> Greater) xs"

lemma sorted_insert_by: "sorted_by xs \<Longrightarrow> sorted_by (insert_by cmp x xs)"
proof (induction xs)
  case Nil
  then show ?case by simp
next
  case (Cons y ys)
  show ?case
  proof (cases "cmp x y = Greater")
    case True
    then have "cmp y x \<noteq> Greater" by (simp add: Greater_iff)
    with True Cons show ?thesis by auto
  next
    case False
    with Cons.prems show ?thesis by (auto dest: cmp_trans [of x y])
  qed
qed

lemma sorted_sort_by: "sorted_by (sort_by cmp xs)"
  by (induction xs) (auto intro: sorted_insert_by)

lemma filter_insert_by_Equal:
  "sorted_by xs \<Longrightarrow> filter (\<lambda>y. cmp y a = Equal) (insert_by cmp x xs) =
     (if cmp x a = Equal then x # filter (\<lambda>y. cmp y a = Equal) xs
      else filter (\<lambda>y. cmp y a = Equal) xs)"
proof (induction xs)
  case Nil
  then show ?case by simp
next
  case (Cons y ys)
  have "cmp y a \<noteq> Equal" if "cmp x y = Greater" "cmp x a = Equal"
    using that Equal_cong_right [of y a x] by auto
  with Cons show ?case by auto
qed

text \<open>Stability: elements that compare equal keep their order.\<close>

lemma sort_by_stable:
  "filter (\<lambda>y. cmp y a = Equal) (sort_by cmp xs) = filter (\<lambda>y. cmp y a = Equal) xs"
  by (induction xs) (auto simp: filter_insert_by_Equal [OF sorted_sort_by])

text \<open>Scanning a sorted list from its end finds a match that no other match exceeds.\<close>

lemma find_rev_greatest:
  assumes "sorted_by xs" and "find P (rev xs) = Some c"
  shows "c \<in> set xs \<and> P c \<and> (\<forall>d \<in> set xs. P d \<longrightarrow> cmp d c \<noteq> Greater)"
proof -
  from assms(2) obtain i where i: "i < length xs" "P (rev xs ! i)" "c = rev xs ! i"
    "\<forall>j < i. \<not> P (rev xs ! j)" by (auto simp: find_Some_iff)
  have "cmp d c \<noteq> Greater" if d: "d \<in> set xs" "P d" for d
  proof -
    from d obtain j where j: "j < length xs" "d = rev xs ! j"
      by (metis in_set_conv_nth length_rev set_rev)
    with i d have "i \<le> j" by (meson not_le_imp_less)
    have "sorted_wrt (\<lambda>a b. cmp b a \<noteq> Greater) (rev xs)"
      using assms(1) by (simp add: sorted_wrt_rev)
    then have "i < j \<Longrightarrow> cmp (rev xs ! j) (rev xs ! i) \<noteq> Greater"
      using j by (simp add: sorted_wrt_iff_nth_less)
    with i j \<open>i \<le> j\<close> show ?thesis by (cases "i = j") (auto simp: cmp_refl)
  qed
  moreover have "c \<in> set (rev xs)" using i by (metis length_rev nth_mem)
  ultimately show ?thesis using i by simp
qed

text \<open>
  The list reversed, sorted stably and scanned from its end: the match found is a greatest one,
  and of the greatest ones the first of the original list.
\<close>

lemma find_rev_filter:
  "find P (rev xs) = Some c \<Longrightarrow> Q c \<Longrightarrow> find P (rev (filter Q xs)) = Some c"
proof (induction xs rule: rev_induct)
  case (snoc x xs)
  then show ?case by (cases "P x") auto
qed simp

lemma find_rev_sort_rev:
  assumes "find P (rev (sort_by cmp (rev xs))) = Some c"
  shows "\<exists>i < length xs. xs ! i = c \<and> P c \<and>
    (\<forall>j < length xs. P (xs ! j) \<longrightarrow> cmp (xs ! j) c \<noteq> Greater \<and> (cmp (xs ! j) c = Equal \<longrightarrow> i \<le> j))"
proof -
  let ?E = "\<lambda>y. cmp y c = Equal"
  have g: "P c" "\<forall>d \<in> set xs. P d \<longrightarrow> cmp d c \<noteq> Greater"
    using find_rev_greatest [OF sorted_sort_by assms] by auto
  have "find P (rev (filter ?E (sort_by cmp (rev xs)))) = Some c"
    by (rule find_rev_filter [OF assms cmp_refl])
  then have "find P (filter ?E xs) = Some c" by (simp add: sort_by_stable rev_filter)
  then have "find (\<lambda>y. P y \<and> ?E y) xs = Some c" by (induction xs) (auto split: if_splits)
  then obtain i where "i < length xs" "xs ! i = c" "\<forall>j < i. \<not> (P (xs ! j) \<and> ?E (xs ! j))"
    by (auto simp: find_Some_iff)
  then have "\<forall>j < length xs. P (xs ! j) \<longrightarrow> cmp (xs ! j) c = Equal \<longrightarrow> i \<le> j" by (meson not_le_imp_less)
  with g \<open>i < length xs\<close> \<open>xs ! i = c\<close> show ?thesis by (intro exI [of _ i]) simp
qed

end

section \<open>Computations that may fail or not return\<close>

text \<open>\<open>None\<close>: never returns; \<open>Some (Inl e)\<close>: the error \<open>e\<close> is returned; \<open>Some (Inr a)\<close>: the value \<open>a\<close>.\<close>

type_synonym ('e, 'a) run = "('e + 'a) option"

fun bind_run :: "('e, 'a) run \<Rightarrow> ('a \<Rightarrow> ('e, 'b) run) \<Rightarrow> ('e, 'b) run" where
  "bind_run None f = None"
| "bind_run (Some (Inl e)) f = Some (Inl e)"
| "bind_run (Some (Inr a)) f = f a"

abbreviation ret :: "'a \<Rightarrow> ('e, 'a) run" where
  "ret a \<equiv> Some (Inr a)"

lemma bind_run_ret_iff: "bind_run m f = ret b \<longleftrightarrow> (\<exists>a. m = ret a \<and> f a = ret b)"
  by (cases "(m, f)" rule: bind_run.cases) auto

lemma bind_run_assoc: "bind_run (bind_run m f) g = bind_run m (\<lambda>a. bind_run (f a) g)"
  by (cases "(m, f)" rule: bind_run.cases) auto

text \<open>\<open>std::task::Poll\<close>: what one call of a poll function yields.\<close>

datatype 'a poll = Pending | Ready 'a

section \<open>Strings\<close>

definition starts_with :: "'a list \<Rightarrow> 'a list \<Rightarrow> bool" where
  "starts_with p s \<longleftrightarrow> take (length p) s = p"

definition ends_with :: "'a list \<Rightarrow> 'a list \<Rightarrow> bool" where
  "ends_with p s \<longleftrightarrow> starts_with (rev p) (rev s)"

definition strip_prefix :: "'a list \<Rightarrow> 'a list \<Rightarrow> 'a list option" where
  "strip_prefix p s = (if starts_with p s then Some (drop (length p) s) else None)"

text \<open>\<open>find\<close>: the index of the first occurrence.\<close>

fun find_sub :: "'a list \<Rightarrow> 'a list \<Rightarrow> nat option" where
  "find_sub p [] = (if p = [] then Some 0 else None)"
| "find_sub p (x # xs) =
     (if starts_with p (x # xs) then Some 0 else map_option Suc (find_sub p xs))"

definition contains_sub :: "'a list \<Rightarrow> 'a list \<Rightarrow> bool" where
  "contains_sub p s \<longleftrightarrow> find_sub p s \<noteq> None"

text \<open>\<open>replace\<close>: non-overlapping occurrences, from the left. The sources never use an empty pattern.\<close>

function replace_all :: "'a list \<Rightarrow> 'a list \<Rightarrow> 'a list \<Rightarrow> 'a list" where
  "replace_all p r [] = []"
| "replace_all p r (x # xs) =
     (if p \<noteq> [] \<and> starts_with p (x # xs) then r @ replace_all p r (drop (length p) (x # xs))
      else x # replace_all p r xs)"
  by pat_completeness auto
termination
  by (relation "measure (\<lambda>(p, r, s). length s)") auto

text \<open>\<open>split\<close> on a character, \<open>split_once\<close>, \<open>trim_end_matches\<close>, \<open>trim_start_matches\<close>.\<close>

fun split_on :: "'a \<Rightarrow> 'a list \<Rightarrow> 'a list list" where
  "split_on c [] = [[]]"
| "split_on c (x # xs) =
     (if x = c then [] # split_on c xs
      else (case split_on c xs of [] \<Rightarrow> [[x]] | s # ss \<Rightarrow> (x # s) # ss))"

fun split_once :: "'a \<Rightarrow> 'a list \<Rightarrow> ('a list \<times> 'a list) option" where
  "split_once c [] = None"
| "split_once c (x # xs) =
     (if x = c then Some ([], xs) else map_option (\<lambda>(a, b). (x # a, b)) (split_once c xs))"

definition trim_end_matches :: "'a \<Rightarrow> 'a list \<Rightarrow> 'a list" where
  "trim_end_matches c s = rev (dropWhile (\<lambda>x. x = c) (rev s))"

definition is_ascii_ws :: "char \<Rightarrow> bool" where
  "is_ascii_ws c \<longleftrightarrow> of_char c \<in> {9, 10, 11, 12, 13, 32 :: nat}"

definition trim :: "string \<Rightarrow> string" where
  "trim s = rev (dropWhile is_ascii_ws (rev (dropWhile is_ascii_ws s)))"

definition ascii_lower :: "char \<Rightarrow> char" where
  "ascii_lower c = (if 65 \<le> (of_char c :: nat) \<and> (of_char c :: nat) \<le> 90
     then char_of ((of_char c :: nat) + 32) else c)"

definition to_lowercase :: "string \<Rightarrow> string" where
  "to_lowercase = map ascii_lower"

text \<open>The iterator of \<open>Vec::join\<close>.\<close>

fun join_with :: "'a list \<Rightarrow> 'a list list \<Rightarrow> 'a list" where
  "join_with sep [] = []"
| "join_with sep [s] = s"
| "join_with sep (s # t # ts) = s @ sep @ join_with sep (t # ts)"

subsection \<open>Facts about the string functions\<close>

lemma starts_with_Nil [simp]: "starts_with [] s"
  by (simp add: starts_with_def)

lemma starts_with_append [simp]: "starts_with p (p @ s)"
  by (simp add: starts_with_def)

lemma starts_with_Cons [simp]:
  "starts_with (a # p) (b # s) \<longleftrightarrow> a = b \<and> starts_with p s" "\<not> starts_with (a # p) []"
  by (auto simp: starts_with_def)

lemma starts_with_iff: "starts_with p s \<longleftrightarrow> (\<exists>t. s = p @ t)"
proof (induction p arbitrary: s)
  case Nil
  then show ?case by simp
next
  case (Cons a p)
  then show ?case by (cases s) auto
qed

lemma ends_with_iff: "ends_with p s \<longleftrightarrow> (\<exists>t. s = t @ p)"
  unfolding ends_with_def starts_with_iff
  by (metis rev_append rev_rev_ident)

lemma strip_prefix_Some_iff: "strip_prefix p s = Some t \<longleftrightarrow> s = p @ t"
  by (auto simp: strip_prefix_def starts_with_iff)

lemma find_sub_Some:
  "find_sub p s = Some i \<Longrightarrow> \<exists>t. s = take i s @ p @ t"
proof (induction s arbitrary: i)
  case Nil
  then show ?case by (simp split: if_splits)
next
  case (Cons x xs)
  then show ?case
    by (cases i) (auto simp: starts_with_iff split: if_splits)
qed

lemma find_sub_bound: "find_sub p s = Some i \<Longrightarrow> i + length p \<le> length s"
proof (induction s arbitrary: i)
  case Nil
  then show ?case by (simp split: if_splits)
next
  case (Cons x xs)
  have "length p \<le> Suc (length xs)" if "starts_with p (x # xs)"
    using that by (metis le_add1 length_Cons length_append starts_with_iff)
  with Cons show ?case by (cases i) (auto split: if_splits)
qed

lemma find_sub_None_iff: "find_sub p s = None \<longleftrightarrow> (\<nexists>a b. s = a @ p @ b)"
proof (induction s)
  case Nil
  then show ?case by simp
next
  case (Cons x xs)
  show ?case
  proof (cases "starts_with p (x # xs)")
    case True
    then obtain b where "x # xs = [] @ p @ b" by (auto simp: starts_with_iff)
    then have "\<exists>a b. x # xs = a @ p @ b" by blast
    with True show ?thesis by (metis find_sub.simps(2) option.distinct(1))
  next
    case False
    then have "x # xs = a @ p @ b \<longleftrightarrow> (\<exists>a'. a = x # a' \<and> xs = a' @ p @ b)" for a b
      by (cases a) (auto simp: starts_with_iff)
    with False Cons show ?thesis by auto
  qed
qed

lemma contains_sub_iff: "contains_sub p s \<longleftrightarrow> (\<exists>a b. s = a @ p @ b)"
  by (simp add: contains_sub_def find_sub_None_iff)

lemma find_sub_first:
  "find_sub p s = Some i \<Longrightarrow> j < i \<Longrightarrow> \<not> starts_with p (drop j s)"
proof (induction s arbitrary: i j)
  case Nil
  then show ?case by (simp split: if_splits)
next
  case (Cons x xs)
  then show ?case by (cases j; cases i) (auto split: if_splits)
qed

lemma find_single_None_iff: "find_sub [c] s = None \<longleftrightarrow> c \<notin> set s"
  by (induction s) auto

lemma find_single_Some_iff:
  "find_sub [c] s = Some i \<longleftrightarrow> i < length s \<and> s ! i = c \<and> c \<notin> set (take i s)"
proof (induction s arbitrary: i)
  case Nil
  then show ?case by simp
next
  case (Cons x xs)
  then show ?case by (cases i) auto
qed

lemma split_on_nonempty [simp]: "split_on c s \<noteq> []"
  by (induction s) (auto split: list.splits)

lemma join_split_on: "join_with [c] (split_on c s) = s"
proof (induction s)
  case Nil
  then show ?case by simp
next
  case (Cons x xs)
  obtain t ts where ts: "split_on c xs = t # ts" by (cases "split_on c xs") auto
  with Cons show ?case by (cases ts) auto
qed

lemma split_on_no_sep: "t \<in> set (split_on c s) \<Longrightarrow> c \<notin> set t"
proof (induction s arbitrary: t)
  case Nil
  then show ?case by simp
next
  case (Cons x xs)
  then show ?case by (cases "split_on c xs") (auto split: if_splits)
qed

lemma split_on_append_sep: "split_on c (a @ c # b) = split_on c a @ split_on c b"
  by (induction a) (auto split: list.splits)

lemma split_on_single: "c \<notin> set s \<Longrightarrow> split_on c s = [s]"
  by (induction s) auto

lemma split_once_Some_iff:
  "split_once c s = Some (a, b) \<longleftrightarrow> s = a @ c # b \<and> c \<notin> set a"
proof (induction s arbitrary: a)
  case Nil
  then show ?case by simp
next
  case (Cons x xs)
  then show ?case by (cases a) auto
qed

lemma split_once_None_iff: "split_once c s = None \<longleftrightarrow> c \<notin> set s"
  by (induction s) auto

lemma trim_end_matches_append: "\<exists>k. s = trim_end_matches c s @ replicate k c"
proof -
  have "rev s = takeWhile (\<lambda>x. x = c) (rev s) @ dropWhile (\<lambda>x. x = c) (rev s)" by simp
  moreover have "takeWhile (\<lambda>x. x = c) (rev s) = replicate (length (takeWhile (\<lambda>x. x = c) (rev s))) c"
    by (metis (mono_tags, lifting) replicate_length_same set_takeWhileD)
  ultimately show ?thesis unfolding trim_end_matches_def
    by (metis rev_append rev_replicate rev_rev_ident)
qed

lemma trim_end_matches_last: "trim_end_matches c s \<noteq> [] \<Longrightarrow> last (trim_end_matches c s) \<noteq> c"
  unfolding trim_end_matches_def using hd_dropWhile [of "\<lambda>x. x = c" "rev s"] by (simp add: last_rev)

lemma trim_end_matches_id: "s = [] \<or> last s \<noteq> c \<Longrightarrow> trim_end_matches c s = s"
  unfolding trim_end_matches_def
  by (cases s rule: rev_cases) auto

lemma trim_end_matches_snoc [simp]:
  "trim_end_matches c (s @ [x]) = (if x = c then trim_end_matches c s else s @ [x])"
  by (simp add: trim_end_matches_def)

lemma trim_end_matches_Nil [simp]: "trim_end_matches c [] = []"
  by (simp add: trim_end_matches_def)

lemma set_trim_end_matches: "set (trim_end_matches c s) \<subseteq> set s"
  unfolding trim_end_matches_def using set_dropWhileD by fastforce

lemmas [str_simps] =
  starts_with_def ends_with_def strip_prefix_def contains_sub_def trim_end_matches_def trim_def
  is_ascii_ws_def to_lowercase_def ascii_lower_def

end
