(* ===== verification/Url_Sanitizer.thy ===== *)
theory Url_Sanitizer
  imports Prelude
begin

text \<open>
  The URL sanitizer, \<open>ferron/src/util/url_sanitizer.rs\<close>. Strings are lists of bytes.
  \<open>decode_pass\<close> is the combined pass that drops NUL bytes and validates, decodes and re-encodes
  percent escapes; \<open>build_segments\<close> cuts the result into segments at slashes and backslashes;
  \<open>process_segments\<close> resolves \<open>.\<close> and \<open>..\<close>; \<open>render_segments\<close> writes the segments back.
  \<open>sanitize_url\<close> composes them as the source does. The lemmas show what the rest of the server
  relies on: a sanitized path is absolute, has no dot segment, no NUL and no backslash, only
  well-formed escapes, and is a fixed point of the sanitizer; and which inputs are rejected.
\<close>

section \<open>Definitions\<close>

datatype url_error = URI_malformed | Invalid_hex | Invalid_UTF8

text \<open>The characters of \<open>SAFE_CHARS\<close>; the apostrophe is \<open>CHR 0x27\<close>.\<close>

definition safe_bytes :: string where
  "safe_bytes = ''ABCDEFGHIJKLMNOPQRSTUVWXYZabcdefghijklmnopqrstuvwxyz0123456789!$&()*+,-./:;=@[]_~''
     @ [CHR 0x27]"

definition is_safe_char :: "char \<Rightarrow> bool" where
  "is_safe_char c \<longleftrightarrow> c \<in> set safe_bytes"

definition HEX_CHARS :: string where
  "HEX_CHARS = ''0123456789ABCDEF''"

definition is_ascii_hexdigit :: "char \<Rightarrow> bool" where
  "is_ascii_hexdigit c \<longleftrightarrow>
     (let n = of_char c :: nat in 48 \<le> n \<and> n \<le> 57 \<or> 65 \<le> n \<and> n \<le> 70 \<or> 97 \<le> n \<and> n \<le> 102)"

definition hex_val :: "char \<Rightarrow> nat option" where
  "hex_val c = (let n = of_char c :: nat in
     if 48 \<le> n \<and> n \<le> 57 then Some (n - 48)
     else if 97 \<le> n \<and> n \<le> 102 then Some (10 + (n - 97))
     else if 65 \<le> n \<and> n \<le> 70 then Some (10 + (n - 65))
     else None)"

definition hex_to_byte_fast :: "char \<Rightarrow> char \<Rightarrow> url_error + nat" where
  "hex_to_byte_fast hi lo = (case (hex_val hi, hex_val lo) of
     (Some h, Some l) \<Rightarrow> Inr (16 * h + l)
   | _ \<Rightarrow> Inl Invalid_hex)"

text \<open>The bytes \<open>match byte\<close> re-encodes: \<open><\<close>, \<open>>\<close>, \<open>^\<close>, the backquote, \<open>{\<close>, \<open>|\<close> and \<open>}\<close>.\<close>

definition needs_encoding :: "char \<Rightarrow> bool" where
  "needs_encoding c \<longleftrightarrow> (of_char c :: nat) \<in> {60, 62, 94, 96, 123, 124, 125}"

definition encode_byte :: "char \<Rightarrow> string" where
  "encode_byte c = [CHR ''%'', HEX_CHARS ! ((of_char c :: nat) div 16), HEX_CHARS ! ((of_char c :: nat) mod 16)]"

definition bad_escape :: "nat \<Rightarrow> bool" where
  "bad_escape v \<longleftrightarrow> v = 192 \<or> v = 193 \<or> v \<ge> 254"

fun decode_pass :: "string \<Rightarrow> url_error + string" where
  "decode_pass [] = Inr []"
| "decode_pass (b # bs) =
     (if b = CHR 0x00 then decode_pass bs
      else if b = CHR ''%'' then
        (case bs of
           hi # lo # rest \<Rightarrow>
             (if \<not> is_ascii_hexdigit hi \<or> \<not> is_ascii_hexdigit lo then Inl URI_malformed
              else (case hex_to_byte_fast hi lo of
                  Inl e \<Rightarrow> Inl e
                | Inr v \<Rightarrow>
                    if bad_escape v then Inl URI_malformed
                    else if v = 0 then decode_pass rest
                    else if is_safe_char (char_of v) then map_sum id (\<lambda>r. char_of v # r) (decode_pass rest)
                    else map_sum id (\<lambda>r. b # hi # lo # r) (decode_pass rest)))
         | _ \<Rightarrow> Inl URI_malformed)
      else if needs_encoding b then map_sum id (\<lambda>r. encode_byte b @ r) (decode_pass bs)
      else map_sum id (\<lambda>r. b # r) (decode_pass bs))"

text \<open>Ensuring the leading slash; \<open>orig\<close> is the original input.\<close>

definition double_slash_start :: "string \<Rightarrow> bool" where
  "double_slash_start s \<longleftrightarrow> starts_with ''//'' s"

definition ensure_leading_slash :: "bool \<Rightarrow> string \<Rightarrow> string \<Rightarrow> string" where
  "ensure_leading_slash allow orig r =
     (if r = [] \<or> hd r \<noteq> CHR ''/'' then CHR ''/'' # r
      else if allow \<and> double_slash_start orig then
        (if length r \<ge> 2 \<and> r ! 0 = CHR ''/'' \<and> r ! 1 \<noteq> CHR ''/'' then CHR ''/'' # CHR ''/'' # tl r else r)
      else r)"

definition is_slash :: "char \<Rightarrow> bool" where
  "is_slash c \<longleftrightarrow> c = CHR 0x5C \<or> c = CHR ''/''"

definition trim_segment :: "string \<Rightarrow> string" where
  "trim_segment seg = (if seg \<noteq> ''.'' \<and> seg \<noteq> ''..'' then trim_end_matches CHR ''.'' seg else seg)"

definition push_segment :: "string list \<Rightarrow> string \<Rightarrow> string list" where
  "push_segment segs cur =
     (if cur \<noteq> [] \<and> trim_segment cur \<noteq> [] then segs @ [trim_segment cur] else segs)"

fun build_segments :: "bool \<Rightarrow> string list \<Rightarrow> string \<Rightarrow> bool \<Rightarrow> string \<Rightarrow> string list" where
  "build_segments allow segs cur last_was_slash [] = push_segment segs cur"
| "build_segments allow segs cur last_was_slash (b # bs) =
     (if is_slash b then
        build_segments allow
          (if allow \<and> last_was_slash then push_segment segs cur @ [[]] else push_segment segs cur)
          [] True bs
      else build_segments allow segs (cur @ [b]) False bs)"

definition navigate :: "bool \<Rightarrow> string list \<Rightarrow> string \<Rightarrow> string list" where
  "navigate allow fin seg =
     (if seg = [] \<and> allow then fin @ [seg]
      else if seg = ''.'' then fin
      else if seg = ''..'' then butlast fin
      else if seg \<noteq> [] then fin @ [seg]
      else fin)"

definition process_segments :: "bool \<Rightarrow> string list \<Rightarrow> string list" where
  "process_segments allow segs = foldl (navigate allow) [] segs"

fun render_segments :: "bool \<Rightarrow> nat \<Rightarrow> string list \<Rightarrow> string" where
  "render_segments allow idx [] = []"
| "render_segments allow idx (seg # segs) =
     (if idx > 0 \<or> allow \<and> seg = [] then [CHR ''/''] else []) @ seg @ render_segments allow (Suc idx) segs"

text \<open>\<open>String::from_utf8\<close>: well-formed byte sequences of the Unicode standard.\<close>

definition cont_byte :: "char \<Rightarrow> bool" where
  "cont_byte c \<longleftrightarrow> (let n = of_char c :: nat in 128 \<le> n \<and> n \<le> 191)"

definition byte_in :: "nat \<Rightarrow> nat \<Rightarrow> char \<Rightarrow> bool" where
  "byte_in lo hi c \<longleftrightarrow> lo \<le> (of_char c :: nat) \<and> (of_char c :: nat) \<le> hi"

fun utf8_tail :: "string \<Rightarrow> string option" where
  "utf8_tail [] = None"
| "utf8_tail (a # r) =
     (if byte_in 0 127 a then Some r
      else if byte_in 194 223 a then (case r of b # r' \<Rightarrow> if cont_byte b then Some r' else None | _ \<Rightarrow> None)
      else if byte_in 224 239 a then
        (case r of b # c # r' \<Rightarrow>
           if byte_in (if of_char a = (224::nat) then 160 else 128) (if of_char a = (237::nat) then 159 else 191) b
             \<and> cont_byte c then Some r' else None | _ \<Rightarrow> None)
      else if byte_in 240 244 a then
        (case r of b # c # d # r' \<Rightarrow>
           if byte_in (if of_char a = (240::nat) then 144 else 128) (if of_char a = (244::nat) then 143 else 191) b
             \<and> cont_byte c \<and> cont_byte d then Some r' else None | _ \<Rightarrow> None)
      else None)"

lemma utf8_tail_shorter: "utf8_tail s = Some r \<Longrightarrow> length r < length s"
  by (induction s rule: utf8_tail.induct) (auto split: if_splits list.splits)

function valid_utf8 :: "string \<Rightarrow> bool" where
  "valid_utf8 s = (s = [] \<or> (case utf8_tail s of None \<Rightarrow> False | Some r \<Rightarrow> valid_utf8 r))"
  by pat_completeness auto
termination
  by (relation "measure length") (auto dest: utf8_tail_shorter)

declare valid_utf8.simps [simp del]

definition sanitize_url :: "string \<Rightarrow> bool \<Rightarrow> url_error + string" where
  "sanitize_url resource allow =
     (if resource = ''*'' \<or> resource = [] then Inr resource
      else case decode_pass resource of
        Inl e \<Rightarrow> Inl e
      | Inr r0 \<Rightarrow>
          let r = ensure_leading_slash allow resource r0;
              start = (if allow \<and> double_slash_start r then 2 else 1);
              segments = build_segments allow [] [] True (drop start r);
              final_segments = process_segments allow segments;
              lead = (if allow \<and> double_slash_start resource then ''//'' else ''/'');
              preserve_trailing_slash = (r \<noteq> [] \<and> is_slash (last r));
              final_result = lead @ render_segments allow 0 final_segments @
                (if preserve_trailing_slash \<and> final_segments \<noteq> [] then ''/'' else [])
          in if valid_utf8 final_result then Inr final_result else Inl Invalid_UTF8)"


section \<open>Hexadecimal digits and escapes\<close>

lemma hex_val_Some: "is_ascii_hexdigit c \<longleftrightarrow> (\<exists>v < 16. hex_val c = Some v)"
  unfolding is_ascii_hexdigit_def hex_val_def Let_def by auto

lemma hex_to_byte_fast_Inr:
  assumes "is_ascii_hexdigit hi" "is_ascii_hexdigit lo"
  shows "\<exists>v < 256. hex_to_byte_fast hi lo = Inr v"
proof -
  obtain h l where "h < 16" "l < 16" "hex_val hi = Some h" "hex_val lo = Some l"
    using assms hex_val_Some by blast
  then show ?thesis by (auto simp: hex_to_byte_fast_def)
qed

text \<open>The value of an escape, and whether the pass accepts it.\<close>

definition escape_value :: "char \<Rightarrow> char \<Rightarrow> nat option" where
  "escape_value hi lo =
     (if is_ascii_hexdigit hi \<and> is_ascii_hexdigit lo
      then (case hex_to_byte_fast hi lo of Inl e \<Rightarrow> None | Inr v \<Rightarrow> if bad_escape v then None else Some v)
      else None)"

lemma decode_pass_percent:
  "decode_pass (CHR ''%'' # hi # lo # rest) =
     (case escape_value hi lo of
        None \<Rightarrow> Inl URI_malformed
      | Some v \<Rightarrow> if v = 0 then decode_pass rest
                 else if is_safe_char (char_of v) then map_sum id (\<lambda>r. char_of v # r) (decode_pass rest)
                 else map_sum id (\<lambda>r. CHR ''%'' # hi # lo # r) (decode_pass rest))"
  using hex_to_byte_fast_Inr [of hi lo] by (auto simp: escape_value_def split: sum.splits)

lemma decode_pass_percent_short:
  "decode_pass [CHR ''%''] = Inl URI_malformed" "decode_pass [CHR ''%'', hi] = Inl URI_malformed"
  by simp_all

lemma decode_pass_plain:
  assumes "b \<noteq> CHR ''%''"
  shows "decode_pass (b # bs) =
    (if b = CHR 0x00 then decode_pass bs
     else map_sum id (\<lambda>r. (if needs_encoding b then encode_byte b else [b]) @ r) (decode_pass bs))"
  using assms by (cases "decode_pass bs") auto

lemmas decode_pass_rules = decode_pass_percent decode_pass_percent_short decode_pass_plain

text \<open>Induction along the pass: one plain byte or one escape at a time.\<close>

lemma url_induct [case_names Nil Plain Percent Short]:
  assumes "P []"
    and "\<And>b bs. b \<noteq> CHR ''%'' \<Longrightarrow> P bs \<Longrightarrow> P (b # bs)"
    and "\<And>hi lo rest. P rest \<Longrightarrow> P (hi # lo # rest) \<Longrightarrow> P (CHR ''%'' # hi # lo # rest)"
    and "\<And>bs. length bs < 2 \<Longrightarrow> P (CHR ''%'' # bs)"
  shows "P s"
proof (induction s rule: length_induct)
  case (1 s)
  show ?case
  proof (cases s)
    case Nil
    then show ?thesis using assms(1) by simp
  next
    case (Cons b bs)
    show ?thesis
    proof (cases "b = CHR ''%''")
      case False
      then show ?thesis using assms(2) Cons 1 by simp
    next
      case True
      show ?thesis
      proof (cases "length bs < 2")
        case True
        then show ?thesis using assms(4) Cons \<open>b = CHR ''%''\<close> by simp
      next
        case False
        then obtain hi lo rest where "bs = hi # lo # rest" by (cases bs; cases "tl bs") auto
        then show ?thesis using assms(3) Cons 1 True by simp
      qed
    qed
  qed
qed

section \<open>Normal form of the pass\<close>

fun normal_url :: "string \<Rightarrow> bool" where
  "normal_url [] = True"
| "normal_url (b # bs) =
     (if b = CHR ''%'' then
        (case bs of hi # lo # rest \<Rightarrow>
           (case escape_value hi lo of None \<Rightarrow> False | Some v \<Rightarrow> v \<noteq> 0 \<and> \<not> is_safe_char (char_of v))
           \<and> normal_url rest
         | _ \<Rightarrow> False)
      else b \<noteq> CHR 0x00 \<and> \<not> needs_encoding b \<and> normal_url bs)"

lemma normal_url_plain [simp]:
  "b \<noteq> CHR ''%'' \<Longrightarrow> normal_url (b # bs) \<longleftrightarrow> b \<noteq> CHR 0x00 \<and> \<not> needs_encoding b \<and> normal_url bs"
  by simp

lemma normal_url_percent_short: "length bs < 2 \<Longrightarrow> \<not> normal_url (CHR ''%'' # bs)"
  by (auto split: list.splits)

lemma safe_char_plain:
  assumes "is_safe_char c"
  shows "c \<noteq> CHR ''%'' \<and> c \<noteq> CHR 0x00 \<and> \<not> needs_encoding c \<and> c \<noteq> CHR 0x5C"
  using assms unfolding is_safe_char_def safe_bytes_def by (auto simp: needs_encoding_def)

lemma char_eq_iff_of_char: "c = d \<longleftrightarrow> (of_char c :: nat) = of_char d"
  by (metis char_of_char)

lemma encode_byte_normal:
  assumes "needs_encoding c"
  shows "normal_url (encode_byte c @ r) \<longleftrightarrow> normal_url r"
proof -
  from assms have "c = CHR ''<'' \<or> c = CHR ''>'' \<or> c = CHR ''^'' \<or> c = CHR 0x60 \<or> c = CHR ''{''
      \<or> c = CHR ''|'' \<or> c = CHR ''}''"
    unfolding needs_encoding_def by (auto simp: char_eq_iff_of_char)
  then show ?thesis
    by (elim disjE)
      (simp_all add: encode_byte_def HEX_CHARS_def escape_value_def is_ascii_hexdigit_def
        hex_to_byte_fast_def hex_val_def bad_escape_def is_safe_char_def safe_bytes_def
        char_eq_iff_of_char [of "char_of _"])
qed

lemma decode_pass_normal: "decode_pass s = Inr r \<Longrightarrow> normal_url r"
proof (induction s arbitrary: r rule: url_induct)
  case Nil
  then show ?case by simp
next
  case (Plain b bs)
  then show ?case
    by (cases "decode_pass bs") (auto simp: decode_pass_plain encode_byte_normal split: if_splits)
next
  case (Percent hi lo rest)
  then show ?case
    by (cases "decode_pass rest")
      (auto simp: decode_pass_percent safe_char_plain simp del: decode_pass.simps split: option.splits if_splits)
next
  case (Short bs)
  then show ?case by (auto split: list.splits)
qed

lemma decode_pass_normal_fix: "normal_url r \<Longrightarrow> decode_pass r = Inr r"
proof (induction r rule: url_induct)
  case Nil
  then show ?case by simp
next
  case (Plain b bs)
  then show ?case by (simp add: decode_pass_plain del: decode_pass.simps)
next
  case (Percent hi lo rest)
  then show ?case by (auto simp: decode_pass_percent simp del: decode_pass.simps split: option.splits)
next
  case (Short bs)
  then show ?case by (auto split: list.splits)
qed

lemma normal_url_append: "normal_url x \<Longrightarrow> normal_url (x @ y) \<longleftrightarrow> normal_url y"
proof (induction x rule: url_induct)
  case (Short bs)
  then show ?case using normal_url_percent_short by blast
qed auto

lemma normal_url_split:
  assumes "c \<noteq> CHR ''%''" "\<not> is_ascii_hexdigit c"
  shows "normal_url (x @ c # y) \<Longrightarrow> normal_url x \<and> normal_url y"
proof (induction x rule: url_induct)
  case Nil
  then show ?case using assms by simp
next
  case (Plain b bs)
  then show ?case by simp
next
  case (Percent hi lo rest)
  then show ?case by simp
next
  case (Short bs)
  then show ?case using assms by (cases bs) (auto simp: escape_value_def split: list.splits)
qed


section \<open>Languages closed under the sanitizer's cuts\<close>

text \<open>
  Cutting a string at a separator, dropping dots and joining the pieces again keeps a string in
  every language that satisfies these laws; normal forms and well-formed UTF-8 both do.
\<close>

definition is_cut :: "char \<Rightarrow> bool" where
  "is_cut c \<longleftrightarrow> c = CHR ''/'' \<or> c = CHR 0x5C \<or> c = CHR ''.''"

locale cut_language =
  fixes L :: "string \<Rightarrow> bool"
  assumes L_Nil: "L []"
    and L_append: "L x \<Longrightarrow> L (x @ y) \<longleftrightarrow> L y"
    and L_cut: "is_cut c \<Longrightarrow> L (x @ c # y) \<Longrightarrow> L x \<and> L y"
    and L_slash: "L ''/''" and L_dot: "L ''.''"
begin

lemma L_dots: "L (x @ replicate k CHR ''.'') \<Longrightarrow> L x"
proof (induction k arbitrary: x)
  case (Suc k)
  then show ?case using L_cut [of "CHR ''.''" x "replicate k CHR ''.''"] by (simp add: is_cut_def)
qed simp

lemma L_trim_segment: "L seg \<Longrightarrow> L (trim_segment seg)"
proof -
  assume "L seg"
  moreover obtain k where k: "seg = trim_end_matches CHR ''.'' seg @ replicate k CHR ''.''"
    using trim_end_matches_append [of seg "CHR ''.''"] by auto
  ultimately have "L (trim_end_matches CHR ''.'' seg)"
    using L_dots [of "trim_end_matches CHR ''.'' seg" k] by (simp only: k [symmetric])
  with \<open>L seg\<close> show ?thesis by (simp add: trim_segment_def)
qed

lemma L_push_segment: "\<forall>s \<in> set segs. L s \<Longrightarrow> L cur \<Longrightarrow> \<forall>s \<in> set (push_segment segs cur). L s"
  by (auto simp: push_segment_def L_trim_segment)

lemma L_build_segments:
  "\<forall>s \<in> set segs. L s \<Longrightarrow> L (cur @ bs) \<Longrightarrow> \<forall>s \<in> set (build_segments allow segs cur lw bs). L s"
proof (induction allow segs cur lw bs rule: build_segments.induct)
  case (1 allow segs cur lw)
  then show ?case using L_push_segment [of segs cur] by simp
next
  case (2 allow segs cur lw b bs)
  show ?case
  proof (cases "is_slash b")
    case True
    then have "is_cut b" by (auto simp: is_cut_def is_slash_def)
    with 2(4) have "L cur" "L bs" by (blast dest: L_cut)+
    then have "\<forall>s \<in> set (if allow \<and> lw then push_segment segs cur @ [[]] else push_segment segs cur). L s"
      using L_push_segment [OF 2(3)] L_Nil by (simp split: if_split)
    then have "\<forall>s \<in> set (build_segments allow
        (if allow \<and> lw then push_segment segs cur @ [[]] else push_segment segs cur) [] True bs). L s"
      using 2(1) [OF True] \<open>L bs\<close> by (metis append_Nil)
    then show ?thesis using True by simp
  next
    case False
    then have "\<forall>s \<in> set (build_segments allow segs (cur @ [b]) False bs). L s"
      using 2(2) [OF False 2(3)] 2(4) by simp
    then show ?thesis using False by simp
  qed
qed

lemma L_process_segments:
  "\<forall>s \<in> set fin. L s \<Longrightarrow> \<forall>s \<in> set segs. L s \<Longrightarrow> \<forall>s \<in> set (foldl (navigate allow) fin segs). L s"
proof (induction segs arbitrary: fin)
  case (Cons seg segs)
  from Cons.prems have "\<forall>s \<in> set (navigate allow fin seg). L s"
    by (auto simp: navigate_def dest: in_set_butlastD)
  with Cons show ?case by simp
qed simp

lemma L_render_segments: "\<forall>s \<in> set segs. L s \<Longrightarrow> L (render_segments allow idx segs)"
  by (induction segs arbitrary: idx) (auto simp: L_Nil L_append L_slash)

lemma L_lead: "L (CHR ''/'' # s) \<longleftrightarrow> L s"
  using L_append [OF L_slash, of s] by simp

lemma L_drop_lead:
  assumes "L r" "hd r = CHR ''/''" "r \<noteq> []"
  shows "L (drop (if allow \<and> double_slash_start r then 2 else 1) r)"
proof -
  obtain r' where r': "r = CHR ''/'' # r'" using assms(2,3) by (cases r) auto
  with assms(1) have "L r'" by (simp add: L_lead)
  then show ?thesis by (cases r') (auto simp: r' double_slash_start_def L_lead)
qed

lemma L_ensure_leading_slash: "L r \<Longrightarrow> L (ensure_leading_slash allow orig r)"
  by (cases r) (auto simp: ensure_leading_slash_def L_lead)

end

interpretation nf: cut_language normal_url
proof unfold_locales
  show "normal_url x \<Longrightarrow> normal_url (x @ y) \<longleftrightarrow> normal_url y" for x y
    by (rule normal_url_append)
  show "is_cut c \<Longrightarrow> normal_url (x @ c # y) \<Longrightarrow> normal_url x \<and> normal_url y" for c x y
    by (rule normal_url_split) (auto simp: is_cut_def is_ascii_hexdigit_def)
qed (simp_all add: needs_encoding_def)

section \<open>UTF-8\<close>

lemma utf8_tail_ascii: "byte_in 0 127 a \<Longrightarrow> valid_utf8 (a # r) \<longleftrightarrow> valid_utf8 r"
  by (subst valid_utf8.simps) simp

lemma utf8_tail_append: "utf8_tail s = Some r \<Longrightarrow> utf8_tail (s @ t) = Some (r @ t)"
  by (induction s rule: utf8_tail.induct) (auto split: if_splits list.splits)

lemma valid_utf8_append: "valid_utf8 x \<Longrightarrow> valid_utf8 (x @ y) \<longleftrightarrow> valid_utf8 y"
proof (induction x rule: valid_utf8.induct)
  case (1 s)
  show ?case
  proof (cases "s = []")
    case False
    with "1.prems" obtain r where r: "utf8_tail s = Some r" "valid_utf8 r"
      by (subst (asm) valid_utf8.simps) (auto split: option.splits)
    with False 1 have "valid_utf8 (r @ y) \<longleftrightarrow> valid_utf8 y" by auto
    with r False show ?thesis
      by (subst valid_utf8.simps) (simp add: utf8_tail_append)
  qed simp
qed

text \<open>An ASCII byte is never inside a multi-byte sequence.\<close>

lemma utf8_tail_ascii_split:
  assumes "utf8_tail (x @ c # y) = Some r" "x \<noteq> []" "byte_in 0 127 c"
  shows "\<exists>z. utf8_tail x = Some z \<and> r = z @ c # y"
proof -
  have nc: "\<not> cont_byte c" "\<not> byte_in 128 191 c" "\<not> byte_in 160 191 c" "\<not> byte_in 128 159 c"
    "\<not> byte_in 144 191 c" "\<not> byte_in 128 143 c"
    using assms(3) by (auto simp: cont_byte_def byte_in_def Let_def)
  obtain a x' where x: "x = a # x'" using assms(2) by (cases x) auto
  show ?thesis
  proof (cases x')
    case Nil
    then show ?thesis using assms(1) nc by (auto simp: x split: if_splits list.splits)
  next
    case (Cons b x'')
    then show ?thesis
      using assms(1) nc by (cases x''; cases "tl x''") (auto simp: x split: if_splits list.splits)
  qed
qed

lemma valid_utf8_split: "byte_in 0 127 c \<Longrightarrow> valid_utf8 (x @ c # y) \<Longrightarrow> valid_utf8 x \<and> valid_utf8 y"
proof (induction x rule: length_induct)
  case (1 x)
  show ?case
  proof (cases "x = []")
    case True
    then show ?thesis using "1.prems" by (simp add: utf8_tail_ascii) (simp add: valid_utf8.simps)
  next
    case False
    from "1.prems"(2) obtain r where r: "utf8_tail (x @ c # y) = Some r" "valid_utf8 r"
      by (subst (asm) valid_utf8.simps) (auto split: option.splits)
    then obtain z where z: "utf8_tail x = Some z" "r = z @ c # y"
      using utf8_tail_ascii_split False "1.prems"(1) by blast
    then have "valid_utf8 z \<and> valid_utf8 y"
      using "1.IH" "1.prems"(1) r utf8_tail_shorter by blast
    with z show ?thesis by (subst valid_utf8.simps) auto
  qed
qed

interpretation utf8: cut_language valid_utf8
proof unfold_locales
  show "valid_utf8 x \<Longrightarrow> valid_utf8 (x @ y) \<longleftrightarrow> valid_utf8 y" for x y
    by (rule valid_utf8_append)
  show "is_cut c \<Longrightarrow> valid_utf8 (x @ c # y) \<Longrightarrow> valid_utf8 x \<and> valid_utf8 y" for c x y
    by (rule valid_utf8_split) (auto simp: is_cut_def byte_in_def)
qed (simp_all add: valid_utf8.simps byte_in_def)


text \<open>The decoding pass keeps a string well-formed.\<close>

lemma decode_pass_non_ascii:
  assumes "\<not> byte_in 0 127 b"
  shows "decode_pass (b # bs) = map_sum id ((#) b) (decode_pass bs)"
proof -
  have "b \<noteq> CHR ''%''" "b \<noteq> CHR 0x00" "\<not> needs_encoding b"
    using assms by (auto simp: byte_in_def needs_encoding_def)
  then show ?thesis by (cases "decode_pass bs") (auto simp: decode_pass_plain simp del: decode_pass.simps)
qed

lemma safe_char_ascii: "is_safe_char c \<Longrightarrow> byte_in 0 127 c"
  unfolding is_safe_char_def safe_bytes_def by (auto simp: byte_in_def)

lemma hexdigit_ascii: "is_ascii_hexdigit c \<Longrightarrow> byte_in 0 127 c"
  by (auto simp: is_ascii_hexdigit_def byte_in_def Let_def)

lemma encode_byte_ascii: "needs_encoding c \<Longrightarrow> \<forall>d \<in> set (encode_byte c). byte_in 0 127 d"
  by (auto simp: needs_encoding_def encode_byte_def HEX_CHARS_def byte_in_def)

lemma valid_utf8_ascii_append: "\<forall>d \<in> set x. byte_in 0 127 d \<Longrightarrow> valid_utf8 (x @ r) \<longleftrightarrow> valid_utf8 r"
  by (induction x) (auto simp: utf8_tail_ascii)

lemma utf8_tail_multi:
  assumes "utf8_tail (b # bs) = Some r" "\<not> byte_in 0 127 b"
  shows "\<exists>m. b # bs = m @ r \<and> m \<noteq> [] \<and> (\<forall>c \<in> set m. \<not> byte_in 0 127 c) \<and> utf8_tail (m @ t) = Some t"
proof -
  have high: "cont_byte c \<Longrightarrow> \<not> byte_in 0 127 c" "128 \<le> l \<Longrightarrow> byte_in l h c \<Longrightarrow> \<not> byte_in 0 127 c" for c l h
    by (auto simp: cont_byte_def byte_in_def Let_def)
  from assms consider
      (two) c where "bs = c # r" "byte_in 194 223 b" "cont_byte c"
    | (three) c d where "bs = c # d # r" "utf8_tail [b, c, d] = Some []" "128 \<le> (of_char c :: nat)" "cont_byte d"
    | (four) c d e where "bs = c # d # e # r" "utf8_tail [b, c, d, e] = Some []" "128 \<le> (of_char c :: nat)"
        "cont_byte d" "cont_byte e"
    by (auto simp: byte_in_def split: if_splits list.splits)
  then show ?thesis
  proof cases
    case two
    then show ?thesis using assms(2) high(1) by (intro exI [of _ "[b, c]"]) auto
  next
    case three
    then show ?thesis using assms(2) high(1) utf8_tail_append [OF three(2)]
      by (intro exI [of _ "[b, c, d]"]) (auto simp: byte_in_def)
  next
    case four
    then show ?thesis using assms(2) high(1) utf8_tail_append [OF four(2)]
      by (intro exI [of _ "[b, c, d, e]"]) (auto simp: byte_in_def)
  qed
qed

lemma decode_pass_non_ascii_append:
  "\<forall>c \<in> set m. \<not> byte_in 0 127 c \<Longrightarrow> decode_pass (m @ r) = map_sum id ((@) m) (decode_pass r)"
proof (induction m)
  case Nil
  then show ?case by (cases "decode_pass r") auto
next
  case (Cons c m)
  then show ?case by (cases "decode_pass r") (auto simp: decode_pass_non_ascii simp del: decode_pass.simps)
qed

lemma decode_pass_utf8: "valid_utf8 s \<Longrightarrow> decode_pass s = Inr r \<Longrightarrow> valid_utf8 r"
proof (induction s arbitrary: r rule: length_induct)
  case (1 s)
  show ?case
  proof (cases s)
    case Nil
    then show ?thesis using "1.prems" by simp
  next
    case (Cons b bs)
    show ?thesis
    proof (cases "byte_in 0 127 b")
      case ascii: True
      with "1.prems"(1) Cons have bs: "valid_utf8 bs" by (simp add: utf8_tail_ascii)
      show ?thesis
      proof (cases "b = CHR ''%''")
        case False
        with "1.prems"(2) Cons obtain r' where r': "decode_pass bs = Inr r'"
          "r = (if b = CHR 0x00 then [] else if needs_encoding b then encode_byte b else [b]) @ r'"
          by (cases "decode_pass bs") (auto simp: decode_pass_plain simp del: decode_pass.simps split: if_splits)
        then have "valid_utf8 r'" using "1.IH" [rule_format, of bs r'] Cons bs by simp
        then show ?thesis using r' ascii encode_byte_ascii by (auto simp: valid_utf8_ascii_append utf8_tail_ascii)
      next
        case True
        with "1.prems"(2) Cons obtain hi lo rest where bs': "bs = hi # lo # rest"
          using decode_pass_percent_short by (cases bs; cases "tl bs") (auto simp del: decode_pass.simps)
        with "1.prems"(2) Cons True obtain v where v: "escape_value hi lo = Some v"
          by (auto simp: decode_pass_percent simp del: decode_pass.simps split: option.splits)
        then have hx: "byte_in 0 127 hi" "byte_in 0 127 lo"
          by (auto simp: escape_value_def hexdigit_ascii split: if_splits)
        then have rest: "valid_utf8 rest" using bs bs' by (simp add: utf8_tail_ascii)
        from "1.prems"(2) Cons True bs' v obtain r' where r': "decode_pass rest = Inr r'"
          and r: "r = r' \<or> is_safe_char (char_of v) \<and> r = char_of v # r' \<or> r = b # hi # lo # r'"
          by (cases "decode_pass rest") (auto simp: decode_pass_percent simp del: decode_pass.simps split: if_splits)
        have "valid_utf8 r'" using "1.IH" [rule_format, of rest r'] Cons bs' rest r' by simp
        then show ?thesis using r hx ascii safe_char_ascii by (auto simp: utf8_tail_ascii)
      qed
    next
      case False
      from "1.prems"(1) Cons obtain t where t: "utf8_tail (b # bs) = Some t" "valid_utf8 t"
        by (subst (asm) valid_utf8.simps) (auto split: option.splits)
      from "1.prems"(2) Cons utf8_tail_multi [OF t(1) False] decode_pass_non_ascii_append
      obtain m r' where m: "s = m @ t" "m \<noteq> []" "r = m @ r'" "decode_pass t = Inr r'" "utf8_tail (m @ r') = Some r'"
        by (cases "decode_pass t") (metis map_sum.simps sum.simps(4), metis map_sum.simps(2) sum.inject(2) utf8_tail_multi [OF t(1) False])
      then have "valid_utf8 r'" using "1.IH" [rule_format, of t r'] t by simp
      with m show ?thesis by (subst valid_utf8.simps) simp
    qed
  qed
qed


section \<open>Segments\<close>

text \<open>A segment as \<open>build_segments\<close> produces it, and as it survives navigation.\<close>

definition raw_segment :: "string \<Rightarrow> bool" where
  "raw_segment seg \<longleftrightarrow> (\<forall>c \<in> set seg. \<not> is_slash c) \<and>
     (seg = [] \<or> seg = ''.'' \<or> seg = ''..'' \<or> last seg \<noteq> CHR ''.'')"

definition final_segment :: "string \<Rightarrow> bool" where
  "final_segment seg \<longleftrightarrow> (\<forall>c \<in> set seg. \<not> is_slash c) \<and> (seg = [] \<or> last seg \<noteq> CHR ''.'')"

lemma trim_segment_raw:
  assumes "\<forall>c \<in> set cur. \<not> is_slash c"
  shows "raw_segment (trim_segment cur)"
  using assms set_trim_end_matches [of "CHR ''.''" cur] trim_end_matches_last [of "CHR ''.''" cur]
  unfolding raw_segment_def trim_segment_def by auto

lemma raw_push_segment:
  "\<forall>s \<in> set segs. raw_segment s \<Longrightarrow> \<forall>c \<in> set cur. \<not> is_slash c \<Longrightarrow>
   \<forall>s \<in> set (push_segment segs cur). raw_segment s"
  using trim_segment_raw [of cur] by (auto simp: push_segment_def)

lemma raw_build_segments:
  "\<forall>s \<in> set segs. raw_segment s \<Longrightarrow> \<forall>c \<in> set cur. \<not> is_slash c \<Longrightarrow>
   \<forall>s \<in> set (build_segments allow segs cur lw bs). raw_segment s"
proof (induction allow segs cur lw bs rule: build_segments.induct)
  case (1 allow segs cur lw)
  then show ?case using raw_push_segment [of segs cur] by simp
next
  case (2 allow segs cur lw b bs)
  have "raw_segment []" by (simp add: raw_segment_def)
  then have "\<forall>s \<in> set (if allow \<and> lw then push_segment segs cur @ [[]] else push_segment segs cur). raw_segment s"
    using raw_push_segment [OF 2(3,4)] by (simp split: if_split)
  then have "is_slash b \<Longrightarrow> \<forall>s \<in> set (build_segments allow
      (if allow \<and> lw then push_segment segs cur @ [[]] else push_segment segs cur) [] True bs). raw_segment s"
    by (intro 2(1)) simp_all
  moreover have "\<not> is_slash b \<Longrightarrow> \<forall>s \<in> set (build_segments allow segs (cur @ [b]) False bs). raw_segment s"
    using 2(3,4) by (intro 2(2)) simp_all
  ultimately show ?case by simp
qed

lemma final_process_segments:
  "\<forall>s \<in> set fin. final_segment s \<Longrightarrow> \<forall>s \<in> set segs. raw_segment s \<Longrightarrow>
   \<forall>s \<in> set (foldl (navigate allow) fin segs). final_segment s"
proof (induction segs arbitrary: fin)
  case (Cons seg segs)
  from Cons.prems have "\<forall>s \<in> set (navigate allow fin seg). final_segment s"
    by (auto simp: navigate_def raw_segment_def final_segment_def dest: in_set_butlastD)
  then show ?case using Cons.IH Cons.prems(2) by simp
qed simp

lemma process_segments_nonempty:
  "\<forall>s \<in> set fin. s \<noteq> [] \<Longrightarrow> \<forall>s \<in> set (foldl (navigate False) fin segs). s \<noteq> []"
proof (induction segs arbitrary: fin)
  case (Cons seg segs)
  from Cons.prems have "\<forall>s \<in> set (navigate False fin seg). s \<noteq> []"
    by (auto simp: navigate_def dest: in_set_butlastD)
  with Cons show ?case by simp
qed simp

lemma split_on_slash_prefix:
  assumes "CHR ''/'' \<notin> set x" "t = [] \<or> hd t = CHR ''/''"
  shows "set (split_on CHR ''/'' (x @ t)) \<subseteq> insert x (set (split_on CHR ''/'' (tl t)))"
proof (cases t)
  case Nil
  then show ?thesis using assms by (simp add: split_on_single)
next
  case (Cons a t')
  then show ?thesis using assms split_on_append_sep [of "CHR ''/''" x t'] by (simp add: split_on_single)
qed

lemma render_segments_Suc [simp]:
  "render_segments allow (Suc (Suc idx)) segs = render_segments allow (Suc idx) segs"
  by (induction segs arbitrary: idx) auto

lemma split_render_segments:
  assumes "\<forall>s \<in> set segs. CHR ''/'' \<notin> set s" "t = [] \<or> t = ''/''"
  shows "set (split_on CHR ''/'' (render_segments allow (Suc idx) segs @ t)) \<subseteq> insert [] (set segs)"
  using assms(1)
proof (induction segs arbitrary: idx)
  case Nil
  then show ?case using assms(2) by auto
next
  case (Cons seg segs)
  let ?rest = "render_segments allow (Suc idx) segs @ t"
  have "?rest = [] \<or> hd ?rest = CHR ''/''" using assms(2) by (cases segs) auto
  moreover have "set (split_on CHR ''/'' (tl ?rest)) \<subseteq> insert [] (set segs)"
  proof (cases "?rest = []")
    case False
    then have "?rest = CHR ''/'' # tl ?rest"
      using \<open>?rest = [] \<or> hd ?rest = CHR ''/''\<close> by (metis list.collapse)
    then have "split_on CHR ''/'' ?rest = [] # split_on CHR ''/'' (tl ?rest)"
      by (metis (full_types) split_on.simps(2))
    then show ?thesis using Cons.IH [of idx] Cons.prems by simp
  qed simp
  ultimately have "set (split_on CHR ''/'' (seg @ ?rest)) \<subseteq> insert [] (set (seg # segs))"
    using split_on_slash_prefix [of seg ?rest] Cons.prems by auto
  then show ?case by simp
qed

lemma split_sanitized:
  assumes "\<forall>s \<in> set segs. CHR ''/'' \<notin> set s" "t = [] \<or> t = ''/''" "lead = ''/'' \<or> lead = ''//''"
  shows "set (split_on CHR ''/'' (lead @ render_segments allow 0 segs @ t)) \<subseteq> insert [] (set segs)"
proof -
  have "set (split_on CHR ''/'' (render_segments allow 0 segs @ t)) \<subseteq> insert [] (set segs)"
  proof (cases segs)
    case Nil
    then show ?thesis using assms(2) by auto
  next
    case (Cons seg rest)
    have "set (split_on CHR ''/'' (seg @ render_segments allow 1 rest @ t)) \<subseteq> insert [] (set segs)"
      using split_render_segments [of segs t allow 0] assms Cons by auto
    moreover have "set (split_on CHR ''/'' (CHR ''/'' # seg @ render_segments allow 1 rest @ t)) \<subseteq> insert [] (set segs)"
      using split_render_segments [of segs t allow 0] assms Cons by auto
    ultimately show ?thesis by (auto simp: Cons)
  qed
  then show ?thesis using assms(3) by auto
qed

lemma set_render_segments: "set (render_segments allow idx segs) \<subseteq> insert CHR ''/'' (\<Union> (set ` set segs))"
  by (induction segs arbitrary: idx) auto

section \<open>Properties of the sanitizer\<close>

text \<open>The shape of every successful result, from which the properties follow.\<close>

lemma sanitize_url_cases:
  assumes "sanitize_url resource allow = Inr s" "resource \<noteq> ''*''" "resource \<noteq> []"
  obtains r0 segs lead t where "decode_pass resource = Inr r0"
    "segs = process_segments allow (build_segments allow [] [] True
       (drop (if allow \<and> double_slash_start (ensure_leading_slash allow resource r0) then 2 else 1)
         (ensure_leading_slash allow resource r0)))"
    "s = lead @ render_segments allow 0 segs @ t" "lead = ''/'' \<or> lead = ''//''"
    "t = [] \<or> t = ''/''" "\<forall>seg \<in> set segs. final_segment seg" "\<forall>seg \<in> set segs. normal_url seg"
    "lead = ''//'' \<longrightarrow> allow" "t = ''/'' \<longleftrightarrow> is_slash (last (ensure_leading_slash allow resource r0)) \<and> segs \<noteq> []"
proof -
  from assms obtain r0 where r0: "decode_pass resource = Inr r0"
    by (auto simp: sanitize_url_def split: sum.splits)
  define r where "r = ensure_leading_slash allow resource r0"
  have r_ne: "r \<noteq> []" by (auto simp: r_def ensure_leading_slash_def)
  have nr: "normal_url r" unfolding r_def by (rule nf.L_ensure_leading_slash [OF decode_pass_normal [OF r0]])
  have nd: "normal_url (drop (if allow \<and> double_slash_start r then 2 else 1) r)"
    using nf.L_drop_lead [OF nr _ r_ne] by (auto simp: r_def ensure_leading_slash_def)
  define raw where "raw = build_segments allow [] [] True (drop (if allow \<and> double_slash_start r then 2 else 1) r)"
  have "\<forall>seg \<in> set raw. normal_url seg" unfolding raw_def using nf.L_build_segments [of "[]" "[]"] nd by simp
  then have n: "\<forall>seg \<in> set (process_segments allow raw). normal_url seg"
    unfolding process_segments_def by (intro nf.L_process_segments) simp_all
  have "\<forall>seg \<in> set raw. raw_segment seg" unfolding raw_def by (rule raw_build_segments) simp_all
  then have f: "\<forall>seg \<in> set (process_segments allow raw). final_segment seg"
    unfolding process_segments_def by (intro final_process_segments) simp_all
  show thesis
    by (rule that [OF r0, of "process_segments allow raw"
          "if allow \<and> double_slash_start resource then ''//'' else ''/''"
          "if r \<noteq> [] \<and> is_slash (last r) \<and> process_segments allow raw \<noteq> [] then ''/'' else []"])
      (use assms r0 n f r_ne in \<open>auto simp: sanitize_url_def Let_def raw_def r_def split: if_splits\<close>)
qed


lemma normal_url_chars: "normal_url s \<Longrightarrow> CHR 0x00 \<notin> set s"
proof (induction s rule: url_induct)
  case (Percent hi lo rest)
  then show ?case by (auto simp: escape_value_def is_ascii_hexdigit_def split: option.splits if_splits)
next
  case (Short bs)
  then show ?case using normal_url_percent_short by blast
qed auto

lemma final_segment_not_dots: "final_segment seg \<Longrightarrow> seg \<noteq> ''.'' \<and> seg \<noteq> ''..''"
  by (auto simp: final_segment_def)

lemma sanitize_url_normal:
  assumes "sanitize_url resource allow = Inr s" "resource \<noteq> ''*''" "resource \<noteq> []"
  shows "normal_url s"
proof -
  from assms obtain segs lead t where s: "s = lead @ render_segments allow 0 segs @ t"
    and "lead = ''/'' \<or> lead = ''//''" "t = [] \<or> t = ''/''" "\<forall>seg \<in> set segs. normal_url seg"
    by (rule sanitize_url_cases)
  moreover have "normal_url (render_segments allow 0 segs)"
    using \<open>\<forall>seg \<in> set segs. normal_url seg\<close> by (rule nf.L_render_segments)
  then have "normal_url (render_segments allow 0 segs @ t)"
    using \<open>t = [] \<or> t = ''/''\<close> by (simp add: nf.L_append) (auto simp: needs_encoding_def)
  ultimately show ?thesis by (auto simp: nf.L_lead simp del: normal_url.simps normal_url_plain)
qed

lemma sanitize_url_safe_pre:
  assumes "sanitize_url resource allow = Inr s" "resource \<noteq> ''*''" "resource \<noteq> []"
  shows "s \<noteq> [] \<and> hd s = CHR ''/'' \<and>
    (\<forall>seg \<in> set (split_on CHR ''/'' s). seg \<noteq> ''.'' \<and> seg \<noteq> ''..'') \<and>
    CHR 0x5C \<notin> set s \<and> CHR 0x00 \<notin> set s"
proof -
  from assms obtain segs lead t where s: "s = lead @ render_segments allow 0 segs @ t"
    and lt: "lead = ''/'' \<or> lead = ''//''" "t = [] \<or> t = ''/''"
    and f: "\<forall>seg \<in> set segs. final_segment seg"
    by (rule sanitize_url_cases)
  have noslash: "\<forall>seg \<in> set segs. CHR ''/'' \<notin> set seg" "\<forall>seg \<in> set segs. CHR 0x5C \<notin> set seg"
    using f by (auto simp: final_segment_def is_slash_def)
  have "set (split_on CHR ''/'' s) \<subseteq> insert [] (set segs)"
    unfolding s by (rule split_sanitized [OF noslash(1) lt(2,1)])
  with f have "\<forall>seg \<in> set (split_on CHR ''/'' s). seg \<noteq> ''.'' \<and> seg \<noteq> ''..''"
    using final_segment_not_dots by auto
  moreover have "CHR 0x5C \<notin> set s"
    using noslash(2) lt set_render_segments [of allow 0 segs] unfolding s by auto
  moreover have "s \<noteq> [] \<and> hd s = CHR ''/''" using lt(1) unfolding s by auto
  ultimately show ?thesis using normal_url_chars [OF sanitize_url_normal [OF assms]] by simp
qed

text \<open>
  C1: A sanitized URL other than the two special cases is an absolute path in which no segment is
  \<open>.\<close> or \<open>..\<close>, and it contains neither a backslash nor a NUL byte, so that it cannot climb out of
  the directory it is resolved against.
\<close>

theorem sanitize_url_safe:
  assumes "sanitize_url resource allow = Inr s" "resource \<noteq> ''*''" "resource \<noteq> []"
  shows "s \<noteq> [] \<and> hd s = CHR ''/'' \<and>
    (\<forall>seg \<in> set (split_on CHR ''/'' s). seg \<noteq> ''.'' \<and> seg \<noteq> ''..'') \<and>
    CHR 0x5C \<notin> set s \<and> CHR 0x00 \<notin> set s"
  by (rule sanitize_url_safe_pre [OF assms])

theorem sanitize_url_safe_witness:
  "sanitize_url (''/a/%2e%2e/../b'' @ CHR 0x5C # ''c'') False = Inr ''/b/c'' \<and>
   ''..'' \<notin> set (split_on CHR ''/'' ''/b/c'')"
proof -
  have r: "sanitize_url (''/a/%2e%2e/../b'' @ CHR 0x5C # ''c'') False = Inr ''/b/c''" by code_simp
  show ?thesis using sanitize_url_safe [OF r] r by auto
qed

section \<open>Which inputs are rejected\<close>

definition percent_ok :: "string \<Rightarrow> nat \<Rightarrow> bool" where
  "percent_ok s i \<longleftrightarrow> i + 2 < length s \<and> escape_value (s ! (i + 1)) (s ! (i + 2)) \<noteq> None"

definition all_percent_ok :: "string \<Rightarrow> bool" where
  "all_percent_ok s \<longleftrightarrow> (\<forall>i < length s. s ! i = CHR ''%'' \<longrightarrow> percent_ok s i)"

lemma all_percent_ok_Cons:
  "all_percent_ok (b # bs) \<longleftrightarrow> (b = CHR ''%'' \<longrightarrow> percent_ok (b # bs) 0) \<and> all_percent_ok bs"
  unfolding all_percent_ok_def by (simp add: All_less_Suc2 percent_ok_def)

lemma escape_value_hex:
  "escape_value hi lo = Some v \<Longrightarrow> hi \<noteq> CHR ''%'' \<and> lo \<noteq> CHR ''%''"
  by (auto simp: escape_value_def is_ascii_hexdigit_def split: if_splits)

lemma decode_pass_error_iff:
  "decode_pass s = Inl e \<longleftrightarrow> e = URI_malformed \<and> \<not> all_percent_ok s"
proof (induction s rule: url_induct)
  case Nil
  then show ?case by (simp add: all_percent_ok_def)
next
  case (Plain b bs)
  then show ?case
    by (cases "decode_pass bs") (auto simp: decode_pass_plain all_percent_ok_Cons simp del: decode_pass.simps)
next
  case (Percent hi lo rest)
  show ?case
  proof (cases "escape_value hi lo")
    case None
    then show ?thesis
      by (auto simp: decode_pass_percent all_percent_ok_Cons percent_ok_def simp del: decode_pass.simps)
  next
    case (Some v)
    then have "all_percent_ok (CHR ''%'' # hi # lo # rest) \<longleftrightarrow> all_percent_ok rest"
      using escape_value_hex by (auto simp: all_percent_ok_Cons percent_ok_def)
    with Some Percent.IH(1) show ?thesis
      by (cases "decode_pass rest") (auto simp: decode_pass_percent simp del: decode_pass.simps)
  qed
next
  case (Short bs)
  then have "bs = [] \<or> (\<exists>b. bs = [b])" by (cases bs) auto
  then show ?case by (auto simp: all_percent_ok_Cons percent_ok_def)
qed

lemma sanitize_url_utf8:
  assumes "valid_utf8 resource" "decode_pass resource = Inr r0"
  shows "sanitize_url resource allow \<noteq> Inl e"
proof -
  define r where "r = ensure_leading_slash allow resource r0"
  have "valid_utf8 r" unfolding r_def
    by (rule utf8.L_ensure_leading_slash [OF decode_pass_utf8 [OF assms]])
  moreover have "hd r = CHR ''/''" "r \<noteq> []" by (auto simp: r_def ensure_leading_slash_def)
  ultimately have "valid_utf8 (drop (if allow \<and> double_slash_start r then 2 else 1) r)"
    by (rule utf8.L_drop_lead)
  then have "\<forall>seg \<in> set (build_segments allow [] [] True (drop (if allow \<and> double_slash_start r then 2 else 1) r)).
      valid_utf8 seg" by (intro utf8.L_build_segments) simp_all
  then have "\<forall>seg \<in> set (process_segments allow (build_segments allow [] [] True
      (drop (if allow \<and> double_slash_start r then 2 else 1) r))). valid_utf8 seg"
    unfolding process_segments_def by (intro utf8.L_process_segments) simp_all
  then have "valid_utf8 (render_segments allow 0 (process_segments allow (build_segments allow [] [] True
      (drop (if allow \<and> double_slash_start r then 2 else 1) r))))"
    by (rule utf8.L_render_segments)
  then show ?thesis
    using assms(2) utf8.L_append utf8.L_slash utf8.L_Nil
    by (auto simp: sanitize_url_def Let_def r_def utf8.L_lead)
qed

text \<open>
  On a valid string the sanitizer fails exactly when some percent sign does not start a
  complete escape of two hexadecimal digits or encodes one of the bytes C0, C1, FE and FF; the
  error is always the malformed-URI error, never the internal hexadecimal or UTF-8 error.
\<close>

theorem sanitize_url_error_iff:
  assumes "valid_utf8 resource"
  shows "sanitize_url resource allow = Inl e \<longleftrightarrow>
    e = URI_malformed \<and> (\<exists>i < length resource. resource ! i = CHR ''%'' \<and> \<not> percent_ok resource i)"
proof (cases "decode_pass resource")
  case (Inl e')
  then have "e' = URI_malformed" "\<not> all_percent_ok resource" by (simp_all add: decode_pass_error_iff)
  moreover have "resource \<noteq> ''*'' \<and> resource \<noteq> []" using Inl by (auto simp: needs_encoding_def)
  ultimately show ?thesis using Inl by (auto simp: sanitize_url_def all_percent_ok_def)
next
  case (Inr r0)
  then have "all_percent_ok resource" using decode_pass_error_iff [of resource URI_malformed] by auto
  then show ?thesis
    using sanitize_url_utf8 [OF assms Inr] unfolding all_percent_ok_def by blast
qed

theorem sanitize_url_error_iff_witness:
  "valid_utf8 ''/a%c0%af'' \<and> sanitize_url ''/a%c0%af'' False = Inl URI_malformed \<and>
   (\<exists>i < length ''/a%c0%af''. ''/a%c0%af'' ! i = CHR ''%'' \<and> \<not> percent_ok ''/a%c0%af'' i)"
proof -
  have v: "valid_utf8 ''/a%c0%af''" by code_simp
  have "sanitize_url ''/a%c0%af'' False = Inl URI_malformed" by code_simp
  then show ?thesis using sanitize_url_error_iff [OF v, of False URI_malformed] v by simp
qed


section \<open>Sanitizing twice\<close>

lemma build_segments_word:
  "\<forall>c \<in> set x. \<not> is_slash c \<Longrightarrow> build_segments allow segs cur lw (x @ bs) =
     build_segments allow segs (cur @ x) (if x = [] then lw else False) bs"
  by (induction x arbitrary: cur lw) auto

lemma push_final_segment:
  "final_segment cur \<Longrightarrow> cur \<noteq> [] \<Longrightarrow> push_segment segs cur = segs @ [cur]"
  by (auto simp: push_segment_def trim_segment_def final_segment_def trim_end_matches_id)

lemma build_segments_render:
  assumes "\<forall>seg \<in> set rest. final_segment seg \<and> seg \<noteq> []" "final_segment cur" "cur \<noteq> []" "t = [] \<or> t = ''/''"
  shows "build_segments False segs cur lw (render_segments False (Suc 0) rest @ t) = segs @ cur # rest"
  using assms(1-3)
proof (induction rest arbitrary: segs cur lw)
  case Nil
  then show ?case using assms(4) by (auto simp: push_final_segment is_slash_def push_segment_def [of _ "[]"])
next
  case (Cons seg rest)
  then have ns: "\<forall>c \<in> set seg. \<not> is_slash c" by (auto simp: final_segment_def)
  have "build_segments False segs cur lw (render_segments False (Suc 0) (seg # rest) @ t) =
      build_segments False (segs @ [cur]) seg False (render_segments False (Suc 0) rest @ t)"
    using Cons.prems build_segments_word [OF ns, of False "segs @ [cur]" "[]" True]
    by (simp add: is_slash_def push_final_segment)
  also have "\<dots> = (segs @ [cur]) @ seg # rest" by (rule Cons.IH) (use Cons.prems in auto)
  finally show ?case by simp
qed

lemma process_final_segments:
  "\<forall>seg \<in> set segs. final_segment seg \<and> seg \<noteq> [] \<Longrightarrow> foldl (navigate False) fin segs = fin @ segs"
proof (induction segs arbitrary: fin)
  case (Cons seg segs)
  then have "navigate False fin seg = fin @ [seg]"
    using final_segment_not_dots [of seg] by (simp add: navigate_def)
  then show ?case using Cons by simp
qed simp

lemma last_render_segments:
  "segs \<noteq> [] \<Longrightarrow> \<forall>seg \<in> set segs. seg \<noteq> [] \<Longrightarrow>
   render_segments allow idx segs \<noteq> [] \<and> last (render_segments allow idx segs) = last (last segs)"
proof (induction segs arbitrary: idx)
  case (Cons seg segs)
  then show ?case by (cases "segs = []") auto
qed simp

text \<open>
  C17: Without the double-slash option the sanitizer is idempotent: what it returns is a fixed
  point, so a path that has been sanitized once is not changed by a second pass.
\<close>

theorem sanitize_url_idempotent:
  assumes "sanitize_url resource False = Inr s"
  shows "sanitize_url s False = Inr s"
proof (cases "resource = ''*'' \<or> resource = []")
  case True
  with assms show ?thesis by (auto simp: sanitize_url_def)
next
  case False
  then have ne: "resource \<noteq> ''*''" "resource \<noteq> []" by auto
  from assms ne obtain r0 segs lead t where segs: "segs = process_segments False (build_segments False [] [] True
       (drop (if False \<and> double_slash_start (ensure_leading_slash False resource r0) then 2 else 1)
         (ensure_leading_slash False resource r0)))"
    and s: "s = lead @ render_segments False 0 segs @ t" and lead: "lead = ''/'' \<or> lead = ''//''" "lead = ''//'' \<longrightarrow> False"
    and t: "t = [] \<or> t = ''/''" "t = ''/'' \<longleftrightarrow> is_slash (last (ensure_leading_slash False resource r0)) \<and> segs \<noteq> []"
    and f: "\<forall>seg \<in> set segs. final_segment seg"
    by (rule sanitize_url_cases)
  have f': "\<forall>seg \<in> set segs. final_segment seg \<and> seg \<noteq> []"
    using f process_segments_nonempty [of "[]"] unfolding segs process_segments_def by simp
  have s': "s = CHR ''/'' # render_segments False 0 segs @ t" using s lead by auto
  have dp: "decode_pass s = Inr s" by (rule decode_pass_normal_fix [OF sanitize_url_normal [OF assms ne]])
  have els: "ensure_leading_slash False s s = s" by (simp add: ensure_leading_slash_def s')
  have u: "valid_utf8 s" using assms ne by (auto simp: sanitize_url_def Let_def split: sum.splits if_splits)
  have b: "build_segments False [] [] True (render_segments False 0 segs @ t) = segs"
  proof (cases segs)
    case Nil
    then have "t = []" using t by auto
    with Nil show ?thesis by (simp add: push_segment_def)
  next
    case (Cons seg rest)
    with f' have "\<forall>c \<in> set seg. \<not> is_slash c" by (auto simp: final_segment_def)
    with Cons f' show ?thesis
      using build_segments_word [of seg False "[]" "[]" True] build_segments_render [of rest seg t "[]" False] t(1) by simp
  qed
  have "is_slash (last s) \<and> segs \<noteq> [] \<longleftrightarrow> t = ''/''"
  proof (cases "segs = []")
    case False
    then have "\<not> is_slash (last (last segs))" using f' last_in_set by (metis final_segment_def)
    with False f' t(1) last_render_segments [of segs False 0] show ?thesis
      by (auto simp: s' is_slash_def)
  qed (use t in auto)
  then show ?thesis
    using dp els b process_final_segments [OF f', of "[]"] u t
    by (auto simp: sanitize_url_def Let_def process_segments_def s')
qed

theorem sanitize_url_idempotent_witness:
  "sanitize_url ''/a/../b//c%2f%3C.'' False = Inr ''/b/c/%3C'' \<and>
   sanitize_url ''/b/c/%3C'' False = Inr ''/b/c/%3C''"
proof -
  have r: "sanitize_url ''/a/../b//c%2f%3C.'' False = Inr ''/b/c/%3C''" by code_simp
  show ?thesis using sanitize_url_idempotent [OF r] r by simp
qed

end
