(* ===== verification/Ttl_Cache.thy ===== *)
theory Ttl_Cache
  imports Prelude
begin

text \<open>
  The TTL cache, \<open>ferron-common/src/util/ttl_cache.rs\<close>. The clock is explicit: every operation
  that calls \<open>Instant::now\<close> or \<open>Instant::elapsed\<close> takes the current time, a natural number that
  does not decrease between calls. \<open>elapsed\<close> saturates at zero, as the subtraction of \<open>nat\<close> does.
  The locale \<open>ttl_store\<close> is the contract its clients (trailing-slash redirects, URL rewriting,
  brute-force protection) rely on, with the lemmas about cached probes and counters.
\<close>

record ('k, 'v) TtlCache =
  cache :: "'k \<rightharpoonup> 'v \<times> nat"
  ttl :: nat

definition ttl_new :: "nat \<Rightarrow> ('k, 'v) TtlCache" where
  "ttl_new t = \<lparr>cache = Map.empty, ttl = t\<rparr>"

definition ttl_insert :: "nat \<Rightarrow> 'k \<Rightarrow> 'v \<Rightarrow> ('k, 'v) TtlCache \<Rightarrow> ('k, 'v) TtlCache" where
  "ttl_insert now k v c = c\<lparr>cache := (cache c)(k \<mapsto> (v, now))\<rparr>"

definition ttl_get :: "nat \<Rightarrow> 'k \<Rightarrow> ('k, 'v) TtlCache \<Rightarrow> 'v option" where
  "ttl_get now k c = (case cache c k of
     None \<Rightarrow> None
   | Some (v, timestamp) \<Rightarrow> if now - timestamp < ttl c then Some v else None)"

definition ttl_remove :: "'k \<Rightarrow> ('k, 'v) TtlCache \<Rightarrow> 'v option \<times> ('k, 'v) TtlCache" where
  "ttl_remove k c = (map_option fst (cache c k), c\<lparr>cache := (cache c)(k := None)\<rparr>)"

definition ttl_cleanup :: "nat \<Rightarrow> ('k, 'v) TtlCache \<Rightarrow> ('k, 'v) TtlCache" where
  "ttl_cleanup now c = c\<lparr>cache := (\<lambda>k. case cache c k of
     Some (v, timestamp) \<Rightarrow> if now - timestamp < ttl c then Some (v, timestamp) else None
   | None \<Rightarrow> None)\<rparr>"

section \<open>The contract of a TTL cache\<close>

text \<open>
  \<open>probe\<close> is a client's question about the outside world at a time. An invariant \<open>fresh probe T c\<close>
  says that everything the cache can still return was the answer at some earlier time.
\<close>

locale ttl_store =
  fixes get :: "nat \<Rightarrow> 'k \<Rightarrow> 'c \<Rightarrow> 'v option"
    and ins :: "nat \<Rightarrow> 'k \<Rightarrow> 'v \<Rightarrow> 'c \<Rightarrow> 'c"
    and clean :: "nat \<Rightarrow> 'c \<Rightarrow> 'c"
    and life :: "'c \<Rightarrow> nat"
  assumes get_ins: "get now k (ins t k' v c) =
      (if k = k' then (if now - t < life c then Some v else None) else get now k c)"
    and get_clean: "t \<le> now \<Longrightarrow> get now k (clean t c) = get now k c"
    and life_ins [simp]: "life (ins t k v c) = life c"
    and life_clean [simp]: "life (clean t c) = life c"
begin

definition fresh :: "(nat \<Rightarrow> 'k \<Rightarrow> 'v) \<Rightarrow> nat \<Rightarrow> 'c \<Rightarrow> bool" where
  "fresh probe T c \<longleftrightarrow> (\<forall>now k v. T \<le> now \<longrightarrow> get now k c = Some v \<longrightarrow>
     (\<exists>t \<le> now. now - t < life c \<and> v = probe t k))"

text \<open>The operation every client performs: ask the cache, and on a miss probe, clean up and insert.\<close>

definition cached :: "(nat \<Rightarrow> 'k \<Rightarrow> 'v) \<Rightarrow> nat \<Rightarrow> 'k \<Rightarrow> 'c \<Rightarrow> 'v \<times> 'c" where
  "cached probe now k c = (case get now k c of
     Some v \<Rightarrow> (v, c)
   | None \<Rightarrow> (probe now k, ins now k (probe now k) (clean now c)))"

lemma cached_result:
  assumes "fresh probe T c" "T \<le> now" "0 < life c"
  shows "\<exists>t \<le> now. now - t < life c \<and> fst (cached probe now k c) = probe t k"
proof (cases "get now k c")
  case None
  then show ?thesis using assms(3) by (intro exI [of _ now]) (auto simp: cached_def)
next
  case (Some v)
  then show ?thesis using assms by (auto simp: cached_def fresh_def)
qed

lemma cached_fresh:
  assumes "fresh probe T c" "T \<le> now"
  shows "fresh probe now (snd (cached probe now k c))"
proof (cases "get now k c")
  case None
  have "\<exists>t \<le> now'. now' - t < life c \<and> v = probe t k'"
    if "now \<le> now'" "get now' k' (ins now k (probe now k) (clean now c)) = Some v" for now' k' v
    using that assms by (auto simp: get_ins get_clean fresh_def split: if_splits)
  with None show ?thesis by (auto simp: cached_def fresh_def)
next
  case (Some v)
  then show ?thesis using assms by (auto simp: cached_def fresh_def)
qed

text \<open>A counter kept in the cache: each bump within the lifetime adds one.\<close>

lemma get_bump:
  assumes "now - t < life c"
  shows "get now k (ins t k v (clean t c)) = Some v"
  using assms by (simp add: get_ins)

end

interpretation tc: ttl_store ttl_get ttl_insert ttl_cleanup ttl
proof unfold_locales
  show "ttl_get now k (ttl_insert t k' v c) =
      (if k = k' then if now - t < ttl c then Some v else None else ttl_get now k c)" for now k t k' v c
    by (auto simp: ttl_get_def ttl_insert_def split: option.splits)
  show "ttl_get now k (ttl_cleanup t c) = ttl_get now k c" if "t \<le> now" for now k t c
    using that by (auto simp: ttl_get_def ttl_cleanup_def split: option.splits)
qed (simp_all add: ttl_insert_def ttl_cleanup_def)

lemma ttl_get_new [simp]: "ttl_get now k (ttl_new t) = None"
  by (simp add: ttl_get_def ttl_new_def)

lemma ttl_ttl_new [simp]: "ttl (ttl_new t) = t"
  by (simp add: ttl_new_def)

lemma fresh_ttl_new: "tc.fresh probe T (ttl_new t)"
  by (simp add: tc.fresh_def)

lemma ttl_get_remove: "ttl_get now k' (snd (ttl_remove k c)) = (if k' = k then None else ttl_get now k' c)"
  by (auto simp: ttl_get_def ttl_remove_def split: option.splits)

lemma ttl_get_cleanup_Some: "ttl_get now k (ttl_cleanup t c) = Some v \<Longrightarrow> ttl_get now k c = Some v"
  by (auto simp: ttl_get_def ttl_cleanup_def split: option.splits if_splits)

end
