(* ===== verification/Net.thy ===== *)
theory Net
  imports Prelude
begin

text \<open>
  Internet addresses as the sources use them from \<open>std::net\<close>: \<open>IpAddr\<close>, \<open>SocketAddr\<close>, \<open>to_canonical\<close>,
  \<open>is_loopback\<close>, their textual form and the parser behind \<open>str::parse\<close>. An IPv4 address is a
  32-bit word, an IPv6 address a 128-bit word. The theory ends with the big-endian encodings
  (\<open>to_be_bytes\<close>, \<open>from_be_bytes\<close>) the protocol codecs share.
\<close>

unbundle bit_operations_syntax

datatype IpAddr = V4 "32 word" | V6 "128 word"

record SocketAddr =
  sa_ip :: IpAddr
  sa_port :: u16

text \<open>IPv4-mapped addresses are \<open>::ffff:a.b.c.d\<close>.\<close>

fun to_canonical :: "IpAddr \<Rightarrow> IpAddr" where
  "to_canonical (V4 a) = V4 a"
| "to_canonical (V6 a) = (if drop_bit 32 a = 0xFFFF then V4 (ucast a) else V6 a)"

fun is_loopback :: "IpAddr \<Rightarrow> bool" where
  "is_loopback (V4 a) \<longleftrightarrow> drop_bit 24 a = 127"
| "is_loopback (V6 a) \<longleftrightarrow> a = 1"

definition ipv6_localhost :: IpAddr where
  "ipv6_localhost = V6 1"

text \<open>The derived order of \<open>IpAddr\<close>: all IPv4 addresses before all IPv6 addresses.\<close>

fun cmp_ip :: "IpAddr \<Rightarrow> IpAddr \<Rightarrow> cmp_result" where
  "cmp_ip (V4 a) (V4 b) = cmp_of a b"
| "cmp_ip (V6 a) (V6 b) = cmp_of a b"
| "cmp_ip (V4 a) (V6 b) = Less"
| "cmp_ip (V6 a) (V4 b) = Greater"

section \<open>Textual form\<close>

definition digit_char :: "int \<Rightarrow> char" where
  "digit_char d = char_of (if d < 10 then 48 + d else 87 + d)"

function radix_str :: "int \<Rightarrow> int \<Rightarrow> string" where
  "radix_str b n = (if n < b \<or> b < 2 then [digit_char n] else radix_str b (n div b) @ [digit_char (n mod b)])"
  by pat_completeness auto
termination
  by (relation "measure (\<lambda>(b, n). nat n)") (auto simp: nat_less_iff int_div_less_self)

declare radix_str.simps [simp del]

definition dec_str :: "int \<Rightarrow> string" where
  "dec_str = radix_str 10"

definition octets :: "32 word \<Rightarrow> int list" where
  "octets a = [uint (drop_bit 24 a) mod 256, uint (drop_bit 16 a) mod 256, uint (drop_bit 8 a) mod 256, uint a mod 256]"

definition groups :: "128 word \<Rightarrow> int list" where
  "groups a = map (\<lambda>i. uint (drop_bit (16 * (7 - i)) a) mod 65536) [0..<8]"

definition ipv4_str :: "32 word \<Rightarrow> string" where
  "ipv4_str a = join_with ''.'' (map dec_str (octets a))"

definition hex_groups :: "int list \<Rightarrow> string" where
  "hex_groups gs = join_with '':'' (map (radix_str 16) gs)"

text \<open>The longest run of zero groups (the first one where several are longest): start and length.\<close>

fun zero_run :: "nat \<Rightarrow> int list \<Rightarrow> nat \<times> nat \<Rightarrow> nat \<times> nat \<Rightarrow> nat \<times> nat" where
  "zero_run i [] longest cur = longest"
| "zero_run i (g # gs) longest cur =
     (if g = 0 then
        let cur' = (if snd cur = 0 then (i, 1) else (fst cur, snd cur + 1))
        in zero_run (Suc i) gs (if snd cur' > snd longest then cur' else longest) cur'
      else zero_run (Suc i) gs longest (0, 0))"

definition ipv6_str :: "128 word \<Rightarrow> string" where
  "ipv6_str a =
     (if drop_bit 32 a = 0xFFFF then ''::ffff:'' @ ipv4_str (ucast a)
      else let gs = groups a; (start, len) = zero_run 0 gs (0, 0) (0, 0)
        in if len > 1 then hex_groups (take start gs) @ ''::'' @ hex_groups (drop (start + len) gs)
           else hex_groups gs)"

fun ip_to_string :: "IpAddr \<Rightarrow> string" where
  "ip_to_string (V4 a) = ipv4_str a"
| "ip_to_string (V6 a) = ipv6_str a"

section \<open>Parsing\<close>

type_synonym 'a parser = "string \<Rightarrow> ('a \<times> string) option"

definition to_digit :: "int \<Rightarrow> char \<Rightarrow> int option" where
  "to_digit radix c = (let n = of_char c :: int;
      d = (if 48 \<le> n \<and> n \<le> 57 then n - 48 else if 97 \<le> n \<and> n \<le> 122 then n - 87
           else if 65 \<le> n \<and> n \<le> 90 then n - 55 else 36)
    in if d < radix then Some d else None)"

text \<open>
  \<open>str::parse\<close> for unsigned integers up to \<open>lim\<close>: an optional plus sign and at least one digit.
\<close>

fun digits_value :: "int \<Rightarrow> int \<Rightarrow> string \<Rightarrow> int option" where
  "digits_value lim acc [] = Some acc"
| "digits_value lim acc (c # cs) =
     (case to_digit 10 c of
        None \<Rightarrow> None
      | Some d \<Rightarrow> if 10 * acc + d > lim then None else digits_value lim (10 * acc + d) cs)"

definition parse_unsigned :: "int \<Rightarrow> string \<Rightarrow> int option" where
  "parse_unsigned lim s =
     (let ds = (if starts_with ''+'' s then drop 1 s else s) in if ds = [] then None else digits_value lim 0 ds)"

text \<open>\<open>read_number\<close>: at most \<open>max\<close> digits and a value up to \<open>lim\<close>; both limits are errors when exceeded.\<close>

fun read_digits :: "int \<Rightarrow> nat \<Rightarrow> int \<Rightarrow> int \<Rightarrow> nat \<Rightarrow> string \<Rightarrow> (int \<times> nat \<times> string) option" where
  "read_digits radix mx lim acc n [] = Some (acc, n, [])"
| "read_digits radix mx lim acc n (c # cs) =
     (case to_digit radix c of
        None \<Rightarrow> Some (acc, n, c # cs)
      | Some d \<Rightarrow> if acc * radix + d > lim \<or> Suc n > mx then None
                 else read_digits radix mx lim (acc * radix + d) (Suc n) cs)"

definition read_number :: "int \<Rightarrow> nat \<Rightarrow> int \<Rightarrow> bool \<Rightarrow> int parser" where
  "read_number radix mx lim allow_zero_prefix s =
     (case read_digits radix mx lim 0 0 s of
        None \<Rightarrow> None
      | Some (v, n, rest) \<Rightarrow>
          if n = 0 \<or> \<not> allow_zero_prefix \<and> starts_with ''0'' s \<and> n > 1 then None else Some (v, rest))"

definition read_separator :: "char \<Rightarrow> nat \<Rightarrow> 'a parser \<Rightarrow> 'a parser" where
  "read_separator sep idx inner s =
     (if idx > 0 then (case s of c # cs \<Rightarrow> if c = sep then inner cs else None | [] \<Rightarrow> None) else inner s)"

fun read_octets :: "nat \<Rightarrow> nat \<Rightarrow> int list parser" where
  "read_octets 0 i s = Some ([], s)"
| "read_octets (Suc k) i s =
     (case read_separator CHR ''.'' i (read_number 10 3 255 False) s of
        None \<Rightarrow> None
      | Some (v, rest) \<Rightarrow> map_option (\<lambda>(vs, r). (v # vs, r)) (read_octets k (Suc i) rest))"

definition octets_value :: "int list \<Rightarrow> int" where
  "octets_value vs = foldl (\<lambda>acc v. 256 * acc + v) 0 vs"

definition read_ipv4_addr :: "int parser" where
  "read_ipv4_addr s = map_option (\<lambda>(vs, r). (octets_value vs, r)) (read_octets 4 0 s)"

text \<open>
  \<open>read_groups\<close>: up to \<open>limit\<close> groups; an embedded IPv4 address ends the list and counts for two.
  The result is the list of groups, whether it ended in an IPv4 address, and the rest.
\<close>

fun read_groups :: "nat \<Rightarrow> nat \<Rightarrow> string \<Rightarrow> int list \<times> bool \<times> string" where
  "read_groups 0 i s = ([], False, s)"
| "read_groups (Suc k) i s =
     (case (if k \<ge> 1 then read_separator CHR '':'' i read_ipv4_addr s else None) of
        Some (v, rest) \<Rightarrow> ([v div 65536, v mod 65536], True, rest)
      | None \<Rightarrow>
          (case read_separator CHR '':'' i (read_number 16 4 65535 True) s of
             Some (g, rest) \<Rightarrow> (let (gs, v4, r) = read_groups k (Suc i) rest in (g # gs, v4, r))
           | None \<Rightarrow> ([], False, s)))"

definition groups_value :: "int list \<Rightarrow> int" where
  "groups_value gs = foldl (\<lambda>acc g. 65536 * acc + g) 0 gs"

definition read_ipv6_addr :: "int parser" where
  "read_ipv6_addr s =
     (let (head, head_ipv4, rest) = read_groups 8 0 s
      in if length head = 8 then Some (groups_value head, rest)
         else if head_ipv4 then None
         else case strip_prefix ''::'' rest of
             None \<Rightarrow> None
           | Some rest' \<Rightarrow>
               let (tail, _, rest'') = read_groups (8 - (length head + 1)) 0 rest'
               in Some (groups_value (head @ replicate (8 - length head - length tail) 0 @ tail), rest''))"

definition parse_ip :: "string \<Rightarrow> IpAddr option" where
  "parse_ip s =
     (case read_ipv4_addr s of
        Some (v, rest) \<Rightarrow> if rest = [] then Some (V4 (word_of_int v)) else None
      | None \<Rightarrow> (case read_ipv6_addr s of
            Some (v, rest) \<Rightarrow> if rest = [] then Some (V6 (word_of_int v)) else None
          | None \<Rightarrow> None))"

section \<open>Lemmas\<close>

lemma to_canonical_idem [simp]: "to_canonical (to_canonical a) = to_canonical a"
  by (cases a) auto

lemma cmp_ip_Equal_iff [simp]: "cmp_ip a b = Equal \<longleftrightarrow> a = b"
  by (cases a; cases b) auto

lemma total_cmp_ip: "total_cmp cmp_ip"
proof (unfold_locales, goal_cases)
  case (2 b a)
  then show ?case by (cases a; cases b) (auto simp: cmp_of_def)
next
  case (3 a b c)
  then show ?case by (cases a; cases b; cases c) (auto simp: cmp_of_def split: if_splits)
qed simp

lemma radix_str_nonempty [simp]: "radix_str b n \<noteq> []"
  by (subst radix_str.simps) simp

text \<open>Decimal numbers consist of digits; the port and the counters of the log lines rely on it.\<close>

lemma digit_char_range: "0 \<le> d \<Longrightarrow> d < 10 \<Longrightarrow> 48 \<le> (of_char (digit_char d) :: nat) \<and> (of_char (digit_char d) :: nat) \<le> 57"
proof -
  assume d: "0 \<le> d" "d < 10"
  then obtain n where n: "d = int n" "n < 10" using zero_le_imp_eq_int by force
  have "(of_char (digit_char d) :: int) = 48 + d" using d by (simp add: digit_char_def)
  then have "(of_char (digit_char d) :: nat) = 48 + n"
    using n by (metis of_nat_add of_nat_eq_iff of_nat_numeral of_nat_of_char)
  then show ?thesis using n by simp
qed

lemma dec_str_chars:
  "0 \<le> n \<Longrightarrow> c \<in> set (dec_str n) \<Longrightarrow> 48 \<le> (of_char c :: nat) \<and> (of_char c :: nat) \<le> 57"
  unfolding dec_str_def
proof (induction "10::int" n rule: radix_str.induct)
  case (1 n)
  show ?case
  proof (cases "n < 10")
    case True
    then show ?thesis using 1(2,3) digit_char_range by (subst (asm) radix_str.simps) auto
  next
    case False
    then have "c \<in> set (radix_str 10 (n div 10)) \<or> c = digit_char (n mod 10)"
      using 1(3) by (subst (asm) radix_str.simps) auto
    then show ?thesis using False 1(1) digit_char_range [of "n mod 10"] by auto
  qed
qed

section \<open>Big-endian integers\<close>

definition u16_to_be_bytes :: "u16 \<Rightarrow> bytes" where
  "u16_to_be_bytes x = [ucast (drop_bit 8 x), ucast x]"

definition u32_to_be_bytes :: "u32 \<Rightarrow> bytes" where
  "u32_to_be_bytes x = [ucast (drop_bit 24 x), ucast (drop_bit 16 x), ucast (drop_bit 8 x), ucast x]"

definition u16_from_be_bytes :: "u8 \<Rightarrow> u8 \<Rightarrow> u16" where
  "u16_from_be_bytes a b = push_bit 8 (ucast a) OR ucast b"

definition u32_from_be_bytes :: "u8 \<Rightarrow> u8 \<Rightarrow> u8 \<Rightarrow> u8 \<Rightarrow> u32" where
  "u32_from_be_bytes a b c d = push_bit 24 (ucast a) OR push_bit 16 (ucast b) OR push_bit 8 (ucast c) OR ucast d"

lemma u16_be_round_trip [simp]:
  "u16_from_be_bytes (ucast (drop_bit 8 x)) (ucast x) = (x :: u16)"
  unfolding u16_from_be_bytes_def
  by (rule bit_word_eqI) (auto simp: bit_simps)

lemma u32_be_round_trip [simp]:
  "u32_from_be_bytes (ucast (drop_bit 24 x)) (ucast (drop_bit 16 x)) (ucast (drop_bit 8 x)) (ucast x) = (x :: u32)"
  unfolding u32_from_be_bytes_def
proof (rule bit_word_eqI)
  fix n assume "n < LENGTH(32)"
  then consider "n < 8" | "8 \<le> n" "n < 16" | "16 \<le> n" "n < 24" | "24 \<le> n" "n < 32" by fastforce
  then show "bit (push_bit 24 (ucast (ucast (drop_bit 24 x) :: u8)) OR push_bit 16 (ucast (ucast (drop_bit 16 x) :: u8)) OR
      push_bit 8 (ucast (ucast (drop_bit 8 x) :: u8)) OR ucast (ucast x :: u8) :: u32) n = bit x n"
    by cases (auto simp: bit_simps)
qed

section \<open>Decimal numbers\<close>

lemma to_digit_digit_char: "0 \<le> d \<Longrightarrow> d < 10 \<Longrightarrow> to_digit 10 (digit_char d) = Some d"
  by (simp add: to_digit_def digit_char_def of_char_of Let_def)

lemma digits_value_append:
  "digits_value lim acc (s @ t) = Option.bind (digits_value lim acc s) (\<lambda>a. digits_value lim a t)"
  by (induction s arbitrary: acc) (auto split: option.split)

lemma digits_value_dec: "0 \<le> n \<Longrightarrow> n \<le> lim \<Longrightarrow> digits_value lim 0 (radix_str 10 n) = Some n"
proof (induction "10 :: int" n rule: radix_str.induct)
  case (1 n)
  show ?case
  proof (cases "n < 10")
    case True
    then show ?thesis using 1 by (simp add: radix_str.simps [of 10 n] to_digit_digit_char)
  next
    case False
    then have "digits_value lim 0 (radix_str 10 (n div 10)) = Some (n div 10)" using 1 by simp
    then show ?thesis using False 1
      by (simp add: radix_str.simps [of 10 n] digits_value_append to_digit_digit_char)
  qed
qed

lemma radix_str_not_Nil [simp]: "radix_str b n \<noteq> []"
  by (subst radix_str.simps) simp

lemma set_radix_str: "0 \<le> n \<Longrightarrow> 2 \<le> b \<Longrightarrow> set (radix_str b n) \<subseteq> digit_char ` {0..<b}"
proof (induction b n rule: radix_str.induct)
  case (1 b n)
  show ?case
  proof (cases "n < b")
    case True
    then show ?thesis using 1 by (simp add: radix_str.simps [of b n])
  next
    case False
    then have "set (radix_str b (n div b)) \<subseteq> digit_char ` {0..<b}" using 1 by (simp add: pos_imp_zdiv_nonneg_iff)
    then show ?thesis using False 1 by (subst radix_str.simps) auto
  qed
qed

lemma digit_char_cases: "0 \<le> d \<Longrightarrow> d < 16 \<Longrightarrow> digit_char d \<in> set ''0123456789abcdef''"
proof -
  assume "0 \<le> d" "d < 16"
  then have "d \<in> set [0..15]" by simp
  moreover have "list_all (\<lambda>d. digit_char d \<in> set ''0123456789abcdef'') [0..15]" by code_simp
  ultimately show ?thesis by (simp only: list_all_iff)
qed

lemma set_hex_str: "0 \<le> n \<Longrightarrow> set (radix_str 16 n) \<subseteq> set ''0123456789abcdef''"
  using set_radix_str [of n 16] digit_char_cases by fastforce

lemma set_dec_str: "0 \<le> n \<Longrightarrow> set (dec_str n) \<subseteq> set ''0123456789abcdef''"
  using set_radix_str [of n 10] digit_char_cases by (fastforce simp: dec_str_def)

lemma parse_unsigned_dec: "0 \<le> n \<Longrightarrow> n \<le> lim \<Longrightarrow> parse_unsigned lim (dec_str n) = Some n"
proof -
  assume n: "0 \<le> n" "n \<le> lim"
  have "\<not> starts_with ''+'' (dec_str n)" using set_dec_str [OF n(1)] by (cases "dec_str n") auto
  then show ?thesis using n by (simp add: parse_unsigned_def dec_str_def digits_value_dec)
qed

end
