(* ===== verification/Ip_Blocklist.thy ===== *)
theory Ip_Blocklist
  imports Net
begin

text \<open>
  The IP block list, \<open>ferron-common/src/util/ip_blocklist.rs\<close>. The CIDR type of the \<open>cidr\<close> crate is
  a network address with a prefix length; its parser and its \<open>contains\<close> are parameters, the
  fields of \<open>cidr_lib\<close>. A \<open>HashSet\<close> is the list of its elements in iteration order, so that the
  comparison the source derives from that order can be written down; equality is equality of sets.
\<close>

datatype IpCidr = IpCidr (cidr_addr: IpAddr) (cidr_len: nat)

record cidr_lib =
  parse_cidr :: "string \<Rightarrow> IpCidr option"
  cidr_contains :: "IpCidr \<Rightarrow> IpAddr \<Rightarrow> bool"

record IpBlockList =
  blocked_ips :: "IpAddr list"
  blocked_cidrs :: "IpCidr list"

definition blocklist_new :: IpBlockList where
  "blocklist_new = \<lparr>blocked_ips = [], blocked_cidrs = []\<rparr>"

definition load_entry :: "('x) cidr_lib_scheme \<Rightarrow> IpBlockList \<Rightarrow> string \<Rightarrow> IpBlockList" where
  "load_entry lib l ip_str =
     (if ip_str = ''localhost'' then l\<lparr>blocked_ips := List.insert ipv6_localhost (blocked_ips l)\<rparr>
      else case parse_ip ip_str of
        Some ip \<Rightarrow> l\<lparr>blocked_ips := List.insert (to_canonical ip) (blocked_ips l)\<rparr>
      | None \<Rightarrow> (case parse_cidr lib ip_str of
            Some ip_cidr \<Rightarrow> l\<lparr>blocked_cidrs := List.insert ip_cidr (blocked_cidrs l)\<rparr>
          | None \<Rightarrow> l))"

definition load_from_vec :: "('x) cidr_lib_scheme \<Rightarrow> string list \<Rightarrow> IpBlockList \<Rightarrow> IpBlockList" where
  "load_from_vec lib ip_list l = foldl (load_entry lib) l ip_list"

definition is_blocked :: "('x) cidr_lib_scheme \<Rightarrow> IpBlockList \<Rightarrow> IpAddr \<Rightarrow> bool" where
  "is_blocked lib l ip \<longleftrightarrow> to_canonical ip \<in> set (blocked_ips l) \<or>
     (\<exists>cidr \<in> set (blocked_cidrs l). cidr_contains lib cidr (to_canonical ip))"

text \<open>The derived equality and the written-out order.\<close>

definition blocklist_eq :: "IpBlockList \<Rightarrow> IpBlockList \<Rightarrow> bool" where
  "blocklist_eq a b \<longleftrightarrow> set (blocked_ips a) = set (blocked_ips b) \<and> set (blocked_cidrs a) = set (blocked_cidrs b)"

definition cmp_cidr :: "IpCidr \<Rightarrow> IpCidr \<Rightarrow> cmp_result" where
  "cmp_cidr a b = then_with (cmp_ip (cidr_addr a) (cidr_addr b)) (cmp_of (cidr_len a) (cidr_len b))"

definition blocklist_cmp :: "IpBlockList \<Rightarrow> IpBlockList \<Rightarrow> cmp_result" where
  "blocklist_cmp a b =
     then_with (cmp_list cmp_ip (blocked_ips a) (blocked_ips b))
       (cmp_list cmp_cidr (blocked_cidrs a) (blocked_cidrs b))"

section \<open>Properties\<close>

text \<open>When one entry of the configuration matches a client.\<close>

definition entry_matches :: "('x) cidr_lib_scheme \<Rightarrow> string \<Rightarrow> IpAddr \<Rightarrow> bool" where
  "entry_matches lib e ip \<longleftrightarrow>
     (if e = ''localhost'' then to_canonical ip = V6 1
      else case parse_ip e of
        Some a \<Rightarrow> to_canonical a = to_canonical ip
      | None \<Rightarrow> (case parse_cidr lib e of
            Some n \<Rightarrow> cidr_contains lib n (to_canonical ip)
          | None \<Rightarrow> False))"

lemma is_blocked_new [simp]: "\<not> is_blocked lib blocklist_new ip"
  by (simp add: is_blocked_def blocklist_new_def)

lemma is_blocked_load_entry:
  "is_blocked lib (load_entry lib l e) ip \<longleftrightarrow> is_blocked lib l ip \<or> entry_matches lib e ip"
  by (auto simp: is_blocked_def load_entry_def entry_matches_def ipv6_localhost_def split: option.splits)

lemma is_blocked_load: "is_blocked lib (load_from_vec lib es l) ip \<longleftrightarrow>
    is_blocked lib l ip \<or> (\<exists>e \<in> set es. entry_matches lib e ip)"
  unfolding load_from_vec_def
  by (induction es arbitrary: l) (auto simp: is_blocked_load_entry)

text \<open>
  A list loaded from configuration strings blocks exactly the clients some entry names: an
  address equal to the entry's after IPv4-mapped addresses are made canonical, a network that
  contains it, or, for \<open>localhost\<close>, the IPv6 loopback address; unparsable entries block nobody.
\<close>

theorem blocklist_blocks_exactly:
  "is_blocked lib (load_from_vec lib es blocklist_new) ip \<longleftrightarrow> (\<exists>e \<in> set es. entry_matches lib e ip)"
  by (simp add: is_blocked_load)

lemma is_blocked_canonical: "is_blocked lib l (to_canonical ip) \<longleftrightarrow> is_blocked lib l ip"
  by (simp add: is_blocked_def)

lemma is_blocked_cong: "blocklist_eq a b \<Longrightarrow> is_blocked lib a ip \<longleftrightarrow> is_blocked lib b ip"
  by (simp add: blocklist_eq_def is_blocked_def)

lemma total_cmp_cidr: "total_cmp cmp_cidr"
  unfolding cmp_cidr_def
  by (rule total_cmp_then_with [OF total_cmp_vimage [OF total_cmp_ip] total_cmp_vimage [OF total_cmp_of]])

lemma total_cmp_blocklist: "total_cmp blocklist_cmp"
  unfolding blocklist_cmp_def
  by (rule total_cmp_then_with [OF total_cmp_vimage [OF total_cmp_list [OF total_cmp_ip]]
        total_cmp_vimage [OF total_cmp_list [OF total_cmp_cidr]]])

end
