(* ===== verification/Matching.thy ===== *)
theory Matching
  imports Net "HOL-Library.While_Combinator"
begin

text \<open>
  Matching of locations and host names: \<open>match_location.rs\<close>, \<open>match_hostname.rs\<close> and
  \<open>is_localhost.rs\<close> of \<open>ferron-common/src/util\<close>. \<open>windows\<close> is the value of \<open>cfg!(windows)\<close>. The second
  loop of \<open>match_location\<close> is a \<open>while_option\<close>, where \<open>None\<close> stands for not returning; that it
  always returns is proved.
\<close>

section \<open>Definitions\<close>

function collapse_slashes :: "string \<Rightarrow> string" where
  "collapse_slashes p = (if contains_sub ''//'' p then collapse_slashes (replace_all ''//'' ''/'' p) else p)"
  by pat_completeness auto

lemma replace_all_hit: "p \<noteq> [] \<Longrightarrow> replace_all p r (p @ t) = r @ replace_all p r t"
  by (cases p) auto

lemma replace_all_shrink:
  "length r \<le> length p \<Longrightarrow> length (replace_all p r s) \<le> length s"
proof (induction p r s rule: replace_all.induct)
  case (2 p r x xs)
  show ?case
  proof (cases "p \<noteq> [] \<and> starts_with p (x # xs)")
    case True
    then obtain t where t: "x # xs = p @ t" by (auto simp: starts_with_iff)
    have l: "length p + length t = Suc (length xs)" using arg_cong [OF t, of length] by simp
    have "length (replace_all p r (drop (length p) (x # xs))) \<le> length (drop (length p) (x # xs))"
      by (rule "2.IH"(1) [OF True "2.prems"])
    then have "length (replace_all p r t) \<le> length t" unfolding t by simp
    moreover have "replace_all p r (x # xs) = r @ replace_all p r t"
      unfolding t using True by (simp add: replace_all_hit)
    ultimately show ?thesis using l "2.prems" by simp
  next
    case False
    then have "replace_all p r (x # xs) = x # replace_all p r xs" by auto
    then show ?thesis using "2.IH"(2) [OF False "2.prems"] by simp
  qed
qed simp

lemma replace_all_shrink_strict:
  "length r < length p \<Longrightarrow> contains_sub p s \<Longrightarrow> length (replace_all p r s) < length s"
proof (induction s)
  case Nil
  then show ?case by (auto simp: contains_sub_def split: if_splits)
next
  case (Cons x xs)
  have p: "p \<noteq> []" using Cons.prems by auto
  show ?case
  proof (cases "starts_with p (x # xs)")
    case True
    then obtain t where t: "x # xs = p @ t" by (auto simp: starts_with_iff)
    have l: "length p + length t = Suc (length xs)" using arg_cong [OF t, of length] by simp
    have "replace_all p r (x # xs) = r @ replace_all p r t" unfolding t using p by (rule replace_all_hit)
    then show ?thesis using l Cons.prems(1) replace_all_shrink [of r p t] by simp
  next
    case False
    then have "contains_sub p xs" using Cons.prems(2) by (simp add: contains_sub_def)
    then show ?thesis using Cons.IH [OF Cons.prems(1)] False by simp
  qed
qed

termination collapse_slashes
  by (relation "measure length") (simp_all add: replace_all_shrink_strict)

declare collapse_slashes.simps [simp del]

text \<open>The loop on the request path; as in the source its body reads the location, not the request path.\<close>

definition req_path_loop :: "string \<Rightarrow> string \<Rightarrow> string option" where
  "req_path_loop path_prepared req_path =
     while_option (contains_sub ''//'') (\<lambda>_. replace_all ''//'' ''/'' path_prepared) req_path"

definition match_location :: "bool \<Rightarrow> string \<Rightarrow> string \<Rightarrow> bool option" where
  "match_location windows path req_path =
     (let path_prepared = collapse_slashes (trim_end_matches CHR ''/'' path)
      in case req_path_loop path_prepared req_path of
          None \<Rightarrow> None
        | Some req_path_prepared \<Rightarrow>
            let p = (if windows then to_lowercase path_prepared else path_prepared);
                r = (if windows then to_lowercase req_path_prepared else req_path_prepared)
            in Some (p = r \<or> starts_with (p @ ''/'') r))"

definition match_hostname :: "string option \<Rightarrow> string option \<Rightarrow> bool" where
  "match_hostname hostname req_hostname =
     (if hostname = None \<or> hostname = Some ''*'' then True
      else case (hostname, req_hostname) of
        (Some h, Some r) \<Rightarrow>
          if starts_with ''*.'' h \<and> h \<noteq> ''*.'' then
            (let root = drop 2 h
             in r = root \<or> length r > length root \<and> ends_with (''.'' @ root) r)
          else r = h
      | _ \<Rightarrow> False)"

definition is_localhost :: "IpAddr option \<Rightarrow> string option \<Rightarrow> bool" where
  "is_localhost ip hostname =
     ((case ip of Some a \<Rightarrow> is_loopback (to_canonical a) | None \<Rightarrow> False) \<or>
      (case hostname of
         Some h \<Rightarrow> (let n = trim_end_matches CHR ''.'' (to_lowercase h)
                   in n = ''localhost'' \<or> ends_with ''.localhost'' n)
       | None \<Rightarrow> False))"

section \<open>Locations\<close>

lemma collapse_slashes_no_double: "\<not> contains_sub ''//'' (collapse_slashes p)"
proof (induction p rule: collapse_slashes.induct)
  case (1 p)
  then show ?case by (cases "contains_sub ''//'' p") (simp_all add: collapse_slashes.simps [of p])
qed

lemma collapse_slashes_id: "\<not> contains_sub ''//'' p \<Longrightarrow> collapse_slashes p = p"
  by (simp add: collapse_slashes.simps)

lemma replace_all_id: "\<not> contains_sub p s \<Longrightarrow> replace_all p r s = s"
  by (induction p r s rule: replace_all.induct) (auto simp: contains_sub_def split: if_splits)

lemma req_path_loop_eq:
  assumes "\<not> contains_sub ''//'' p"
  shows "req_path_loop p r = Some (if contains_sub ''//'' r then p else r)"
  using assms by (simp add: req_path_loop_def while_option_unfold replace_all_id)

lemma match_location_eq:
  "match_location windows path req =
     (let p = collapse_slashes (trim_end_matches CHR ''/'' path);
          lower = (if windows then to_lowercase else id)
      in Some (contains_sub ''//'' req \<or> lower p = lower req \<or> starts_with (lower p @ ''/'') (lower req)))"
  by (simp add: match_location_def req_path_loop_eq [OF collapse_slashes_no_double] Let_def)

text \<open>
  C25: For a request path without a double slash, and on systems other than Windows, matching a location returns, and the
  answer is that the path equals the location, stripped of trailing and repeated slashes, or continues it
  after a slash; letter case counts.
\<close>

theorem match_location_correct:
  assumes "\<not> contains_sub ''//'' req"
  shows "match_location False path req =
    Some (\<exists>rest. req = collapse_slashes (trim_end_matches CHR ''/'' path) @ rest \<and> (rest = [] \<or> hd rest = CHR ''/''))"
proof -
  let ?p = "collapse_slashes (trim_end_matches CHR ''/'' path)"
  have "(?p = req \<or> starts_with (?p @ ''/'') req) \<longleftrightarrow> (\<exists>rest. req = ?p @ rest \<and> (rest = [] \<or> hd rest = CHR ''/''))"
  proof
    assume "\<exists>rest. req = ?p @ rest \<and> (rest = [] \<or> hd rest = CHR ''/'')"
    then obtain rest where r: "req = ?p @ rest" "rest = [] \<or> hd rest = CHR ''/''" by blast
    then show "?p = req \<or> starts_with (?p @ ''/'') req" by (cases rest) (auto simp: starts_with_iff)
  qed (auto simp: starts_with_iff)
  with assms show ?thesis by (simp add: match_location_eq)
qed

theorem match_location_correct_witness:
  "\<not> contains_sub ''//'' ''/api/v1'' \<and> match_location False ''/api//'' ''/api/v1'' = Some True"
proof -
  have n: "\<not> contains_sub ''//'' ''/api/v1''" by code_simp
  have "collapse_slashes (trim_end_matches CHR ''/'' ''/api//'') = ''/api''" by code_simp
  then have "\<exists>rest. ''/api/v1'' = collapse_slashes (trim_end_matches CHR ''/'' ''/api//'') @ rest \<and>
      (rest = [] \<or> hd rest = CHR ''/'')" by (intro exI [of _ "''/v1''"]) simp
  with match_location_correct [OF n, of "''/api//''"] n show ?thesis by simp
qed

text \<open>
  A request path that contains a double slash matches every configured location: the loop that
  should collapse the slashes of the request path overwrites it with the location instead.
\<close>

theorem match_location_double_slash:
  assumes "contains_sub ''//'' req"
  shows "match_location windows path req = Some True"
  using assms by (simp add: match_location_eq)

theorem match_location_double_slash_witness:
  "contains_sub ''//'' ''/public//x'' \<and> match_location False ''/admin'' ''/public//x'' = Some True"
proof -
  have c: "contains_sub ''//'' ''/public//x''" by code_simp
  show ?thesis using match_location_double_slash [OF c, of False "''/admin''"] c by simp
qed

section \<open>Host names\<close>

text \<open>
  Which requests a host filter accepts: no filter and \<open>*\<close> accept every request, a filter
  \<open>*.root\<close> accepts \<open>root\<close> and exactly the names that end in a dot and \<open>root\<close>, and any other
  filter only the equal name; a request without a host name is refused by every proper filter.
\<close>

theorem match_hostname_cases:
  "match_hostname None r \<and> match_hostname (Some ''*'') r \<and>
   (root \<noteq> [] \<longrightarrow> match_hostname (Some (''*.'' @ root)) (Some q) = (q = root \<or> (\<exists>sub. q = sub @ ''.'' @ root))) \<and>
   (h \<noteq> ''*'' \<longrightarrow> \<not> match_hostname (Some h) None) \<and>
   (h \<noteq> ''*'' \<longrightarrow> (\<nexists>root. root \<noteq> [] \<and> h = ''*.'' @ root) \<longrightarrow> match_hostname (Some h) (Some q) = (q = h))"
proof -
  have w: "starts_with ''*.'' h \<and> h \<noteq> ''*.'' \<longleftrightarrow> (\<exists>root. root \<noteq> [] \<and> h = ''*.'' @ root)"
    by (auto simp: starts_with_iff)
  have "match_hostname (Some (''*.'' @ root)) (Some q) = (q = root \<or> (\<exists>sub. q = sub @ ''.'' @ root))" if "root \<noteq> []"
    using that by (auto simp: match_hostname_def ends_with_iff)
  moreover have "match_hostname (Some h) (Some q) = (q = h)"
    if "h \<noteq> ''*''" "\<nexists>root. root \<noteq> [] \<and> h = ''*.'' @ root"
  proof -
    have "\<not> (starts_with ''*.'' h \<and> h \<noteq> ''*.'')" using w that(2) by (rule ssubst)
    with that(1) show ?thesis by (auto simp: match_hostname_def)
  qed
  ultimately show ?thesis by (simp add: match_hostname_def)
qed

theorem match_hostname_cases_witness:
  "match_hostname (Some ''*.example.com'') (Some ''sub.example.com'') \<and> \<not> match_hostname (Some ''example.com'') None"
proof -
  have "\<exists>sub. ''sub.example.com'' = sub @ ''.'' @ ''example.com''" by (intro exI [of _ "''sub''"]) simp
  with match_hostname_cases [of None "''example.com''" "''sub.example.com''" "''example.com''"]
  show ?thesis by simp
qed

end
