(* ===== verification/Http.thy ===== *)
theory Http
  imports Net
begin

text \<open>
  Requests, responses and the data modules exchange (\<open>ferron-common/src/modules.rs\<close>), as far as the
  modelled components look at them. A header map is the list of its entries in iteration order,
  under lower-case names (\<open>hyper\<close> normalises header names so); \<open>get\<close> returns the first value of a
  name, \<open>insert\<close> replaces all values of a name, \<open>append\<close> adds one, \<open>remove\<close> drops them all. A URI is
  the record of the accessors the sources call.
\<close>

type_synonym header_map = "(string \<times> string) list"

definition header_get :: "string \<Rightarrow> header_map \<Rightarrow> string option" where
  "header_get name hs = map_of hs (to_lowercase name)"

definition header_get_all :: "string \<Rightarrow> header_map \<Rightarrow> string list" where
  "header_get_all name hs = map snd (filter (\<lambda>(n, v). n = to_lowercase name) hs)"

definition header_contains :: "string \<Rightarrow> header_map \<Rightarrow> bool" where
  "header_contains name hs \<longleftrightarrow> header_get name hs \<noteq> None"

definition header_remove :: "string \<Rightarrow> header_map \<Rightarrow> header_map" where
  "header_remove name hs = filter (\<lambda>(n, v). n \<noteq> to_lowercase name) hs"

definition header_append :: "string \<Rightarrow> string \<Rightarrow> header_map \<Rightarrow> header_map" where
  "header_append name v hs = hs @ [(to_lowercase name, v)]"

definition header_insert :: "string \<Rightarrow> string \<Rightarrow> header_map \<Rightarrow> header_map" where
  "header_insert name v hs = header_append name v (header_remove name hs)"

text \<open>\<open>HeaderValue::to_str\<close> succeeds on visible ASCII characters and tabs.\<close>

definition header_to_str :: "string \<Rightarrow> string option" where
  "header_to_str v =
     (if \<forall>c \<in> set v. of_char c = (9::nat) \<or> 32 \<le> (of_char c :: nat) \<and> (of_char c :: nat) < 127
      then Some v else None)"

datatype http_version = HTTP_09 | HTTP_10 | HTTP_11 | HTTP_2 | HTTP_3 | HTTP_other

fun version_str :: "http_version \<Rightarrow> string" where
  "version_str HTTP_09 = ''HTTP/0.9''"
| "version_str HTTP_10 = ''HTTP/1.0''"
| "version_str HTTP_11 = ''HTTP/1.1''"
| "version_str HTTP_2 = ''HTTP/2.0''"
| "version_str HTTP_3 = ''HTTP/3.0''"
| "version_str HTTP_other = ''HTTP/Unknown''"

record uri =
  uri_path :: string
  uri_query :: "string option"
  uri_path_and_query :: "string option"
  uri_host :: "string option"
  uri_text :: string

record request_parts =
  rp_method :: string
  rp_uri :: uri
  rp_version :: http_version
  rp_headers :: header_map

text \<open>\<open>SocketData\<close>, \<open>RequestData\<close> and \<open>ResponseData\<close> of \<open>modules.rs\<close>.\<close>

record SocketData =
  remote_addr :: SocketAddr
  local_addr :: SocketAddr
  encrypted :: bool

record RequestData =
  auth_user :: "string option"
  original_url :: "uri option"
  error_status_code :: "nat option"

text \<open>A request carries its parts, its body and the \<open>RequestData\<close> extension, if it was set.\<close>

record request =
  req_parts :: request_parts
  req_body :: string
  req_data :: "RequestData option"

record response =
  resp_status :: nat
  resp_headers :: header_map
  resp_body :: string

record ResponseData =
  rd_request :: "request option"
  rd_response :: "response option"
  rd_response_status :: "nat option"
  rd_response_headers :: "header_map option"
  rd_new_remote_address :: "SocketAddr option"

text \<open>The results handlers return most often: pass the request on, or end it with a status.\<close>

abbreviation pass_on :: "request \<Rightarrow> ResponseData" where
  "pass_on req \<equiv> \<lparr>rd_request = Some req, rd_response = None, rd_response_status = None,
     rd_response_headers = None, rd_new_remote_address = None\<rparr>"

abbreviation with_status :: "request \<Rightarrow> nat \<Rightarrow> ResponseData" where
  "with_status req st \<equiv> \<lparr>rd_request = Some req, rd_response = None, rd_response_status = Some st,
     rd_response_headers = None, rd_new_remote_address = None\<rparr>"

abbreviation with_response :: "request \<Rightarrow> response \<Rightarrow> ResponseData" where
  "with_response req r \<equiv> \<lparr>rd_request = Some req, rd_response = Some r, rd_response_status = None,
     rd_response_headers = None, rd_new_remote_address = None\<rparr>"

definition query_suffix :: "uri \<Rightarrow> string" where
  "query_suffix u = (case uri_query u of Some q \<Rightarrow> ''?'' @ q | None \<Rightarrow> [])"

text \<open>A plain request and a client, for the examples of the modules.\<close>

definition plain_request :: request where
  "plain_request = \<lparr>req_parts = \<lparr>rp_method = ''GET'', rp_uri = \<lparr>uri_path = ''/'', uri_query = None, uri_path_and_query = Some ''/'', uri_host = None, uri_text = ''/''\<rparr>,
     rp_version = HTTP_11, rp_headers = []\<rparr>, req_body = [], req_data = None\<rparr>"

definition client_socket :: "IpAddr \<Rightarrow> SocketData" where
  "client_socket addr = \<lparr>remote_addr = \<lparr>sa_ip = addr, sa_port = 1\<rparr>, local_addr = \<lparr>sa_ip = V4 0, sa_port = 80\<rparr>, encrypted = False\<rparr>"

section \<open>Laws of header maps\<close>

text \<open>
  What the clients of a header map rely on, as an interface: a name looked up after an
  \<open>insert\<close>, an \<open>append\<close> or a \<open>remove\<close>.
\<close>

locale header_store =
  fixes get :: "string \<Rightarrow> 'h \<Rightarrow> string option"
    and ins :: "string \<Rightarrow> string \<Rightarrow> 'h \<Rightarrow> 'h"
    and rem :: "string \<Rightarrow> 'h \<Rightarrow> 'h"
    and key :: "string \<Rightarrow> string"
  assumes get_ins: "get n (ins m v h) = (if key n = key m then Some v else get n h)"
    and get_rem: "get n (rem m h) = (if key n = key m then None else get n h)"
begin

lemma get_ins_same [simp]: "get n (ins n v h) = Some v"
  by (simp add: get_ins)

lemma get_rem_same [simp]: "get n (rem n h) = None"
  by (simp add: get_rem)

text \<open>Inserting a list of entries: the last value of a name wins.\<close>

lemma get_insert_all:
  "get n (foldl (\<lambda>h (m, v). ins m v h) h es) =
     (case find (\<lambda>(m, v). key m = key n) (rev es) of Some (m, v) \<Rightarrow> Some v | None \<Rightarrow> get n h)"
proof (induction es arbitrary: h rule: rev_induct)
  case Nil
  then show ?case by simp
next
  case (snoc e es)
  then show ?case by (cases e) (auto simp: get_ins)
qed

lemma get_remove_all:
  "get n (foldl (\<lambda>h m. rem m h) h ms) = (if \<exists>m \<in> set ms. key m = key n then None else get n h)"
  by (induction ms arbitrary: h) (auto simp: get_rem)

end

lemma map_of_filter_neq:
  "map_of (filter (\<lambda>(n, v). n \<noteq> k) hs) x = (if x = k then None else map_of hs x)"
  by (induction hs) auto

interpretation hm: header_store header_get header_insert header_remove to_lowercase
proof unfold_locales
  show "header_get n (header_remove m h) = (if to_lowercase n = to_lowercase m then None else header_get n h)"
    for n m h by (simp add: header_get_def header_remove_def map_of_filter_neq)
  show "header_get n (header_insert m v h) = (if to_lowercase n = to_lowercase m then Some v else header_get n h)"
    for n m v h
    by (auto simp: header_get_def header_insert_def header_append_def header_remove_def map_of_filter_neq
        map_add_def split: option.splits)
qed

end
