(* ===== verification/Placeholders.thy ===== *)
theory Placeholders
  imports Http
begin

text \<open>
  Placeholders in configured texts: \<open>replace_header_placeholders\<close>
  (\<open>ferron-common/src/util/header_placeholders.rs\<close>) and \<open>replace_log_placeholders\<close>
  (\<open>ferron/src/util/log_placeholders.rs\<close>). Both functions run the same index loop and differ in the
  text a placeholder stands for, so the loop is a definition of its own over that function. It is a
  \<open>partial_function (option)\<close>: \<open>None\<close> is a loop that never returns. The reference definition \<open>expand\<close>
  says what the result should be; the loop is proved equal to it on every input.
\<close>

section \<open>The loop and the placeholders\<close>

abbreviation lbrace :: char where "lbrace \<equiv> CHR ''{''"
abbreviation rbrace :: char where "rbrace \<equiv> CHR ''}''"

partial_function (option) placeholder_loop ::
  "(string \<Rightarrow> string) \<Rightarrow> string \<Rightarrow> nat \<Rightarrow> string \<Rightarrow> string option" where
  "placeholder_loop subst input index_rb_saved output =
     (case find_sub [lbrace] (drop index_rb_saved input) of
        Some index_lb \<Rightarrow>
          (case find_sub [rbrace] (drop (index_rb_saved + index_lb + 1) input) of
             Some index_rb_afterlb \<Rightarrow>
               (let index_rb = index_rb_afterlb + index_lb + 1;
                    placeholder_value = take (index_rb - (index_lb + 1)) (drop (index_rb_saved + index_lb + 1) input);
                    output' = output @ take index_lb (drop index_rb_saved input) @ subst placeholder_value
                in if index_rb < length input - 1
                   then placeholder_loop subst input (index_rb_saved + (index_rb + 1)) output'
                   else Some output')
           | None \<Rightarrow> placeholder_loop subst input index_rb_saved (output @ drop index_rb_saved input))
      | None \<Rightarrow> Some (output @ drop index_rb_saved input))"

declare placeholder_loop.simps [code]

definition path_and_query_text :: "uri \<Rightarrow> string" where
  "path_and_query_text u = (case uri_path_and_query u of Some p \<Rightarrow> p | None \<Rightarrow> uri_path u)"

definition with_socket :: "(SocketData \<Rightarrow> string) \<Rightarrow> SocketData option \<Rightarrow> string \<Rightarrow> string" where
  "with_socket f sd name = (case sd of Some d \<Rightarrow> f d | None \<Rightarrow> [lbrace] @ name @ [rbrace])"

definition scheme_text :: "SocketData \<Rightarrow> string" where
  "scheme_text d = (if encrypted d then ''https'' else ''http'')"

definition header_placeholder :: "request_parts \<Rightarrow> SocketData option \<Rightarrow> string \<Rightarrow> string" where
  "header_placeholder parts sd v =
     (if v = ''path'' then uri_path (rp_uri parts)
      else if v = ''path_and_query'' then path_and_query_text (rp_uri parts)
      else if v = ''method'' then rp_method parts
      else if v = ''version'' then version_str (rp_version parts)
      else if v = ''scheme'' then with_socket scheme_text sd v
      else if v = ''client_ip'' then with_socket (\<lambda>d. ip_to_string (sa_ip (remote_addr d))) sd v
      else if v = ''client_port'' then with_socket (\<lambda>d. dec_str (uint (sa_port (remote_addr d)))) sd v
      else if v = ''client_ip_canonical'' then
        with_socket (\<lambda>d. ip_to_string (to_canonical (sa_ip (remote_addr d)))) sd v
      else if v = ''server_ip'' then with_socket (\<lambda>d. ip_to_string (sa_ip (local_addr d))) sd v
      else if v = ''server_port'' then with_socket (\<lambda>d. dec_str (uint (sa_port (local_addr d)))) sd v
      else if v = ''server_ip_canonical'' then
        with_socket (\<lambda>d. ip_to_string (to_canonical (sa_ip (local_addr d)))) sd v
      else case strip_prefix ''header:'' v of
        Some header_name \<Rightarrow> (case header_get header_name (rp_headers parts) of
            Some header_value \<Rightarrow> (case header_to_str header_value of Some t \<Rightarrow> t | None \<Rightarrow> [])
          | None \<Rightarrow> [])
      | None \<Rightarrow> [lbrace] @ v @ [rbrace])"

definition replace_header_placeholders :: "string \<Rightarrow> request_parts \<Rightarrow> SocketData option \<Rightarrow> string option" where
  "replace_header_placeholders input parts sd = placeholder_loop (header_placeholder parts sd) input 0 []"

definition log_placeholder ::
  "request_parts \<Rightarrow> SocketData \<Rightarrow> string option \<Rightarrow> string \<Rightarrow> u16 \<Rightarrow> u64 option \<Rightarrow> string \<Rightarrow> string" where
  "log_placeholder parts d auth timestamp_str status_code content_length v =
     (if v = ''path'' then uri_path (rp_uri parts)
      else if v = ''path_and_query'' then path_and_query_text (rp_uri parts)
      else if v = ''method'' then rp_method parts
      else if v = ''version'' then version_str (rp_version parts)
      else if v = ''scheme'' then scheme_text d
      else if v = ''client_ip'' then ip_to_string (sa_ip (remote_addr d))
      else if v = ''client_port'' then dec_str (uint (sa_port (remote_addr d)))
      else if v = ''client_ip_canonical'' then ip_to_string (to_canonical (sa_ip (remote_addr d)))
      else if v = ''server_ip'' then ip_to_string (sa_ip (local_addr d))
      else if v = ''server_port'' then dec_str (uint (sa_port (local_addr d)))
      else if v = ''server_ip_canonical'' then ip_to_string (to_canonical (sa_ip (local_addr d)))
      else if v = ''auth_user'' then (case auth of Some u \<Rightarrow> u | None \<Rightarrow> ''-'')
      else if v = ''timestamp'' then timestamp_str
      else if v = ''status_code'' then dec_str (uint status_code)
      else if v = ''content_length'' then (case content_length of Some l \<Rightarrow> dec_str (uint l) | None \<Rightarrow> ''-'')
      else case strip_prefix ''header:'' v of
        Some header_name \<Rightarrow> (case header_get header_name (rp_headers parts) of
            Some header_value \<Rightarrow> (case header_to_str header_value of Some t \<Rightarrow> t | None \<Rightarrow> [])
          | None \<Rightarrow> ''-'')
      | None \<Rightarrow> [lbrace] @ v @ [rbrace])"

definition replace_log_placeholders ::
  "string \<Rightarrow> request_parts \<Rightarrow> SocketData \<Rightarrow> string option \<Rightarrow> string \<Rightarrow> u16 \<Rightarrow> u64 option \<Rightarrow> string option" where
  "replace_log_placeholders input parts d auth timestamp_str status_code content_length =
     placeholder_loop (log_placeholder parts d auth timestamp_str status_code content_length) input 0 []"

section \<open>The reference definition\<close>

text \<open>The text up to a brace, the value of the placeholder, and the rest expanded; \<open>None\<close> on an open brace.\<close>

function expand :: "(string \<Rightarrow> string) \<Rightarrow> string \<Rightarrow> string option" where
  "expand subst s =
     (case split_once lbrace s of
        None \<Rightarrow> Some s
      | Some (a, r) \<Rightarrow> (case split_once rbrace r of
            None \<Rightarrow> None
          | Some (v, rest) \<Rightarrow> map_option (\<lambda>t. a @ subst v @ t) (expand subst rest)))"
  by pat_completeness auto
termination
  by (relation "measure (\<lambda>(f, s). length s)") (auto simp: split_once_Some_iff)

declare expand.simps [simp del]

definition open_brace :: "string \<Rightarrow> bool" where
  "open_brace s \<longleftrightarrow> lbrace \<in> set s \<and> rbrace \<notin> set (takeWhile (\<lambda>c. c \<noteq> lbrace) (rev s))"

lemma open_brace_iff: "open_brace s \<longleftrightarrow> (\<exists>a b. s = a @ lbrace # b \<and> rbrace \<notin> set b)"
proof
  assume o: "open_brace s"
  then have "lbrace \<in> set (rev s)" by (simp add: open_brace_def)
  then obtain x y where xy: "rev s = x @ lbrace # y" "lbrace \<notin> set x"
    by (blast dest: split_list_first)
  then have "takeWhile (\<lambda>c. c \<noteq> lbrace) (rev s) = x" by (auto simp: takeWhile_append)
  with o have "rbrace \<notin> set x" by (simp add: open_brace_def)
  moreover have "s = rev y @ lbrace # rev x" using arg_cong [OF xy(1), of rev] by simp
  ultimately show "\<exists>a b. s = a @ lbrace # b \<and> rbrace \<notin> set b" by (metis set_rev)
next
  assume "\<exists>a b. s = a @ lbrace # b \<and> rbrace \<notin> set b"
  then obtain a b where s: "s = a @ lbrace # b" "rbrace \<notin> set b" by blast
  have "set (takeWhile (\<lambda>c. c \<noteq> lbrace) (rev b @ lbrace # rev a)) \<subseteq> set b"
    using set_takeWhileD [of _ _ "rev b"] by (auto simp: takeWhile_append)
  with s show "open_brace s" by (auto simp: open_brace_def)
qed

lemma split_once_find:
  "split_once c s = (case find_sub [c] s of None \<Rightarrow> None | Some i \<Rightarrow> Some (take i s, drop (Suc i) s))"
  by (induction s) (auto split: option.splits)

lemma expand_None_iff: "expand subst s = None \<longleftrightarrow> open_brace s"
proof (induction subst s rule: expand.induct)
  case (1 subst s)
  show ?case
  proof (cases "split_once lbrace s")
    case None
    then have "lbrace \<notin> set s" by (simp add: split_once_None_iff)
    then have "\<not> open_brace s" by (simp add: open_brace_def)
    with None show ?thesis by (simp add: expand.simps [of _ s])
  next
    case (Some ar)
    obtain a r where ar: "ar = (a, r)" by (cases ar)
    with Some have s: "s = a @ lbrace # r" "lbrace \<notin> set a" by (auto simp: split_once_Some_iff)
    show ?thesis
    proof (cases "split_once rbrace r")
      case None
      then have "open_brace s" using s by (auto simp: open_brace_iff split_once_None_iff)
      with None Some ar show ?thesis by (simp add: expand.simps [of _ s])
    next
      case (Some vr)
      obtain v rest where vr: "vr = (v, rest)" by (cases vr)
      with Some have r: "r = v @ rbrace # rest" by (auto simp: split_once_Some_iff)
      have "expand subst s = map_option (\<lambda>t. a @ subst v @ t) (expand subst rest)"
        using Some \<open>split_once lbrace s = Some ar\<close> ar vr by (simp add: expand.simps [of _ s])
      moreover have "open_brace s \<longleftrightarrow> open_brace rest"
      proof -
        have "\<exists>w. rest = w @ lbrace # b" if e: "(a @ lbrace # v) @ rbrace # rest = p @ lbrace # b"
          and n: "rbrace \<notin> set b" for p b
          using e n by (auto simp: append_eq_append_conv2 Cons_eq_append_conv append_eq_Cons_conv)
        then have "open_brace rest" if "open_brace s"
          using that unfolding open_brace_iff s(1) r by (metis append.assoc append_Cons)
        moreover have "open_brace s" if "open_brace rest"
        proof -
          from that obtain w b where "rest = w @ lbrace # b" "rbrace \<notin> set b" by (auto simp: open_brace_iff)
          then have "s = (a @ lbrace # v @ rbrace # w) @ lbrace # b" "rbrace \<notin> set b" using s r by auto
          then show ?thesis unfolding open_brace_iff by blast
        qed
        ultimately show ?thesis by blast
      qed
      ultimately show ?thesis
        using "1.IH" [OF \<open>split_once lbrace s = Some ar\<close> ar [symmetric] Some vr [symmetric]] by simp
    qed
  qed
qed

section \<open>The loop computes the reference\<close>

lemma split_once_drop:
  assumes "find_sub [lbrace] (drop k s) = Some lb" and "find_sub [rbrace] (drop (k + lb + 1) s) = Some rb"
  shows "expand f (drop k s) =
    map_option (\<lambda>t. take lb (drop k s) @ f (take rb (drop (k + lb + 1) s)) @ t) (expand f (drop (k + (rb + lb + 1) + 1) s))"
  using assms by (simp add: expand.simps [of _ "drop k s"] split_once_find ac_simps)

lemma loop_step:
  assumes "find_sub [lbrace] (drop k s) = Some lb" and "find_sub [rbrace] (drop (k + lb + 1) s) = Some rb"
  shows "placeholder_loop f s k out =
    (let out' = out @ take lb (drop k s) @ f (take rb (drop (k + lb + 1) s))
     in if rb + lb + 1 < length s - 1 then placeholder_loop f s (k + (rb + lb + 1) + 1) out' else Some out')"
  using assms by (simp add: placeholder_loop.simps [of f s k] ac_simps Let_def)

text \<open>Soundness, by fixed-point induction: whatever the loop returns is the expansion.\<close>

lemma placeholder_loop_sound:
  assumes "placeholder_loop f s k out = Some y"
  shows "k \<le> length s \<longrightarrow> (\<exists>t. expand f (drop k s) = Some t \<and> y = out @ t)"
proof (rule placeholder_loop.raw_induct [OF _ assms], rule impI, goal_cases)
  case (1 loop f s k out y)
  note IH = 1(1) and body = 1(2) and le = 1(3)
  show ?case
  proof (cases "find_sub [lbrace] (drop k s)")
    case None
    then show ?thesis using body by (simp add: expand.simps [of _ "drop k s"] split_once_find)
  next
    case lb: (Some lb)
    show ?thesis
    proof (cases "find_sub [rbrace] (drop (k + lb + 1) s)")
      case None
      then have "loop f s k (out @ drop k s) = Some y" using lb body by simp
      then obtain t where "expand f (drop k s) = Some t" using IH le by blast
      moreover have "expand f (drop k s) = None"
        using None lb by (simp add: expand.simps [of _ "drop k s"] split_once_find ac_simps)
      ultimately show ?thesis by simp
    next
      case rb: (Some rb)
      let ?out = "out @ take lb (drop k s) @ f (take rb (drop (k + lb + 1) s))"
      have bound: "k + lb + 1 + rb + 1 \<le> length s"
        using find_sub_bound [OF lb] find_sub_bound [OF rb] by simp
      show ?thesis
      proof (cases "rb + lb + 1 < length s - 1")
        case True
        then have "loop f s (k + (rb + lb + 1) + 1) ?out = Some y"
          using lb rb body by (simp add: Let_def ac_simps)
        then obtain t where "expand f (drop (k + (rb + lb + 1) + 1) s) = Some t" "y = ?out @ t"
          using IH [of f s "k + (rb + lb + 1) + 1" ?out y] bound by auto
        then show ?thesis by (simp add: split_once_drop [OF lb rb])
      next
        case False
        then have "y = ?out" using lb rb body by (simp add: Let_def ac_simps)
        moreover have "drop (k + (rb + lb + 1) + 1) s = []" using False bound by simp
        ultimately show ?thesis by (simp add: split_once_drop [OF lb rb] expand.simps [of _ "[]"])
      qed
    qed
  qed
qed

text \<open>Completeness, by induction on what is left: where the expansion exists, the loop returns it.\<close>

lemma placeholder_loop_complete:
  "expand f (drop k s) = Some t \<Longrightarrow> k \<le> length s \<Longrightarrow> placeholder_loop f s k out = Some (out @ t)"
proof (induction "length s - k" arbitrary: k t out rule: less_induct)
  case less
  show ?case
  proof (cases "find_sub [lbrace] (drop k s)")
    case None
    then show ?thesis using less.prems(1)
      by (simp add: placeholder_loop.simps [of f s k] expand.simps [of _ "drop k s"] split_once_find)
  next
    case lb: (Some lb)
    show ?thesis
    proof (cases "find_sub [rbrace] (drop (k + lb + 1) s)")
      case None
      then have "expand f (drop k s) = None"
        using lb by (simp add: expand.simps [of _ "drop k s"] split_once_find ac_simps)
      with less.prems(1) show ?thesis by simp
    next
      case rb: (Some rb)
      have bound: "k + lb + 1 + rb + 1 \<le> length s"
        using find_sub_bound [OF lb] find_sub_bound [OF rb] by simp
      obtain u where u: "expand f (drop (k + (rb + lb + 1) + 1) s) = Some u"
        "t = take lb (drop k s) @ f (take rb (drop (k + lb + 1) s)) @ u"
        using less.prems(1) split_once_drop [OF lb rb, of f] by auto
      show ?thesis
      proof (cases "rb + lb + 1 < length s - 1")
        case True
        have "placeholder_loop f s (k + (rb + lb + 1) + 1) o' = Some (o' @ u)" for o'
          by (rule less.hyps [OF _ u(1)]) (use bound in auto)
        with True u(2) show ?thesis by (simp add: loop_step [OF lb rb] Let_def)
      next
        case False
        then have "drop (k + (rb + lb + 1) + 1) s = []" using bound by simp
        with u(1) have "u = []" by (simp add: expand.simps [of _ "[]"])
        with False u(2) show ?thesis by (simp add: loop_step [OF lb rb] Let_def)
      qed
    qed
  qed
qed

lemma placeholder_loop_eq: "placeholder_loop f s 0 [] = expand f s"
proof (cases "expand f s")
  case None
  then show ?thesis using placeholder_loop_sound [of f s 0 "[]"] by (cases "placeholder_loop f s 0 []") auto
next
  case (Some t)
  then show ?thesis using placeholder_loop_complete [of f 0 s t "[]"] by simp
qed

lemma expand_append: "expand f a = Some x \<Longrightarrow> expand f (a @ b) = map_option ((@) x) (expand f b)"
proof (induction f a arbitrary: x rule: expand.induct)
  case (1 f s)
  show ?case
  proof (cases "split_once lbrace s")
    case None
    then have "x = s" using "1.prems" by (simp add: expand.simps [of _ s])
    have "lbrace \<notin> set s" using None by (simp add: split_once_None_iff)
    show ?thesis
    proof (cases "split_once lbrace b")
      case None
      then have "split_once lbrace (s @ b) = None" using \<open>lbrace \<notin> set s\<close> by (simp add: split_once_None_iff)
      then show ?thesis using None \<open>x = s\<close> by (simp add: expand.simps [of _ "s @ b"] expand.simps [of _ b])
    next
      case (Some ar)
      obtain a r where "ar = (a, r)" by (cases ar)
      with Some have "split_once lbrace (s @ b) = Some (s @ a, r)"
        using \<open>lbrace \<notin> set s\<close> by (auto simp: split_once_Some_iff)
      with Some \<open>ar = (a, r)\<close> \<open>x = s\<close> show ?thesis
        by (auto simp: expand.simps [of _ "s @ b"] expand.simps [of _ b] option.map_comp o_def split: option.splits)
    qed
  next
    case (Some ar)
    obtain a r where ar: "ar = (a, r)" by (cases ar)
    then obtain v rest where vr: "split_once rbrace r = Some (v, rest)"
      using "1.prems" Some by (auto simp: expand.simps [of _ s] split: option.splits)
    then obtain t where t: "expand f rest = Some t" "x = a @ f v @ t"
      using "1.prems" Some ar by (auto simp: expand.simps [of _ s])
    have "split_once lbrace (s @ b) = Some (a, r @ b)" using Some ar by (auto simp: split_once_Some_iff)
    moreover have "split_once rbrace (r @ b) = Some (v, rest @ b)" using vr by (auto simp: split_once_Some_iff)
    ultimately have "expand f (s @ b) = map_option (\<lambda>t. a @ f v @ t) (expand f (rest @ b))"
      by (simp add: expand.simps [of _ "s @ b"])
    then show ?thesis using "1.IH" [OF Some ar [symmetric] vr refl t(1)] t(2) by (simp add: option.map_comp o_def)
  qed
qed

lemma expand_const: "lbrace \<notin> set s \<Longrightarrow> expand f s = Some s"
  by (simp add: expand.simps [of _ s] split_once_None_iff [THEN iffD2])

lemma expand_placeholder: "rbrace \<notin> set v \<Longrightarrow> expand f ([lbrace] @ v @ [rbrace] @ s) = map_option ((@) (f v)) (expand f s)"
proof -
  assume "rbrace \<notin> set v"
  then have "split_once rbrace (v @ rbrace # s) = Some (v, s)" by (simp add: split_once_Some_iff)
  then show ?thesis by (simp add: expand.simps [of _ "lbrace # v @ rbrace # s"])
qed

section \<open>Properties\<close>

text \<open>
  C36: The header placeholder loop computes exactly the reference expansion, on every input: the text
  outside braces unchanged and in order, every \<open>{name}\<close> replaced by its value, once, from the left
  (a value is never scanned again).
\<close>

theorem replace_header_placeholders_expands:
  "replace_header_placeholders input parts sd = expand (header_placeholder parts sd) input"
  by (simp add: replace_header_placeholders_def placeholder_loop_eq)

text \<open>
  The log placeholder loop computes the reference expansion as well, on every log format.
\<close>

theorem replace_log_placeholders_expands:
  "replace_log_placeholders input parts d auth ts st len = expand (log_placeholder parts d auth ts st len) input"
  by (simp add: replace_log_placeholders_def placeholder_loop_eq)

text \<open>
  Replacing header placeholders fails to return exactly on the inputs in which some opening
  brace has no closing brace after it: there the loop appends the rest of the input again and again.
\<close>

theorem replace_header_placeholders_diverges_iff:
  "replace_header_placeholders input parts sd = None \<longleftrightarrow> (\<exists>a b. input = a @ lbrace # b \<and> rbrace \<notin> set b)"
  by (simp add: replace_header_placeholders_def placeholder_loop_eq expand_None_iff open_brace_iff)

text \<open>
  Log formats are expanded compositionally: for a first part whose braces are closed, the
  expansion of the whole is the expansion of the first part followed by that of the second, and a
  placeholder in front is replaced by its value.
\<close>

theorem replace_log_placeholders_compositional:
  assumes "\<not> open_brace a" and "rbrace \<notin> set v"
  shows "replace_log_placeholders (a @ [lbrace] @ v @ [rbrace] @ b) parts d auth ts st len =
    (case (replace_log_placeholders a parts d auth ts st len, replace_log_placeholders b parts d auth ts st len) of
       (Some x, Some y) \<Rightarrow> Some (x @ log_placeholder parts d auth ts st len v @ y)
     | _ \<Rightarrow> None)"
proof -
  let ?f = "log_placeholder parts d auth ts st len"
  obtain x where x: "expand ?f a = Some x" using assms(1) expand_None_iff [of ?f a] by auto
  have "expand ?f (a @ [lbrace] @ v @ [rbrace] @ b) = map_option (\<lambda>y. x @ ?f v @ y) (expand ?f b)"
    by (simp only: expand_append [OF x] expand_placeholder [OF assms(2)] option.map_comp o_def)
  then show ?thesis by (simp add: replace_log_placeholders_def placeholder_loop_eq x split: option.splits)
qed

definition example_parts :: request_parts where
  "example_parts = \<lparr>rp_method = ''GET'', rp_uri = \<lparr>uri_path = ''/a'', uri_query = None, uri_path_and_query = Some ''/a'',
     uri_host = None, uri_text = ''/a''\<rparr>, rp_version = HTTP_11, rp_headers = [(''host'', ''x'')]\<rparr>"

definition example_socket :: SocketData where
  "example_socket = \<lparr>remote_addr = \<lparr>sa_ip = V4 0x7F000001, sa_port = 4000\<rparr>,
     local_addr = \<lparr>sa_ip = V4 0x7F000001, sa_port = 80\<rparr>, encrypted = False\<rparr>"

theorem replace_log_placeholders_compositional_witness:
  "\<not> open_brace ''> '' \<and> rbrace \<notin> set ''method'' \<and>
   replace_log_placeholders ''> {method}!'' example_parts example_socket None [] 200 None = Some ''> GET!''"
proof -
  have h: "\<not> open_brace ''> ''" "rbrace \<notin> set ''method''" by (simp_all add: open_brace_def)
  show ?thesis
    using replace_log_placeholders_compositional [OF h, of "''!''" example_parts example_socket None "[]" 200 None] h
    by (simp add: replace_log_placeholders_def placeholder_loop_eq expand_const log_placeholder_def example_parts_def)
qed

end
