(* ===== verification/Q_Value.thy ===== *)
theory Q_Value
  imports Prelude
begin

text \<open>
  Quality values of request headers such as \<open>Accept-Language\<close>:
  \<open>ferron-common/src/util/parse_q_value_header.rs\<close>. An \<open>f32\<close> is its bit pattern, a 32-bit word, with
  \<open>partial_cmp\<close> written out on it; the decimal conversion of \<open>str::parse::<f32>\<close> is a parameter
  \<open>parse_f32\<close>, and the theorems hold for every such function. \<open>slice::sort_by\<close> promises an order only
  for a comparison that is total on the elements, which is the case when no value is a NaN.
\<close>

unbundle bit_operations_syntax

section \<open>Definitions\<close>

type_synonym f32 = "32 word"

definition f32_magnitude :: "f32 \<Rightarrow> int" where
  "f32_magnitude x = uint (x AND 0x7FFFFFFF)"

definition f32_is_nan :: "f32 \<Rightarrow> bool" where
  "f32_is_nan x \<longleftrightarrow> f32_magnitude x > 0x7F800000"

text \<open>A key with the order of the numbers; both zeros get \<open>0\<close>.\<close>

definition f32_key :: "f32 \<Rightarrow> int" where
  "f32_key x = (if x AND 0x80000000 = 0 then f32_magnitude x else - f32_magnitude x)"

definition f32_partial_cmp :: "f32 \<Rightarrow> f32 \<Rightarrow> cmp_result option" where
  "f32_partial_cmp a b = (if f32_is_nan a \<or> f32_is_nan b then None else Some (cmp_of (f32_key a) (f32_key b)))"

fun option_partial_cmp :: "('a \<Rightarrow> 'a \<Rightarrow> cmp_result option) \<Rightarrow> 'a option \<Rightarrow> 'a option \<Rightarrow> cmp_result option" where
  "option_partial_cmp c None None = Some Equal"
| "option_partial_cmp c None (Some b) = Some Less"
| "option_partial_cmp c (Some a) None = Some Greater"
| "option_partial_cmp c (Some a) (Some b) = c a b"

record HeaderValue =
  hv_value :: string
  hv_q_value :: "f32 option"

text \<open>\<open>HeaderValue::from_str\<close> always succeeds: \<open>split\<close> yields at least one part.\<close>

definition q_of_part :: "(string \<Rightarrow> f32 option) \<Rightarrow> string \<Rightarrow> f32" where
  "q_of_part parse_f32 part =
     (let text = (case strip_prefix ''q='' (trim part) of Some t \<Rightarrow> t | None \<Rightarrow> ''0'')
      in case parse_f32 text of Some q \<Rightarrow> q | None \<Rightarrow> 0)"

definition header_value_from_str :: "(string \<Rightarrow> f32 option) \<Rightarrow> string \<Rightarrow> HeaderValue option" where
  "header_value_from_str parse_f32 s =
     (case take 2 (split_on CHR '';'' s) of
        [] \<Rightarrow> None
      | [v] \<Rightarrow> Some \<lparr>hv_value = trim v, hv_q_value = None\<rparr>
      | v # part # _ \<Rightarrow> Some \<lparr>hv_value = trim v, hv_q_value = Some (q_of_part parse_f32 part)\<rparr>)"

definition f32_one :: f32 where
  "f32_one = 0x3F800000"

text \<open>The loop over \<open>values.iter_mut().rev()\<close>; the accumulator is \<open>last_some_q_value\<close>.\<close>

fun fill_step :: "HeaderValue \<Rightarrow> f32 option \<times> HeaderValue list \<Rightarrow> f32 option \<times> HeaderValue list" where
  "fill_step value (last_some_q_value, done) =
     (case hv_q_value value of
        None \<Rightarrow> (last_some_q_value,
          value\<lparr>hv_q_value := Some (case last_some_q_value of Some q \<Rightarrow> q | None \<Rightarrow> f32_one)\<rparr> # done)
      | Some q \<Rightarrow> (Some q, value # done))"

definition fill_q_values :: "HeaderValue list \<Rightarrow> HeaderValue list" where
  "fill_q_values values = snd (foldr fill_step values (None, []))"

definition q_order :: "HeaderValue \<Rightarrow> HeaderValue \<Rightarrow> cmp_result" where
  "q_order a b = (case option_partial_cmp f32_partial_cmp (hv_q_value b) (hv_q_value a) of Some c \<Rightarrow> c | None \<Rightarrow> Equal)"

definition header_values :: "(string \<Rightarrow> f32 option) \<Rightarrow> string \<Rightarrow> HeaderValue list" where
  "header_values parse_f32 header =
     List.map_filter (\<lambda>s. header_value_from_str parse_f32 (trim s)) (split_on CHR '','' header)"

definition parse_q_value_header :: "(string \<Rightarrow> f32 option) \<Rightarrow> string \<Rightarrow> string list" where
  "parse_q_value_header parse_f32 header =
     map hv_value (sort_by q_order (fill_q_values (header_values parse_f32 header)))"

section \<open>What the loop fills in\<close>

definition next_q :: "HeaderValue list \<Rightarrow> f32" where
  "next_q vs = (case find (\<lambda>v. hv_q_value v \<noteq> None) vs of Some v \<Rightarrow> the (hv_q_value v) | None \<Rightarrow> f32_one)"

lemma foldr_fill_step:
  "foldr fill_step vs (None, []) =
     (map_option (\<lambda>v. the (hv_q_value v)) (find (\<lambda>v. hv_q_value v \<noteq> None) vs),
      map (\<lambda>i. (vs ! i)\<lparr>hv_q_value := Some (next_q (drop i vs))\<rparr>) [0..<length vs])"
proof (induction vs)
  case Nil
  then show ?case by simp
next
  case (Cons v vs)
  have "map (\<lambda>i. ((v # vs) ! i)\<lparr>hv_q_value := Some (next_q (drop i (v # vs)))\<rparr>) [0..<length (v # vs)] =
      v\<lparr>hv_q_value := Some (next_q (v # vs))\<rparr> # map (\<lambda>i. (vs ! i)\<lparr>hv_q_value := Some (next_q (drop i vs))\<rparr>) [0..<length vs]"
    by (simp add: map_upt_Suc del: upt_Suc)
  then show ?case using Cons
    by (cases v; cases "hv_q_value v") (auto simp: next_q_def split: option.splits)
qed

lemma fill_q_values_eq:
  "fill_q_values vs = map (\<lambda>i. (vs ! i)\<lparr>hv_q_value := Some (next_q (drop i vs))\<rparr>) [0..<length vs]"
  by (simp add: fill_q_values_def foldr_fill_step)

lemma fill_q_values_values: "map hv_value (fill_q_values vs) = map hv_value vs"
  by (rule nth_equalityI) (auto simp: fill_q_values_eq)

section \<open>Sorting by quality\<close>

definition hv_key :: "HeaderValue \<Rightarrow> int" where
  "hv_key v = (case hv_q_value v of Some q \<Rightarrow> f32_key q | None \<Rightarrow> 0)"

definition has_number :: "HeaderValue \<Rightarrow> bool" where
  "has_number v \<longleftrightarrow> (case hv_q_value v of Some q \<Rightarrow> \<not> f32_is_nan q | None \<Rightarrow> False)"

interpretation qcmp: total_cmp "\<lambda>a b. cmp_of (- hv_key a) (- hv_key b)"
  by (rule total_cmp_vimage [OF total_cmp_of])

lemma q_order_key: "has_number a \<Longrightarrow> has_number b \<Longrightarrow> q_order a b = cmp_of (- hv_key a) (- hv_key b)"
  by (auto simp: q_order_def has_number_def hv_key_def f32_partial_cmp_def cmp_of_def split: option.splits)

lemma sort_by_q_order:
  assumes "\<forall>v \<in> set vs. has_number v"
  shows "sort_by q_order vs = sort_by (\<lambda>a b. cmp_of (- hv_key a) (- hv_key b)) vs"
  by (rule sort_by_cong) (use assms in \<open>simp add: q_order_key\<close>)

lemma sort_by_q_order_correct:
  assumes "\<forall>v \<in> set vs. has_number v"
  shows "sorted_wrt (\<lambda>a b. hv_key a \<ge> hv_key b) (sort_by q_order vs) \<and>
    filter (\<lambda>v. hv_key v = k) (sort_by q_order vs) = filter (\<lambda>v. hv_key v = k) vs"
proof -
  have "sorted_wrt (\<lambda>a b. hv_key a \<ge> hv_key b) (sort_by q_order vs)"
    unfolding sort_by_q_order [OF assms]
    by (rule sorted_wrt_mono_rel [OF _ qcmp.sorted_sort_by]) (auto simp: not_less)
  moreover have "filter (\<lambda>v. hv_key v = k) (sort_by q_order vs) = filter (\<lambda>v. hv_key v = k) vs"
  proof (cases "\<exists>a \<in> set vs. hv_key a = k")
    case True
    then obtain a where "hv_key a = k" by blast
    then show ?thesis using qcmp.sort_by_stable [of a vs] unfolding sort_by_q_order [OF assms] by simp
  next
    case False
    then have "filter (\<lambda>v. hv_key v = k) xs = []" if "set xs = set vs" for xs using that by (auto simp: filter_empty_conv)
    then show ?thesis by simp
  qed
  ultimately show ?thesis by simp
qed

lemma set_fill_q_values_number:
  assumes "\<forall>v \<in> set vs. \<forall>q. hv_q_value v = Some q \<longrightarrow> \<not> f32_is_nan q"
  shows "\<forall>v \<in> set (fill_q_values vs). has_number v"
proof -
  have one: "\<not> f32_is_nan f32_one" by code_simp
  have "\<not> f32_is_nan (next_q ws)" if "set ws \<subseteq> set vs" for ws
  proof (cases "find (\<lambda>v. hv_q_value v \<noteq> None) ws")
    case None
    then show ?thesis by (simp add: next_q_def one)
  next
    case (Some v)
    then have "v \<in> set ws" "hv_q_value v \<noteq> None" by (auto simp: find_Some_iff)
    with Some assms that show ?thesis by (auto simp: next_q_def)
  qed
  then show ?thesis by (auto simp: fill_q_values_eq has_number_def dest: in_set_dropD)
qed

section \<open>Properties\<close>

text \<open>
  Parsing a quality-value header loses and invents nothing: the result is a permutation of
  the trimmed texts before the first semicolon of each comma-separated item.
\<close>

theorem parse_q_value_header_permutation:
  "mset (parse_q_value_header parse_f32 header) =
     mset (map (\<lambda>s. trim (hd (split_on CHR '';'' (trim s)))) (split_on CHR '','' header))"
proof -
  have parsed: "\<exists>q. header_value_from_str parse_f32 s = Some \<lparr>hv_value = trim (hd (split_on CHR '';'' s)), hv_q_value = q\<rparr>" for s
  proof -
    obtain v vs where "split_on CHR '';'' s = v # vs" by (cases "split_on CHR '';'' s") auto
    then show ?thesis by (cases vs) (auto simp: header_value_from_str_def)
  qed
  have "map hv_value (List.map_filter (\<lambda>s. header_value_from_str parse_f32 (trim s)) ss) =
      map (\<lambda>s. trim (hd (split_on CHR '';'' (trim s)))) ss" for ss
  proof (induction ss)
    case (Cons s ss)
    obtain q where "header_value_from_str parse_f32 (trim s) =
        Some \<lparr>hv_value = trim (hd (split_on CHR '';'' (trim s))), hv_q_value = q\<rparr>" using parsed by blast
    with Cons show ?case by (simp add: List.map_filter_simps)
  qed (simp add: List.map_filter_simps)
  then have "map hv_value (header_values parse_f32 header) =
      map (\<lambda>s. trim (hd (split_on CHR '';'' (trim s)))) (split_on CHR '','' header)"
    unfolding header_values_def .
  moreover have "mset (parse_q_value_header parse_f32 header) = mset (map hv_value (header_values parse_f32 header))"
    unfolding parse_q_value_header_def mset_map mset_sort_by
    by (simp only: mset_map [symmetric] fill_q_values_values)
  ultimately show ?thesis by simp
qed

text \<open>
  When no quality value is a NaN, the result lists the values by falling quality, values of equal
  quality in the order of the header, where an item without a quality counts with the next given
  quality to its right and with 1 when there is none.
\<close>

theorem parse_q_value_header_sorted:
  assumes "\<forall>v \<in> set (header_values parse_f32 header). \<forall>q. hv_q_value v = Some q \<longrightarrow> \<not> f32_is_nan q"
  shows "let vs = header_values parse_f32 header;
             weighted = map (\<lambda>i. (vs ! i)\<lparr>hv_q_value := Some (next_q (drop i vs))\<rparr>) [0..<length vs]
         in \<exists>ws. parse_q_value_header parse_f32 header = map hv_value ws \<and> mset ws = mset weighted \<and>
              sorted_wrt (\<lambda>a b. hv_key a \<ge> hv_key b) ws \<and>
              (\<forall>k. filter (\<lambda>v. hv_key v = k) ws = filter (\<lambda>v. hv_key v = k) weighted)"
proof -
  let ?w = "fill_q_values (header_values parse_f32 header)"
  have n: "\<forall>v \<in> set ?w. has_number v" by (rule set_fill_q_values_number [OF assms])
  have "parse_q_value_header parse_f32 header = map hv_value (sort_by q_order ?w)"
    by (simp add: parse_q_value_header_def)
  moreover have "mset (sort_by q_order ?w) = mset ?w" by simp
  ultimately show ?thesis using sort_by_q_order_correct [OF n]
    unfolding Let_def fill_q_values_eq [symmetric] by blast
qed

definition parse_tenths :: "string \<Rightarrow> f32 option" where
  "parse_tenths s = (if s = ''0.5'' then Some 0x3F000000 else if s = ''0.8'' then Some 0x3F4CCCCD else None)"

theorem parse_q_value_header_sorted_witness:
  "list_all (\<lambda>v. \<forall>q. hv_q_value v = Some q \<longrightarrow> \<not> f32_is_nan q) (header_values parse_tenths ''a;q=0.5,b;q=0.8'') \<and>
   parse_q_value_header parse_tenths ''a;q=0.5,b;q=0.8'' = [''b'', ''a'']"
proof -
  have v: "header_values parse_tenths ''a;q=0.5,b;q=0.8'' =
      [\<lparr>hv_value = ''a'', hv_q_value = Some 0x3F000000\<rparr>, \<lparr>hv_value = ''b'', hv_q_value = Some 0x3F4CCCCD\<rparr>]" by code_simp
  have h: "\<forall>v \<in> set (header_values parse_tenths ''a;q=0.5,b;q=0.8''). \<forall>q. hv_q_value v = Some q \<longrightarrow> \<not> f32_is_nan q"
    unfolding v by (simp, code_simp)
  have "parse_q_value_header parse_tenths ''a;q=0.5,b;q=0.8'' = [''b'', ''a'']" by code_simp
  with h parse_q_value_header_sorted [OF h] show ?thesis by (simp add: list_all_iff)
qed

end
