(* ===== verification/Config_Types.thy ===== *)
theory Config_Types
  imports Ip_Blocklist Http "HOL-Library.AList"
begin

text \<open>
  The configuration data model, \<open>ferron-common/src/config.rs\<close>, and the accessor macros of
  \<open>ferron-common/src/util/config_macros.rs\<close>. The derived and hand-written \<open>PartialEq\<close>, \<open>Ord\<close> and \<open>Hash\<close>
  implementations are functions of their own, since several of them differ from structural
  equality. A \<open>HashMap\<close> is the association list of its entries in iteration order (no theorem
  depends on that order), an \<open>f64\<close> its bit pattern. A compiled regular expression is its source and
  its case flag; a Rego engine is its policy text: the two crates' functions are parameters of the
  definitions that call them.
\<close>

unbundle bit_operations_syntax

type_synonym f64 = "64 word"
type_synonym 'v hashmap = "(string \<times> 'v) list"

section \<open>Values\<close>

datatype ServerConfigurationValue =
    VString string | VInteger int | VFloat f64 | VBool bool | VNull

fun is_string :: "ServerConfigurationValue \<Rightarrow> bool" where
  "is_string (VString s) = True" | "is_string _ = False"

fun is_integer :: "ServerConfigurationValue \<Rightarrow> bool" where
  "is_integer (VInteger i) = True" | "is_integer _ = False"

fun is_float :: "ServerConfigurationValue \<Rightarrow> bool" where
  "is_float (VFloat f) = True" | "is_float _ = False"

fun is_bool :: "ServerConfigurationValue \<Rightarrow> bool" where
  "is_bool (VBool b) = True" | "is_bool _ = False"

fun is_null :: "ServerConfigurationValue \<Rightarrow> bool" where
  "is_null VNull = True" | "is_null _ = False"

fun as_str :: "ServerConfigurationValue \<Rightarrow> string option" where
  "as_str (VString s) = Some s" | "as_str _ = None"

fun as_i128 :: "ServerConfigurationValue \<Rightarrow> int option" where
  "as_i128 (VInteger i) = Some i" | "as_i128 _ = None"

fun as_f64 :: "ServerConfigurationValue \<Rightarrow> f64 option" where
  "as_f64 (VFloat f) = Some f" | "as_f64 _ = None"

fun as_bool :: "ServerConfigurationValue \<Rightarrow> bool option" where
  "as_bool (VBool b) = Some b" | "as_bool _ = None"

text \<open>IEEE 754 doubles by their bits.\<close>

definition f64_nan :: f64 where "f64_nan = 0x7FF8000000000000"
definition f64_infinity :: f64 where "f64_infinity = 0x7FF0000000000000"
definition f64_neg_infinity :: f64 where "f64_neg_infinity = 0xFFF0000000000000"
definition f64_max :: f64 where "f64_max = 0x7FEFFFFFFFFFFFFF"
definition f64_neg_max :: f64 where "f64_neg_max = 0xFFEFFFFFFFFFFFFF"

definition f64_magnitude :: "f64 \<Rightarrow> f64" where
  "f64_magnitude x = x AND 0x7FFFFFFFFFFFFFFF"

definition f64_is_nan :: "f64 \<Rightarrow> bool" where
  "f64_is_nan x \<longleftrightarrow> f64_magnitude x > f64_infinity"

definition f64_eq :: "f64 \<Rightarrow> f64 \<Rightarrow> bool" where
  "f64_eq a b \<longleftrightarrow> \<not> f64_is_nan a \<and> \<not> f64_is_nan b \<and> (a = b \<or> f64_magnitude a = 0 \<and> f64_magnitude b = 0)"

definition float_for_eq :: "f64 \<Rightarrow> f64" where
  "float_for_eq x =
     (if f64_eq x f64_neg_infinity then f64_neg_max
      else if f64_eq x f64_infinity then f64_max
      else if f64_is_nan x then 0
      else x)"

fun value_discriminant :: "ServerConfigurationValue \<Rightarrow> nat" where
  "value_discriminant (VString _) = 0"
| "value_discriminant (VInteger _) = 1"
| "value_discriminant (VFloat _) = 2"
| "value_discriminant (VBool _) = 3"
| "value_discriminant VNull = 4"

fun value_eq :: "ServerConfigurationValue \<Rightarrow> ServerConfigurationValue \<Rightarrow> bool" where
  "value_eq (VBool l) (VBool r) = (l = r)"
| "value_eq (VInteger l) (VInteger r) = (l = r)"
| "value_eq (VFloat l) (VFloat r) = f64_eq (float_for_eq l) (float_for_eq r)"
| "value_eq (VString l) (VString r) = (l = r)"
| "value_eq a b = (value_discriminant a = value_discriminant b)"

text \<open>What \<open>Hash\<close> feeds to the hasher.\<close>

datatype hash_item = HTag nat | HString string | HInt int | HBits f64 | HBool bool | HLen nat

fun value_hash :: "ServerConfigurationValue \<Rightarrow> hash_item list" where
  "value_hash (VString s) = [HTag 0, HString s]"
| "value_hash (VInteger i) = [HTag 1, HInt i]"
| "value_hash (VFloat f) = [HTag 2, HBits (if f64_is_nan f then f64_nan else f)]"
| "value_hash (VBool b) = [HTag 3, HBool b]"
| "value_hash VNull = [HTag 4]"

section \<open>Entries\<close>

record ServerConfigurationEntry =
  entry_values :: "ServerConfigurationValue list"
  entry_props :: "ServerConfigurationValue hashmap"

definition hashmap_eq :: "('v \<Rightarrow> 'v \<Rightarrow> bool) \<Rightarrow> 'v hashmap \<Rightarrow> 'v hashmap \<Rightarrow> bool" where
  "hashmap_eq eq a b \<longleftrightarrow> length a = length b \<and>
     list_all (\<lambda>(k, v). case map_of b k of Some w \<Rightarrow> eq v w | None \<Rightarrow> False) a"

definition entry_eq :: "ServerConfigurationEntry \<Rightarrow> ServerConfigurationEntry \<Rightarrow> bool" where
  "entry_eq a b \<longleftrightarrow> list_all2 value_eq (entry_values a) (entry_values b) \<and>
     hashmap_eq value_eq (entry_props a) (entry_props b)"

definition entry_hash :: "ServerConfigurationEntry \<Rightarrow> hash_item list" where
  "entry_hash e =
     HLen (length (entry_values e)) # concat (map value_hash (entry_values e)) @
     (let props_vec = sort_by (\<lambda>a b. cmp_string (fst a) (fst b)) (entry_props e)
      in HLen (length props_vec) # concat (map (\<lambda>(k, v). HString k # value_hash v) props_vec))"

text \<open>\<open>ServerConfigurationEntries\<close> wraps the vector of entries of one property.\<close>

type_synonym entries = "ServerConfigurationEntry list"

definition get_value :: "entries \<Rightarrow> ServerConfigurationValue option" where
  "get_value es = (if es = [] then None else case entry_values (last es) of [] \<Rightarrow> None | v # _ \<Rightarrow> Some v)"

definition get_entry :: "entries \<Rightarrow> ServerConfigurationEntry option" where
  "get_entry es = (if es = [] then None else Some (last es))"

definition get_values :: "entries \<Rightarrow> ServerConfigurationValue list" where
  "get_values es = foldl (\<lambda>acc e. acc @ entry_values e) [] es"

section \<open>Conditions\<close>

record regex =
  re_source :: string
  re_case_insensitive :: bool

datatype ConditionalData =
    IsRemoteIp IpBlockList
  | IsForwardedFor IpBlockList
  | IsNotRemoteIp IpBlockList
  | IsNotForwardedFor IpBlockList
  | IsEqual string string
  | IsNotEqual string string
  | IsRegex string regex
  | IsNotRegex string regex
  | IsRego string
  | SetConstant string string
  | IsLanguage string

fun condition_eq :: "ConditionalData \<Rightarrow> ConditionalData \<Rightarrow> bool" where
  "condition_eq (IsRemoteIp v1) b = (case b of IsRemoteIp v2 \<Rightarrow> blocklist_eq v1 v2 | _ \<Rightarrow> False)"
| "condition_eq (IsForwardedFor v1) b = (case b of IsForwardedFor v2 \<Rightarrow> blocklist_eq v1 v2 | _ \<Rightarrow> False)"
| "condition_eq (IsNotRemoteIp v1) b = (case b of IsNotRemoteIp v2 \<Rightarrow> blocklist_eq v1 v2 | _ \<Rightarrow> False)"
| "condition_eq (IsNotForwardedFor v1) b = (case b of IsNotForwardedFor v2 \<Rightarrow> blocklist_eq v1 v2 | _ \<Rightarrow> False)"
| "condition_eq (IsEqual v1 v2) b = (case b of IsEqual v3 v4 \<Rightarrow> (v1 = v3 \<and> v2 = v4) | _ \<Rightarrow> False)"
| "condition_eq (IsNotEqual v1 v2) b = (case b of IsNotEqual v3 v4 \<Rightarrow> (v1 = v3 \<and> v2 = v4) | _ \<Rightarrow> False)"
| "condition_eq (IsRegex v1 v2) b = (case b of IsRegex v3 v4 \<Rightarrow> (v1 = v3 \<and> re_source v2 = re_source v4) | _ \<Rightarrow> False)"
| "condition_eq (IsNotRegex v1 v2) b = (case b of IsNotRegex v3 v4 \<Rightarrow> (v1 = v3 \<and> re_source v2 = re_source v4) | _ \<Rightarrow> False)"
| "condition_eq (IsRego v1) b = (case b of IsRego v2 \<Rightarrow> (v1 = v2) | _ \<Rightarrow> False)"
| "condition_eq (SetConstant v1 v2) b = (case b of SetConstant v3 v4 \<Rightarrow> (v1 = v3 \<and> v2 = v4) | _ \<Rightarrow> False)"
| "condition_eq (IsLanguage v1) b = (case b of IsLanguage v2 \<Rightarrow> (v1 = v2) | _ \<Rightarrow> False)"

fun condition_discriminant :: "ConditionalData \<Rightarrow> nat" where
  "condition_discriminant (IsRemoteIp _) = 0"
| "condition_discriminant (IsForwardedFor _) = 1"
| "condition_discriminant (IsNotRemoteIp _) = 2"
| "condition_discriminant (IsNotForwardedFor _) = 3"
| "condition_discriminant (IsEqual _ _) = 4"
| "condition_discriminant (IsNotEqual _ _) = 5"
| "condition_discriminant (IsRegex _ _) = 6"
| "condition_discriminant (IsNotRegex _ _) = 7"
| "condition_discriminant (IsRego _) = 8"
| "condition_discriminant (SetConstant _ _) = 9"
| "condition_discriminant (IsLanguage _) = 10"

definition discriminant_cmp :: "ConditionalData \<Rightarrow> ConditionalData \<Rightarrow> cmp_result" where
  "discriminant_cmp a b = cmp_of (condition_discriminant a) (condition_discriminant b)"

fun condition_cmp :: "ConditionalData \<Rightarrow> ConditionalData \<Rightarrow> cmp_result" where
  "condition_cmp (IsRemoteIp v1) b = (case b of IsRemoteIp v2 \<Rightarrow> blocklist_cmp v1 v2 | _ \<Rightarrow> discriminant_cmp (IsRemoteIp v1) b)"
| "condition_cmp (IsForwardedFor v1) b = (case b of IsForwardedFor v2 \<Rightarrow> blocklist_cmp v1 v2 | _ \<Rightarrow> discriminant_cmp (IsForwardedFor v1) b)"
| "condition_cmp (IsNotRemoteIp v1) b = (case b of IsNotRemoteIp v2 \<Rightarrow> blocklist_cmp v1 v2 | _ \<Rightarrow> discriminant_cmp (IsNotRemoteIp v1) b)"
| "condition_cmp (IsNotForwardedFor v1) b = (case b of IsNotForwardedFor v2 \<Rightarrow> blocklist_cmp v1 v2 | _ \<Rightarrow> discriminant_cmp (IsNotForwardedFor v1) b)"
| "condition_cmp (IsEqual v1 v2) b = (case b of IsEqual v3 v4 \<Rightarrow> then_with (cmp_string v1 v3) (cmp_string v2 v4) | _ \<Rightarrow> discriminant_cmp (IsEqual v1 v2) b)"
| "condition_cmp (IsNotEqual v1 v2) b = (case b of IsNotEqual v3 v4 \<Rightarrow> then_with (cmp_string v1 v3) (cmp_string v2 v4) | _ \<Rightarrow> discriminant_cmp (IsNotEqual v1 v2) b)"
| "condition_cmp (IsRegex v1 v2) b = (case b of IsRegex v3 v4 \<Rightarrow> then_with (cmp_string v1 v3) (cmp_string (re_source v2) (re_source v4)) | _ \<Rightarrow> discriminant_cmp (IsRegex v1 v2) b)"
| "condition_cmp (IsNotRegex v1 v2) b = (case b of IsNotRegex v3 v4 \<Rightarrow> then_with (cmp_string v1 v3) (cmp_string (re_source v2) (re_source v4)) | _ \<Rightarrow> discriminant_cmp (IsNotRegex v1 v2) b)"
| "condition_cmp (IsRego v1) b = (case b of IsRego v2 \<Rightarrow> cmp_string v1 v2 | _ \<Rightarrow> discriminant_cmp (IsRego v1) b)"
| "condition_cmp (SetConstant v1 v2) b = (case b of SetConstant v3 v4 \<Rightarrow> then_with (cmp_string v1 v3) (cmp_string v2 v4) | _ \<Rightarrow> discriminant_cmp (SetConstant v1 v2) b)"
| "condition_cmp (IsLanguage v1) b = discriminant_cmp (IsLanguage v1) b"

datatype Conditional = If "ConditionalData list" | IfNot "ConditionalData list"

fun conditional_eq :: "Conditional \<Rightarrow> Conditional \<Rightarrow> bool" where
  "conditional_eq (If a) (If b) = list_all2 condition_eq a b"
| "conditional_eq (IfNot a) (IfNot b) = list_all2 condition_eq a b"
| "conditional_eq _ _ = False"

fun conditional_cmp :: "Conditional \<Rightarrow> Conditional \<Rightarrow> cmp_result" where
  "conditional_cmp (If a) (If b) = cmp_list condition_cmp a b"
| "conditional_cmp (IfNot a) (IfNot b) = cmp_list condition_cmp a b"
| "conditional_cmp (If a) (IfNot b) = Less"
| "conditional_cmp (IfNot a) (If b) = Greater"

fun slash_count :: "bool \<Rightarrow> string \<Rightarrow> nat" where
  "slash_count prev_was_slash [] = 0"
| "slash_count prev_was_slash (ch # cs) =
     (if ch = CHR ''/'' then (if prev_was_slash then slash_count True cs else Suc (slash_count True cs))
      else slash_count False cs)"

definition count_logical_slashes :: "string \<Rightarrow> nat" where
  "count_logical_slashes s =
     (if s = [] then 0
      else let trimmed = trim_end_matches CHR ''/'' s
           in if trimmed = [] then 0 else slash_count False trimmed)"

record Conditions =
  location_prefix :: string
  conditionals :: "Conditional list"

definition conditions_eq :: "Conditions \<Rightarrow> Conditions \<Rightarrow> bool" where
  "conditions_eq a b \<longleftrightarrow> location_prefix a = location_prefix b \<and> list_all2 conditional_eq (conditionals a) (conditionals b)"

definition conditions_cmp :: "Conditions \<Rightarrow> Conditions \<Rightarrow> cmp_result" where
  "conditions_cmp a b =
     then_with (cmp_of (count_logical_slashes (location_prefix a)) (count_logical_slashes (location_prefix b)))
       (cmp_of (length (conditionals a)) (length (conditionals b)))"

section \<open>Filters and configurations\<close>

datatype ErrorHandlerStatus = Any | Status u16

record ServerConfigurationFilters =
  is_host :: bool
  hostname :: "string option"
  ip :: "IpAddr option"
  port :: "u16 option"
  condition :: "Conditions option"
  error_handler_status :: "ErrorHandlerStatus option"

definition is_global :: "ServerConfigurationFilters \<Rightarrow> bool" where
  "is_global f \<longleftrightarrow> is_host f \<and> hostname f = None \<and> ip f = None \<and> port f = None \<and> condition f = None \<and>
     error_handler_status f = None"

definition is_global_non_host :: "ServerConfigurationFilters \<Rightarrow> bool" where
  "is_global_non_host f \<longleftrightarrow> \<not> is_host f"

fun option_eq :: "('a \<Rightarrow> 'a \<Rightarrow> bool) \<Rightarrow> 'a option \<Rightarrow> 'a option \<Rightarrow> bool" where
  "option_eq eq None None = True"
| "option_eq eq (Some a) (Some b) = eq a b"
| "option_eq eq _ _ = False"

definition filters_eq :: "ServerConfigurationFilters \<Rightarrow> ServerConfigurationFilters \<Rightarrow> bool" where
  "filters_eq a b \<longleftrightarrow> is_host a = is_host b \<and> hostname a = hostname b \<and> ip a = ip b \<and> port a = port b \<and>
     option_eq conditions_eq (condition a) (condition b) \<and> error_handler_status a = error_handler_status b"

definition domain_level :: "string \<Rightarrow> nat" where
  "domain_level h = length (filter (\<lambda>c. c = CHR ''.'') (trim_end_matches CHR ''.'' h))"

definition filters_cmp :: "ServerConfigurationFilters \<Rightarrow> ServerConfigurationFilters \<Rightarrow> cmp_result" where
  "filters_cmp a b =
     then_with (cmp_of (is_host a) (is_host b))
    (then_with (cmp_of (port a \<noteq> None) (port b \<noteq> None))
    (then_with (cmp_of (ip a \<noteq> None) (ip b \<noteq> None))
    (then_with (cmp_option cmp_of (map_option (\<lambda>h. \<not> starts_with ''*.'' h) (hostname a))
                                  (map_option (\<lambda>h. \<not> starts_with ''*.'' h) (hostname b)))
    (then_with (cmp_option cmp_of (map_option domain_level (hostname a)) (map_option domain_level (hostname b)))
    (then_with (cmp_option conditions_cmp (condition a) (condition b))
               (cmp_of (error_handler_status a \<noteq> None) (error_handler_status b \<noteq> None)))))))"

text \<open>\<open>Display\<close> of the filters, used in error messages.\<close>

definition quoted :: "string \<Rightarrow> string" where
  "quoted s = CHR 0x22 # s @ [CHR 0x22]"

definition host_block_name :: "ServerConfigurationFilters \<Rightarrow> string" where
  "host_block_name f =
     (case hostname f of
        Some h \<Rightarrow> h @ (case ip f of Some a \<Rightarrow> ''('' @ ip_to_string a @ '')'' | None \<Rightarrow> [])
      | None \<Rightarrow> (case ip f of Some a \<Rightarrow> ip_to_string a | None \<Rightarrow> [])) @
     (case port f of Some p \<Rightarrow> '':'' @ dec_str (uint p) | None \<Rightarrow> [])"

definition condition_block_name :: "Conditions \<Rightarrow> string" where
  "condition_block_name c =
     (let name = (if location_prefix c \<noteq> [] then quoted (location_prefix c) @ '' location'' else [])
      in if conditionals c \<noteq> [] then name @ (if name \<noteq> [] then '' and '' else []) @ ''some conditional blocks''
         else name @ '' block'')"

definition filters_display :: "ServerConfigurationFilters \<Rightarrow> string" where
  "filters_display f =
     (if \<not> is_host f then quoted ''globals'' @ '' block''
      else let host = (if (ip f \<noteq> None \<or> hostname f \<noteq> None \<or> port f \<noteq> None) \<and> host_block_name f \<noteq> []
                       then [quoted (host_block_name f) @ '' host block''] else []);
               cond = (case condition f of Some c \<Rightarrow> [condition_block_name c] | None \<Rightarrow> []);
               err = (case error_handler_status f of
                   Some Any \<Rightarrow> [quoted ''error_status'' @ '' block'']
                 | Some (Status s) \<Rightarrow> [quoted (''error_status '' @ dec_str (uint s)) @ '' block'']
                 | None \<Rightarrow> [])
           in join_with '' -> '' (host @ cond @ err))"

text \<open>
  A configuration holds its loaded modules (of a type of their own) and the observability
  channels, three vectors of senders.
\<close>

record ('l, 'me, 't) ObservabilityBackendChannels =
  log_channels :: "'l list"
  metric_channels :: "'me list"
  trace_channels :: "'t list"

definition channels_new :: "('l, 'me, 't) ObservabilityBackendChannels" where
  "channels_new = \<lparr>log_channels = [], metric_channels = [], trace_channels = []\<rparr>"

definition add_log_channel :: "'l \<Rightarrow> ('l, 'me, 't) ObservabilityBackendChannels \<Rightarrow> ('l, 'me, 't) ObservabilityBackendChannels" where
  "add_log_channel ch o' = o'\<lparr>log_channels := log_channels o' @ [ch]\<rparr>"

definition add_metric_channel :: "'me \<Rightarrow> ('l, 'me, 't) ObservabilityBackendChannels \<Rightarrow> ('l, 'me, 't) ObservabilityBackendChannels" where
  "add_metric_channel ch o' = o'\<lparr>metric_channels := metric_channels o' @ [ch]\<rparr>"

definition add_trace_channel :: "'t \<Rightarrow> ('l, 'me, 't) ObservabilityBackendChannels \<Rightarrow> ('l, 'me, 't) ObservabilityBackendChannels" where
  "add_trace_channel ch o' = o'\<lparr>trace_channels := trace_channels o' @ [ch]\<rparr>"

record ('m, 'o) ServerConfiguration =
  sc_entries :: "entries hashmap"
  sc_filters :: ServerConfigurationFilters
  sc_modules :: "'m list"
  sc_observability :: 'o

text \<open>The configuration without any property, for the examples of the modules.\<close>

definition default_config :: "(unit, unit) ServerConfiguration" where
  "default_config = \<lparr>sc_entries = [], sc_filters = \<lparr>is_host = True, hostname = None, ip = None, port = None, condition = None,
     error_handler_status = None\<rparr>, sc_modules = [], sc_observability = ()\<rparr>"

section \<open>Accessor macros\<close>

definition get_entries_m :: "string \<Rightarrow> ('m, 'o) ServerConfiguration \<Rightarrow> entries option" where
  "get_entries_m name config =
     Option.bind (map_of (sc_entries config) name) (\<lambda>value. map_option (\<lambda>_. value) (get_value value))"

definition get_entry_m :: "string \<Rightarrow> ('m, 'o) ServerConfiguration \<Rightarrow> ServerConfigurationEntry option" where
  "get_entry_m name config = Option.bind (get_entries_m name config) get_entry"

definition get_value_m :: "string \<Rightarrow> ('m, 'o) ServerConfiguration \<Rightarrow> ServerConfigurationValue option" where
  "get_value_m name config = Option.bind (get_entries_m name config) get_value"

definition get_values_m :: "string \<Rightarrow> ('m, 'o) ServerConfiguration \<Rightarrow> ServerConfigurationValue list" where
  "get_values_m name config = (case get_entries_m name config of None \<Rightarrow> [] | Some v \<Rightarrow> get_values v)"

definition get_entries_for_validation ::
  "string \<Rightarrow> ('m, 'o) ServerConfiguration \<Rightarrow> string set \<Rightarrow> entries option \<times> string set" where
  "get_entries_for_validation name config used =
     (get_entries_m name config, if map_of (sc_entries config) name = None then used else insert name used)"

definition get_values_for_validation ::
  "string \<Rightarrow> ('m, 'o) ServerConfiguration \<Rightarrow> string set \<Rightarrow> ServerConfigurationValue list \<times> string set" where
  "get_values_for_validation name config used =
     (get_values_m name config, if map_of (sc_entries config) name = None then used else insert name used)"

section \<open>Orders and equalities\<close>

text \<open>The order of conditions is lexicographic in the discriminant and the payload.\<close>

fun condition_lists :: "ConditionalData \<Rightarrow> IpBlockList" where
  "condition_lists (IsRemoteIp l) = l"
| "condition_lists (IsForwardedFor l) = l"
| "condition_lists (IsNotRemoteIp l) = l"
| "condition_lists (IsNotForwardedFor l) = l"
| "condition_lists _ = blocklist_new"

fun condition_texts :: "ConditionalData \<Rightarrow> string \<times> string" where
  "condition_texts (IsEqual a b) = (a, b)"
| "condition_texts (IsNotEqual a b) = (a, b)"
| "condition_texts (IsRegex a r) = (a, re_source r)"
| "condition_texts (IsNotRegex a r) = (a, re_source r)"
| "condition_texts (IsRego a) = (a, [])"
| "condition_texts (SetConstant a b) = (a, b)"
| "condition_texts _ = ([], [])"

lemma blocklist_cmp_refl [simp]: "blocklist_cmp l l = Equal"
  by (rule total_cmp.cmp_refl [OF total_cmp_blocklist])

lemma cmp_string_refl [simp]: "cmp_string s s = Equal"
  by simp

lemma condition_cmp_lexicographic:
  "condition_cmp a b =
     then_with (discriminant_cmp a b)
    (then_with (blocklist_cmp (condition_lists a) (condition_lists b))
               (cmp_pair cmp_string cmp_string (condition_texts a) (condition_texts b)))"
  by (cases a; cases b) (simp_all add: discriminant_cmp_def cmp_of_def cmp_pair_def del: cmp_string_Equal_iff)

lemma total_cmp_condition: "total_cmp condition_cmp"
proof -
  have "total_cmp (\<lambda>a b. then_with (discriminant_cmp a b)
      (then_with (blocklist_cmp (condition_lists a) (condition_lists b))
        (cmp_pair cmp_string cmp_string (condition_texts a) (condition_texts b))))"
    unfolding discriminant_cmp_def
    by (rule total_cmp_then_with [OF total_cmp_vimage [OF total_cmp_of]
          total_cmp_then_with [OF total_cmp_vimage [OF total_cmp_blocklist]
            total_cmp_vimage [OF total_cmp_pair [OF total_cmp_string total_cmp_string]]]])
  moreover have "(\<lambda>a b. then_with (discriminant_cmp a b)
      (then_with (blocklist_cmp (condition_lists a) (condition_lists b))
        (cmp_pair cmp_string cmp_string (condition_texts a) (condition_texts b)))) = condition_cmp"
    by (intro ext) (rule condition_cmp_lexicographic [symmetric])
  ultimately show ?thesis by simp
qed

fun conditional_parts :: "Conditional \<Rightarrow> bool \<times> ConditionalData list" where
  "conditional_parts (If ds) = (False, ds)"
| "conditional_parts (IfNot ds) = (True, ds)"

lemma total_cmp_conditional: "total_cmp conditional_cmp"
proof -
  have eq: "conditional_cmp = (\<lambda>a b. cmp_pair cmp_of (cmp_list condition_cmp) (conditional_parts a) (conditional_parts b))"
  proof (intro ext)
    show "conditional_cmp a b = cmp_pair cmp_of (cmp_list condition_cmp) (conditional_parts a) (conditional_parts b)"
      for a b by (cases a; cases b) (simp_all add: cmp_pair_def cmp_of_def)
  qed
  show ?thesis unfolding eq
    by (rule total_cmp_vimage [OF total_cmp_pair [OF total_cmp_of total_cmp_list [OF total_cmp_condition]]])
qed

lemma total_cmp_conditions: "total_cmp conditions_cmp"
  unfolding conditions_cmp_def
  by (rule total_cmp_then_with [OF total_cmp_vimage [OF total_cmp_of] total_cmp_vimage [OF total_cmp_of]])

text \<open>The specificity of filters is a total preorder, as the sorts by it require.\<close>

interpretation fcmp: total_cmp filters_cmp
  unfolding filters_cmp_def
  by (intro total_cmp_then_with total_cmp_vimage [OF total_cmp_of, of is_host]
      total_cmp_vimage [OF total_cmp_of, of "\<lambda>f. port f \<noteq> None"]
      total_cmp_vimage [OF total_cmp_of, of "\<lambda>f. ip f \<noteq> None"]
      total_cmp_vimage [OF total_cmp_option [OF total_cmp_of], of "\<lambda>f. map_option (\<lambda>h. \<not> starts_with ''*.'' h) (hostname f)"]
      total_cmp_vimage [OF total_cmp_option [OF total_cmp_of], of "\<lambda>f. map_option domain_level (hostname f)"]
      total_cmp_vimage [OF total_cmp_option [OF total_cmp_conditions], of condition]
      total_cmp_vimage [OF total_cmp_of, of "\<lambda>f. error_handler_status f \<noteq> None"])

interpretation scmp: total_cmp "\<lambda>a b. filters_cmp (sc_filters a) (sc_filters b)"
  by (rule total_cmp_vimage [OF fcmp.total_cmp_axioms])

lemma option_eq_refl: "(\<And>a. eq a a) \<Longrightarrow> option_eq eq x x"
  by (cases x) auto

lemma condition_eq_refl [simp]: "condition_eq d d"
  by (cases d) (auto simp: blocklist_eq_def)

lemma condition_eq_sym: "condition_eq a b = condition_eq b a"
  by (cases a; cases b) (auto simp: blocklist_eq_def)

lemma condition_eq_trans: "condition_eq a b \<Longrightarrow> condition_eq b c \<Longrightarrow> condition_eq a c"
  by (cases a; cases b; simp; cases c; simp add: blocklist_eq_def)

lemma conditional_eq_refl [simp]: "conditional_eq d d"
  by (cases d) (simp_all add: list_all2_refl)

lemma list_all2_sym: "(\<And>a b. R a b = R b a) \<Longrightarrow> list_all2 R xs ys = list_all2 R ys xs"
  by (auto simp: list_all2_conv_all_nth)

lemma conditional_eq_sym: "conditional_eq a b = conditional_eq b a"
  by (cases a; cases b) (simp_all add: list_all2_sym [OF condition_eq_sym])

lemma conditional_eq_trans: "conditional_eq a b \<Longrightarrow> conditional_eq b c \<Longrightarrow> conditional_eq a c"
  by (cases a; cases b; cases c) (auto intro: list_all2_trans [OF condition_eq_trans])

lemma conditions_eq_refl [simp]: "conditions_eq c c"
  by (simp add: conditions_eq_def list_all2_refl)

lemma conditions_eq_sym: "conditions_eq a b = conditions_eq b a"
  unfolding conditions_eq_def
  using list_all2_sym [of conditional_eq "conditionals a" "conditionals b", OF conditional_eq_sym] by auto

lemma conditions_eq_trans: "conditions_eq a b \<Longrightarrow> conditions_eq b c \<Longrightarrow> conditions_eq a c"
  by (auto simp: conditions_eq_def intro: list_all2_trans [OF conditional_eq_trans])

lemma option_conditions_eq_trans:
  "option_eq conditions_eq x y \<Longrightarrow> option_eq conditions_eq y z \<Longrightarrow> option_eq conditions_eq x z"
  by (cases x; cases y; cases z) (auto intro: conditions_eq_trans)

lemma option_conditions_eq_sym: "option_eq conditions_eq x y = option_eq conditions_eq y x"
  by (cases x; cases y) (auto simp: conditions_eq_sym)

lemma filters_eq_refl [simp]: "filters_eq f f"
  by (simp add: filters_eq_def option_eq_refl)

lemma filters_eq_sym: "filters_eq a b = filters_eq b a"
  unfolding filters_eq_def using option_conditions_eq_sym [of "condition a" "condition b"] by auto

lemma filters_eq_trans: "filters_eq a b \<Longrightarrow> filters_eq b c \<Longrightarrow> filters_eq a c"
  unfolding filters_eq_def by (auto intro: option_conditions_eq_trans)

text \<open>Equal filters are equally specific.\<close>

lemma conditions_eq_cmp: "conditions_eq a b \<Longrightarrow> conditions_cmp a b = Equal"
  by (auto simp: conditions_eq_def conditions_cmp_def dest: list_all2_lengthD)

lemma filters_eq_cmp: "filters_eq a b \<Longrightarrow> filters_cmp a b = Equal"
proof -
  assume e: "filters_eq a b"
  have "cmp_option conditions_cmp (condition a) (condition b) = Equal"
    using e by (cases "condition a"; cases "condition b") (auto simp: filters_eq_def conditions_eq_cmp)
  with e show ?thesis
    by (auto simp: filters_eq_def filters_cmp_def cmp_option_Equal_iff)
qed

lemma get_values_concat: "get_values es = concat (map entry_values es)"
proof -
  have "foldl (\<lambda>acc e. acc @ entry_values e) acc es = acc @ concat (map entry_values es)" for acc
    by (induction es arbitrary: acc) auto
  then show ?thesis by (simp add: get_values_def)
qed

section \<open>Properties\<close>

lemma f64_eq_refl_iff [simp]: "f64_eq x x \<longleftrightarrow> \<not> f64_is_nan x"
  by (simp add: f64_eq_def)

lemma f64_is_nan_consts [simp]: "\<not> f64_is_nan 0" "\<not> f64_is_nan f64_max" "\<not> f64_is_nan f64_neg_max"
  by code_simp+

lemma float_for_eq_number [simp]: "\<not> f64_is_nan (float_for_eq x)"
  by (simp add: float_for_eq_def)

lemma f64_eq_sym: "f64_eq a b = f64_eq b a"
  by (auto simp: f64_eq_def)

lemma f64_eq_trans: "f64_eq a b \<Longrightarrow> f64_eq b c \<Longrightarrow> f64_eq a c"
  by (auto simp: f64_eq_def)

lemma value_eq_refl: "value_eq v v"
  by (cases v) simp_all

lemma value_eq_sym: "value_eq a b = value_eq b a"
  by (cases a; cases b) (auto simp: f64_eq_sym)

lemma value_eq_trans: "value_eq a b \<Longrightarrow> value_eq b c \<Longrightarrow> value_eq a c"
  by (cases a; cases b; cases c) (auto intro: f64_eq_trans)

text \<open>
  Equality of configuration values is an equivalence relation although floats have NaNs, and
  values of the other kinds are equal exactly when they feed the same data to the hasher.
\<close>

theorem value_eq_equivalence:
  "value_eq a a \<and> (value_eq a b \<longrightarrow> value_eq b a) \<and> (value_eq a b \<longrightarrow> value_eq b c \<longrightarrow> value_eq a c) \<and>
   (\<not> is_float a \<longrightarrow> value_eq a b = (value_hash a = value_hash b))"
proof -
  have "value_eq a b = (value_hash a = value_hash b)" if "\<not> is_float a"
    using that by (cases a; cases b) auto
  then show ?thesis using value_eq_refl [of a] value_eq_sym [of a b] value_eq_trans [of a b c] by blast
qed

theorem value_eq_equivalence_witness:
  "value_eq (VFloat f64_nan) (VFloat 0) \<and> value_eq (VFloat 0) (VFloat 0x8000000000000000) \<and>
   value_eq (VFloat f64_nan) (VFloat 0x8000000000000000) \<and>
   value_eq (VString ''a'') (VString ''a'') = (value_hash (VString ''a'') = value_hash (VString ''a''))"
proof -
  have "value_eq (VFloat f64_nan) (VFloat 0)" "value_eq (VFloat 0) (VFloat 0x8000000000000000)" by code_simp+
  then show ?thesis
    using value_eq_equivalence [of "VFloat f64_nan" "VFloat 0" "VFloat 0x8000000000000000"]
      value_eq_equivalence [of "VString ''a''" "VString ''a''"] by simp
qed

text \<open>
  Floats break the agreement of \<open>Eq\<close> and \<open>Hash\<close>: a NaN equals zero, the two zeros are equal and
  infinity equals the largest double, yet each of these pairs is hashed differently.
\<close>

theorem value_hash_disagrees:
  "value_eq (VFloat f64_nan) (VFloat 0) \<and> value_hash (VFloat f64_nan) \<noteq> value_hash (VFloat 0) \<and>
   value_eq (VFloat 0) (VFloat 0x8000000000000000) \<and> value_hash (VFloat 0) \<noteq> value_hash (VFloat 0x8000000000000000) \<and>
   value_eq (VFloat f64_infinity) (VFloat f64_max) \<and> value_hash (VFloat f64_infinity) \<noteq> value_hash (VFloat f64_max)"
  by (intro conjI) code_simp+

end
