(* ===== verification/Config_Match.thy ===== *)
theory Config_Match
  imports Config_Types Matching Placeholders Q_Value
begin

text \<open>
  Conditions and the choice of a configuration, \<open>ferron/src/config/mod.rs\<close>: parsing and matching of
  conditions, the sorted list of configurations and the lookups in it. The results are \<open>run\<close>s:
  expanding placeholders may not return, and regular expressions and Rego policies may fail. The
  crates \<open>cidr\<close>, \<open>fancy_regex\<close> and \<open>regorus\<close>, the decimal conversion of \<open>f32\<close> and \<open>cfg!(windows)\<close>
  are the fields of \<open>externs\<close>.
\<close>

section \<open>Definitions\<close>

record rego_input =
  ri_method :: string
  ri_protocol :: string
  ri_uri :: string
  ri_headers :: "string \<rightharpoonup> string list"
  ri_client_ip :: string
  ri_client_port :: u32
  ri_server_ip :: string
  ri_server_port :: u32
  ri_encrypted :: bool
  ri_constants :: "string \<rightharpoonup> string"

record externs = cidr_lib +
  regex_build_error :: "string \<Rightarrow> bool \<Rightarrow> string option"
  regex_is_match :: "regex \<Rightarrow> string \<Rightarrow> string + bool"
  rego_policy_error :: "string \<Rightarrow> string option"
  rego_pass :: "string \<Rightarrow> rego_input \<Rightarrow> string + bool"
  parse_f32 :: "string \<Rightarrow> f32 option"
  windows :: bool

subsection \<open>Parsing conditions\<close>

definition string_arg :: "nat \<Rightarrow> ServerConfigurationEntry \<Rightarrow> string option" where
  "string_arg i e = (if i < length (entry_values e) then as_str (entry_values e ! i) else None)"

definition ip_list_arg :: "externs \<Rightarrow> ServerConfigurationEntry \<Rightarrow> IpBlockList" where
  "ip_list_arg ext e = load_from_vec (ext) (List.map_filter as_str (entry_values e)) blocklist_new"

definition two_args ::
  "string \<Rightarrow> string \<Rightarrow> ServerConfigurationEntry \<Rightarrow> (string \<Rightarrow> string \<Rightarrow> string + ConditionalData) \<Rightarrow> string + ConditionalData" where
  "two_args err1 err2 e f =
     (case string_arg 0 e of
        None \<Rightarrow> Inl err1
      | Some a \<Rightarrow> (case string_arg 1 e of None \<Rightarrow> Inl err2 | Some b \<Rightarrow> f a b))"

definition missing_side :: "string \<Rightarrow> string \<Rightarrow> string" where
  "missing_side side name = ''Missing or invalid '' @ side @ '' side of a '' @ quoted name @ '' subcondition''"

definition parse_regex_condition ::
  "externs \<Rightarrow> string \<Rightarrow> (string \<Rightarrow> regex \<Rightarrow> ConditionalData) \<Rightarrow> ServerConfigurationEntry \<Rightarrow> string + ConditionalData" where
  "parse_regex_condition ext name con e =
     two_args (missing_side ''left'' name) (missing_side ''right'' name) e
       (\<lambda>left_side right_side.
          let ci = (case Option.bind (map_of (entry_props e) ''case_insensitive'') as_bool of Some b \<Rightarrow> b | None \<Rightarrow> False)
          in case regex_build_error ext right_side ci of
               Some err \<Rightarrow> Inl err
             | None \<Rightarrow> Inr (con left_side \<lparr>re_source = right_side, re_case_insensitive = ci\<rparr>))"

definition parse_conditional_data ::
  "externs \<Rightarrow> string \<Rightarrow> ServerConfigurationEntry \<Rightarrow> string + ConditionalData" where
  "parse_conditional_data ext name value =
     (if name = ''is_remote_ip'' then Inr (IsRemoteIp (ip_list_arg ext value))
      else if name = ''is_forwarded_for'' then Inr (IsForwardedFor (ip_list_arg ext value))
      else if name = ''is_not_remote_ip'' then Inr (IsNotRemoteIp (ip_list_arg ext value))
      else if name = ''is_not_forwarded_for'' then Inr (IsNotForwardedFor (ip_list_arg ext value))
      else if name = ''is_equal'' then
        two_args (missing_side ''left'' name) (missing_side ''right'' name) value (\<lambda>a b. Inr (IsEqual a b))
      else if name = ''is_not_equal'' then
        two_args (missing_side ''left'' name) (missing_side ''right'' name) value (\<lambda>a b. Inr (IsNotEqual a b))
      else if name = ''is_regex'' then parse_regex_condition ext name IsRegex value
      else if name = ''is_not_regex'' then parse_regex_condition ext name IsNotRegex value
      else if name = ''is_rego'' then
        (case string_arg 0 value of
           None \<Rightarrow> Inl ''Missing or invalid Rego policy''
         | Some p \<Rightarrow> (case rego_policy_error ext p of Some err \<Rightarrow> Inl err | None \<Rightarrow> Inr (IsRego p)))
      else if name = ''set_constant'' then
        two_args (''Missing or invalid constant name in a '' @ quoted name @ '' subcondition'')
          (''Missing or invalid constant value in a '' @ quoted name @ '' subcondition'') value
          (\<lambda>a b. Inr (SetConstant a b))
      else if name = ''is_language'' then
        (case string_arg 0 value of
           None \<Rightarrow> Inl (''Missing or invalid desired language in a '' @ quoted name @ '' subcondition'')
         | Some l \<Rightarrow> Inr (IsLanguage l))
      else Inl (''Unrecognized subcondition: '' @ name))"

subsection \<open>Matching conditions\<close>

text \<open>The client address for the \<open>forwarded_for\<close> conditions; \<open>None\<close> stands for \<open>return Ok(false)\<close>.\<close>

definition forwarded_client_ip :: "request_parts \<Rightarrow> SocketData \<Rightarrow> IpAddr option" where
  "forwarded_client_ip request sd =
     (case Option.bind (header_get ''x-forwarded-for'' (rp_headers request)) header_to_str of
        Some x_forwarded_for \<Rightarrow>
          (case split_on CHR '','' x_forwarded_for of
             ip_address_str # _ \<Rightarrow> parse_ip (replace_all '' '' [] ip_address_str)
           | [] \<Rightarrow> None)
      | None \<Rightarrow> Some (sa_ip (remote_addr sd)))"

definition expand_text :: "string \<Rightarrow> request_parts \<Rightarrow> SocketData \<Rightarrow> (string, string) run" where
  "expand_text v request sd = map_option Inr (replace_header_placeholders v request (Some sd))"

definition rego_headers :: "header_map \<Rightarrow> string \<rightharpoonup> string list" where
  "rego_headers hs =
     foldl (\<lambda>m (key, value).
       let k = to_lowercase key; t = (case header_to_str value of Some t \<Rightarrow> t | None \<Rightarrow> [])
       in case m k of Some header_list \<Rightarrow> m(k \<mapsto> header_list @ [t]) | None \<Rightarrow> m(k \<mapsto> [t])) Map.empty hs"

definition rego_input_of :: "request_parts \<Rightarrow> SocketData \<Rightarrow> (string \<rightharpoonup> string) \<Rightarrow> rego_input" where
  "rego_input_of request sd constants =
     \<lparr>ri_method = rp_method request, ri_protocol = version_str (rp_version request), ri_uri = uri_text (rp_uri request),
      ri_headers = rego_headers (rp_headers request),
      ri_client_ip = ip_to_string (sa_ip (remote_addr sd)), ri_client_port = ucast (sa_port (remote_addr sd)),
      ri_server_ip = ip_to_string (sa_ip (local_addr sd)), ri_server_port = ucast (sa_port (local_addr sd)),
      ri_encrypted = encrypted sd, ri_constants = constants\<rparr>"

definition primary_tag :: "string \<Rightarrow> string list" where
  "primary_tag lang = (case split_once CHR ''-'' lang of Some (lang2, _) \<Rightarrow> [lang2] | None \<Rightarrow> [])"

definition supported_languages :: "(string \<rightharpoonup> string) \<Rightarrow> string \<Rightarrow> string list" where
  "supported_languages constants language =
     (case constants ''LANGUAGES'' of
        Some v \<Rightarrow> (let hash_set = concat (map (\<lambda>lang. lang # primary_tag lang) (split_on CHR '','' v))
                  in if hash_set = [] then [language] else hash_set)
      | None \<Rightarrow> [language])"

definition match_language :: "externs \<Rightarrow> request_parts \<Rightarrow> (string \<rightharpoonup> string) \<Rightarrow> string \<Rightarrow> bool" where
  "match_language ext request constants language =
     (let accepted_languages = parse_q_value_header (parse_f32 ext)
            (case Option.bind (header_get ''accept-language'' (rp_headers request)) header_to_str of Some v \<Rightarrow> v | None \<Rightarrow> ''*'');
          supported = supported_languages constants language
      in case find (\<lambda>l. l = ''*'' \<or> l \<in> set supported \<or> (\<exists>v \<in> set (primary_tag l). v \<in> set supported)) accepted_languages of
           Some l \<Rightarrow> l = language \<or> l \<in> set (primary_tag language)
         | None \<Rightarrow> False)"

fun match_condition ::
  "externs \<Rightarrow> request_parts \<Rightarrow> SocketData \<Rightarrow> (string \<rightharpoonup> string) \<Rightarrow> ConditionalData \<Rightarrow> (string, bool \<times> (string \<rightharpoonup> string)) run" where
  "match_condition ext request sd constants (IsRemoteIp list) =
     ret (is_blocked ext list (sa_ip (remote_addr sd)), constants)"
| "match_condition ext request sd constants (IsForwardedFor list) =
     ret (case forwarded_client_ip request sd of Some client_ip \<Rightarrow> is_blocked ext list client_ip | None \<Rightarrow> False, constants)"
| "match_condition ext request sd constants (IsNotRemoteIp list) =
     ret (\<not> is_blocked ext list (sa_ip (remote_addr sd)), constants)"
| "match_condition ext request sd constants (IsNotForwardedFor list) =
     ret (case forwarded_client_ip request sd of Some client_ip \<Rightarrow> \<not> is_blocked ext list client_ip | None \<Rightarrow> False, constants)"
| "match_condition ext request sd constants (IsEqual v1 v2) =
     bind_run (expand_text v1 request sd) (\<lambda>a. bind_run (expand_text v2 request sd) (\<lambda>b. ret (a = b, constants)))"
| "match_condition ext request sd constants (IsNotEqual v1 v2) =
     bind_run (expand_text v1 request sd) (\<lambda>a. bind_run (expand_text v2 request sd) (\<lambda>b. ret (a \<noteq> b, constants)))"
| "match_condition ext request sd constants (IsRegex v1 regex) =
     bind_run (expand_text v1 request sd) (\<lambda>a. bind_run (Some (regex_is_match ext regex a)) (\<lambda>m. ret (m, constants)))"
| "match_condition ext request sd constants (IsNotRegex v1 regex) =
     bind_run (expand_text v1 request sd) (\<lambda>a. bind_run (Some (regex_is_match ext regex a)) (\<lambda>m. ret (\<not> m, constants)))"
| "match_condition ext request sd constants (IsRego engine) =
     bind_run (Some (rego_pass ext engine (rego_input_of request sd constants))) (\<lambda>m. ret (m, constants))"
| "match_condition ext request sd constants (SetConstant name value) = ret (True, constants(name \<mapsto> value))"
| "match_condition ext request sd constants (IsLanguage language) =
     ret (match_language ext request constants language, constants)"

text \<open>The inner loops of \<open>match_conditions\<close>: all conditions, up to the first that does not hold.\<close>

fun match_all ::
  "externs \<Rightarrow> request_parts \<Rightarrow> SocketData \<Rightarrow> (string \<rightharpoonup> string) \<Rightarrow> ConditionalData list \<Rightarrow> (string, bool) run" where
  "match_all ext request sd constants [] = ret True"
| "match_all ext request sd constants (d # ds) =
     bind_run (match_condition ext request sd constants d)
       (\<lambda>(m, constants'). if m then match_all ext request sd constants' ds else ret False)"

fun match_conditional :: "externs \<Rightarrow> request_parts \<Rightarrow> SocketData \<Rightarrow> Conditional \<Rightarrow> (string, bool) run" where
  "match_conditional ext request sd (If data) = match_all ext request sd Map.empty data"
| "match_conditional ext request sd (IfNot data) =
     bind_run (match_all ext request sd Map.empty data) (\<lambda>matches. ret (\<not> matches))"

fun match_conditionals :: "externs \<Rightarrow> request_parts \<Rightarrow> SocketData \<Rightarrow> Conditional list \<Rightarrow> (string, bool) run" where
  "match_conditionals ext request sd [] = ret True"
| "match_conditionals ext request sd (cond # conds) =
     bind_run (match_conditional ext request sd cond)
       (\<lambda>m. if m then match_conditionals ext request sd conds else ret False)"

definition match_conditions :: "externs \<Rightarrow> Conditions \<Rightarrow> request_parts \<Rightarrow> SocketData \<Rightarrow> (string, bool) run" where
  "match_conditions ext conds request sd =
     (case match_location (windows ext) (location_prefix conds) (uri_path (rp_uri request)) of
        None \<Rightarrow> None
      | Some m \<Rightarrow> if m then match_conditionals ext request sd (conditionals conds) else ret False)"

subsection \<open>The list of configurations\<close>

record ('m, 'o) ServerConfigurations =
  scs_inner :: "('m, 'o) ServerConfiguration list"

definition configurations_new :: "('m, 'o) ServerConfiguration list \<Rightarrow> ('m, 'o) ServerConfigurations" where
  "configurations_new inner =
     \<lparr>scs_inner = sort_by (\<lambda>a b. filters_cmp (sc_filters a) (sc_filters b)) (rev inner)\<rparr>"

definition configuration_matches ::
  "externs \<Rightarrow> request_parts \<Rightarrow> string option \<Rightarrow> SocketData \<Rightarrow> ('m, 'o) ServerConfiguration \<Rightarrow> (string, bool) run" where
  "configuration_matches ext request host sd c =
     (let f = sc_filters c
      in if match_hostname (hostname f) host \<and>
            (ip f = None \<and> (\<not> is_localhost (ip f) (hostname f) \<or> is_loopback (to_canonical (sa_ip (local_addr sd)))) \<or>
             ip f = Some (sa_ip (local_addr sd))) \<and>
            (port f = None \<or> port f = Some (sa_port (local_addr sd)))
         then bind_run (case condition f of Some conds \<Rightarrow> match_conditions ext conds request sd | None \<Rightarrow> ret True)
                (\<lambda>m. ret (m \<and> error_handler_status f = None))
         else ret False)"

fun first_match :: "('c \<Rightarrow> ('e, bool) run) \<Rightarrow> 'c list \<Rightarrow> ('e, 'c option) run" where
  "first_match m [] = ret None"
| "first_match m (c # cs) = bind_run (m c) (\<lambda>b. if b then ret (Some c) else first_match m cs)"

definition find_configuration ::
  "externs \<Rightarrow> ('m, 'o) ServerConfigurations \<Rightarrow> request_parts \<Rightarrow> string option \<Rightarrow> SocketData \<Rightarrow>
     (string, ('m, 'o) ServerConfiguration option) run" where
  "find_configuration ext scs request host sd =
     first_match (configuration_matches ext request host sd) (rev (scs_inner scs))"

definition handles_error :: "ServerConfigurationFilters \<Rightarrow> u16 \<Rightarrow> ('m, 'o) ServerConfiguration \<Rightarrow> bool" where
  "handles_error filters status_code c =
     (let f = sc_filters c
      in is_host f \<and> hostname f = hostname filters \<and> ip f = ip filters \<and> port f = port filters \<and>
         (condition f = None \<or> option_eq conditions_eq (condition f) (condition filters)) \<and>
         (case error_handler_status f of None \<Rightarrow> False | Some Any \<Rightarrow> True | Some (Status x) \<Rightarrow> x = status_code))"

definition find_error_configuration ::
  "('m, 'o) ServerConfigurations \<Rightarrow> ServerConfigurationFilters \<Rightarrow> u16 \<Rightarrow> ('m, 'o) ServerConfiguration option" where
  "find_error_configuration scs filters status_code = find (handles_error filters status_code) (rev (scs_inner scs))"

text \<open>The search for the global configuration: what follows the first configuration found.\<close>

fun global_after :: "('m, 'o) ServerConfiguration \<Rightarrow> ('m, 'o) ServerConfiguration list \<Rightarrow> ('m, 'o) ServerConfiguration option" where
  "global_after first_found [] = None"
| "global_after first_found (c # cs) =
     (if is_global (sc_filters c) then Some c
      else if \<not> is_global_non_host (sc_filters c) then Some first_found
      else global_after first_found cs)"

fun find_global :: "('m, 'o) ServerConfiguration list \<Rightarrow> ('m, 'o) ServerConfiguration option" where
  "find_global [] = None"
| "find_global (c # cs) =
     (if is_global (sc_filters c) \<or> is_global_non_host (sc_filters c)
      then (if is_global (sc_filters c) then Some c else global_after c cs)
      else find_global cs)"

definition find_global_configuration :: "('m, 'o) ServerConfigurations \<Rightarrow> ('m, 'o) ServerConfiguration option" where
  "find_global_configuration scs = find_global (scs_inner scs)"

section \<open>Choosing a configuration\<close>


lemma first_match_total: "(\<And>c. c \<in> set cs \<Longrightarrow> \<exists>b. m c = ret b) \<Longrightarrow> \<exists>r. first_match m cs = ret r"
proof (induction cs)
  case (Cons c cs)
  obtain b where "m c = ret b" using Cons.prems [of c] by auto
  moreover obtain r where "first_match m cs = ret r" using Cons by auto
  ultimately show ?case by auto
qed simp

lemma set_configurations_new [simp]: "set (scs_inner (configurations_new inner)) = set inner"
  by (simp add: configurations_new_def)


definition bare_config :: "string option \<Rightarrow> string \<Rightarrow> (unit, unit) ServerConfiguration" where
  "bare_config h root =
     \<lparr>sc_entries = [(''root'', [\<lparr>entry_values = [VString root], entry_props = []\<rparr>])],
      sc_filters = \<lparr>is_host = True, hostname = h, ip = None, port = None, condition = None, error_handler_status = None\<rparr>,
      sc_modules = [], sc_observability = ()\<rparr>"

definition no_externs :: externs where
  "no_externs = \<lparr>parse_cidr = \<lambda>_. None, cidr_contains = \<lambda>_ _. False, regex_build_error = \<lambda>_ _. None,
     regex_is_match = \<lambda>_ _. Inr False, rego_policy_error = \<lambda>_. None, rego_pass = \<lambda>_ _. Inr False,
     parse_f32 = \<lambda>_. None, windows = False\<rparr>"


text \<open>
  The lookup of a configuration returns a result, found or not, whenever every configuration's
  filters can be evaluated: it never fails or runs on by itself.
\<close>

theorem find_configuration_total:
  assumes "\<And>c. c \<in> set inner \<Longrightarrow> \<exists>b. configuration_matches ext request host sd c = ret b"
  shows "\<exists>r. find_configuration ext (configurations_new inner) request host sd = ret r"
  unfolding find_configuration_def
  by (rule first_match_total) (simp add: assms)

theorem find_configuration_total_witness:
  "\<exists>r. find_configuration no_externs (configurations_new [bare_config None ''/a'']) example_parts None example_socket = ret r"
proof (rule find_configuration_total)
  fix c assume "c \<in> set [bare_config None ''/a'']"
  then have "c = bare_config None ''/a''" by simp
  moreover have "configuration_matches no_externs example_parts None example_socket (bare_config None ''/a'') = ret True"
    by code_simp
  ultimately show "\<exists>b. configuration_matches no_externs example_parts None example_socket c = ret b" by blast
qed

text \<open>
  The error configuration found for a status code belongs to the same host block, handles that
  status, and no other such configuration is more specific; of equally specific ones the first
  declared is taken.
\<close>

theorem find_error_configuration_most_specific:
  assumes "find_error_configuration (configurations_new inner) filters status = Some c"
  shows "\<exists>i < length inner. inner ! i = c \<and> handles_error filters status c \<and>
    (\<forall>j < length inner. handles_error filters status (inner ! j) \<longrightarrow>
       filters_cmp (sc_filters (inner ! j)) (sc_filters c) \<noteq> Greater \<and>
       (filters_cmp (sc_filters (inner ! j)) (sc_filters c) = Equal \<longrightarrow> i \<le> j))"
  using scmp.find_rev_sort_rev [of "handles_error filters status" inner c] assms
  by (simp add: find_error_configuration_def configurations_new_def)

definition error_config :: "ErrorHandlerStatus \<Rightarrow> (unit, unit) ServerConfiguration" where
  "error_config st = (bare_config None ''/e'')
     \<lparr>sc_filters := (sc_filters (bare_config None ''/e''))\<lparr>error_handler_status := Some st\<rparr>\<rparr>"

theorem find_error_configuration_most_specific_witness:
  "find_error_configuration (configurations_new [error_config Any, error_config (Status 404)])
     (sc_filters (bare_config None [])) 404 = Some (error_config Any) \<and>
   handles_error (sc_filters (bare_config None [])) 404 (error_config Any)"
proof -
  have r: "find_error_configuration (configurations_new [error_config Any, error_config (Status 404)])
     (sc_filters (bare_config None [])) 404 = Some (error_config Any)" by code_simp
  show ?thesis using find_error_configuration_most_specific [OF r] r by blast
qed

section \<open>The global configuration\<close>

lemma global_cmp_iff: "is_global g \<Longrightarrow> is_host f \<Longrightarrow> filters_cmp f g \<noteq> Greater \<longleftrightarrow> is_global f"
proof
  assume g: "is_global g" and h: "is_host f" and le: "filters_cmp f g \<noteq> Greater"
  have "cmp_option conditions_cmp (condition f) None \<noteq> Greater \<longleftrightarrow> condition f = None"
    by (cases "condition f") auto
  moreover have "cmp_option cmp_of (map_option (\<lambda>h. \<not> starts_with ''*.'' h) (hostname f)) None \<noteq> Greater \<longleftrightarrow> hostname f = None"
    by (cases "hostname f") auto
  ultimately show "is_global f" using g h le
    by (cases "hostname f"; cases "condition f") (auto simp: is_global_def filters_cmp_def then_with_eq_Greater)
next
  assume "is_global g" "is_global f"
  then have "filters_eq f g" by (simp add: is_global_def filters_eq_def)
  then show "filters_cmp f g \<noteq> Greater" by (simp add: filters_eq_cmp)
qed

lemma host_cmp: "is_host f \<Longrightarrow> \<not> is_host g \<Longrightarrow> filters_cmp f g = Greater"
  by (simp add: filters_cmp_def cmp_of_def)

lemma global_after_sorted:
  assumes "scmp.sorted_by cs" "\<not> is_host (sc_filters c)"
  shows "global_after c cs =
    (case find (\<lambda>d. is_global (sc_filters d)) cs of Some g \<Rightarrow> Some g
     | None \<Rightarrow> if \<exists>d \<in> set cs. is_host (sc_filters d) then Some c else None)"
  using assms(1)
proof (induction cs)
  case (Cons d cs)
  show ?case
  proof (cases "is_host (sc_filters d)")
    case True
    have "\<not> is_global (sc_filters e)" if "e \<in> set cs" "\<not> is_global (sc_filters d)" for e
      using Cons.prems that global_cmp_iff [of "sc_filters e" "sc_filters d"] True by auto
    then have "find (\<lambda>d. is_global (sc_filters d)) cs = None" if "\<not> is_global (sc_filters d)"
      using that by (simp add: find_None_iff)
    with True show ?thesis by (simp add: is_global_non_host_def)
  next
    case False
    then have "\<not> is_global (sc_filters d)" by (simp add: is_global_def)
    with False Cons show ?thesis by (auto simp: is_global_non_host_def)
  qed
qed simp

lemma find_global_sorted:
  assumes "scmp.sorted_by cs"
  shows "find_global cs =
    (case find (\<lambda>d. is_global (sc_filters d)) cs of Some g \<Rightarrow> Some g
     | None \<Rightarrow> if \<exists>d \<in> set cs. is_host (sc_filters d) then find (\<lambda>d. \<not> is_host (sc_filters d)) cs else None)"
  using assms
proof (induction cs)
  case (Cons c cs)
  show ?case
  proof (cases "is_host (sc_filters c)")
    case True
    have "is_host (sc_filters d)" if "d \<in> set cs" for d
      using Cons.prems that host_cmp [OF True, of "sc_filters d"] by auto
    then have "find (\<lambda>d. \<not> is_host (sc_filters d)) cs = None" by (simp add: find_None_iff)
    with True Cons show ?thesis by (auto simp: is_global_non_host_def split: option.splits)
  next
    case False
    then have n: "\<not> is_global (sc_filters c)" by (simp add: is_global_def)
    have "scmp.sorted_by cs" using Cons.prems by simp
    from global_after_sorted [OF this False] n False show ?thesis
      by (simp add: is_global_non_host_def split: option.splits)
  qed
qed simp

text \<open>
  The global configuration found is the first host block without filters if there is one, else
  the \<open>globals\<close> block, but only when some host block exists: with nothing but \<open>globals\<close> blocks the
  search returns none.
\<close>

theorem find_global_configuration_spec:
  "find_global_configuration (configurations_new inner) =
     (let s = scs_inner (configurations_new inner)
      in if \<exists>c \<in> set inner. is_global (sc_filters c) then find (\<lambda>c. is_global (sc_filters c)) s
         else if \<exists>c \<in> set inner. is_host (sc_filters c) then find (\<lambda>c. \<not> is_host (sc_filters c)) s
         else None)"
proof -
  let ?s = "sort_by (\<lambda>a b. filters_cmp (sc_filters a) (sc_filters b)) (rev inner)"
  have "find (\<lambda>c. is_global (sc_filters c)) ?s = None \<longleftrightarrow> \<not> (\<exists>c \<in> set inner. is_global (sc_filters c))"
    by (auto simp: find_None_iff)
  then show ?thesis
    unfolding find_global_configuration_def configurations_new_def ServerConfigurations.simps Let_def
    by (subst find_global_sorted [OF scmp.sorted_sort_by]) (auto split: option.splits)
qed

section \<open>Conditions\<close>

text \<open>
  An \<open>if_not\<close> block is the complement of the \<open>if\<close> block with the same subconditions: wherever one
  is decided both are, and exactly one of them matches; errors are the same.
\<close>

theorem if_not_complements_if:
  "match_conditional ext request sd (IfNot ds) =
     (case match_conditional ext request sd (If ds) of
        Some (Inr b) \<Rightarrow> Some (Inr (\<not> b)) | Some (Inl e) \<Rightarrow> Some (Inl e) | None \<Rightarrow> None)"
  by (cases "match_all ext request sd Map.empty ds") (auto split: sum.splits intro: sum.exhaust)

text \<open>
  Which subconditions parse. The four address conditions always do; comparisons and constants
  need two string arguments, languages and policies one; a regular expression or policy must be
  accepted by its engine; every other name is rejected.
\<close>

theorem parse_conditional_data_ok_iff:
  "(\<exists>d. parse_conditional_data ext name e = Inr d) \<longleftrightarrow>
     name \<in> {''is_remote_ip'', ''is_forwarded_for'', ''is_not_remote_ip'', ''is_not_forwarded_for''} \<or>
     name \<in> {''is_equal'', ''is_not_equal'', ''set_constant''} \<and> string_arg 0 e \<noteq> None \<and> string_arg 1 e \<noteq> None \<or>
     name \<in> {''is_regex'', ''is_not_regex''} \<and> string_arg 0 e \<noteq> None \<and>
       (\<exists>r. string_arg 1 e = Some r \<and>
          regex_build_error ext r (map_of (entry_props e) ''case_insensitive'' = Some (VBool True)) = None) \<or>
     name = ''is_rego'' \<and> (\<exists>p. string_arg 0 e = Some p \<and> rego_policy_error ext p = None) \<or>
     name = ''is_language'' \<and> string_arg 0 e \<noteq> None"
proof -
  have two: "(\<exists>d. two_args a b e f = Inr d) \<longleftrightarrow>
      (\<exists>x y. string_arg 0 e = Some x \<and> string_arg 1 e = Some y \<and> (\<exists>d. f x y = Inr d))" for a b f
    by (simp add: two_args_def split: option.splits)
  have ci: "(case Option.bind (map_of (entry_props e) ''case_insensitive'') as_bool of Some b \<Rightarrow> b | None \<Rightarrow> False) =
      (map_of (entry_props e) ''case_insensitive'' = Some (VBool True))"
  proof (cases "map_of (entry_props e) ''case_insensitive''")
    case (Some v)
    then show ?thesis by (cases v) auto
  qed simp
  have re: "(\<exists>d. parse_regex_condition ext n con e = Inr d) \<longleftrightarrow> string_arg 0 e \<noteq> None \<and>
      (\<exists>r. string_arg 1 e = Some r \<and> regex_build_error ext r (map_of (entry_props e) ''case_insensitive'' = Some (VBool True)) = None)"
    for n con
    unfolding parse_regex_condition_def two ci by (auto simp: Let_def split: option.splits)
  have rego: "(\<exists>d. (case string_arg 0 e of None \<Rightarrow> Inl x
         | Some p \<Rightarrow> (case rego_policy_error ext p of Some err \<Rightarrow> Inl err | None \<Rightarrow> Inr (IsRego p))) = Inr d) \<longleftrightarrow>
      (\<exists>p. string_arg 0 e = Some p \<and> rego_policy_error ext p = None)" for x
    by (auto split: option.splits)
  have lang: "(\<exists>d. (case string_arg 0 e of None \<Rightarrow> Inl x | Some l \<Rightarrow> Inr (IsLanguage l)) = Inr d) \<longleftrightarrow> string_arg 0 e \<noteq> None"
    for x by (auto split: option.splits)
  show ?thesis
    unfolding parse_conditional_data_def
    by (simp add: two re rego lang)
qed

end
