(* ===== verification/Config_Processing.thy ===== *)
theory Config_Processing
  imports Config_Match
begin

text \<open>
  Processing of parsed configurations, \<open>ferron/src/config/processing.rs\<close>: merging of blocks with the
  same filters, the default \<open>globals\<close> block, the filter trie, the layered inheritance computed by
  \<open>premerge_configuration\<close>, and the loading of modules. A \<open>BTreeMap\<close> of the trie is an association list
  searched with the key order; module loaders and observability backends are objects of arbitrary
  types whose methods are parameters.
\<close>

section \<open>Merging duplicates\<close>

fun status_cmp :: "ErrorHandlerStatus \<Rightarrow> ErrorHandlerStatus \<Rightarrow> cmp_result" where
  "status_cmp Any Any = Equal"
| "status_cmp Any (Status _) = Less"
| "status_cmp (Status _) Any = Greater"
| "status_cmp (Status a) (Status b) = cmp_of a b"

definition condition_tuple :: "ServerConfigurationFilters \<Rightarrow> (string \<times> Conditional list) option" where
  "condition_tuple f = map_option (\<lambda>s. (location_prefix s, conditionals s)) (condition f)"

definition condition_tuple_cmp :: "(string \<times> Conditional list) option \<Rightarrow> (string \<times> Conditional list) option \<Rightarrow> cmp_result" where
  "condition_tuple_cmp = cmp_option (cmp_pair cmp_string (cmp_list conditional_cmp))"

definition merge_cmp :: "ServerConfigurationFilters \<Rightarrow> ServerConfigurationFilters \<Rightarrow> cmp_result" where
  "merge_cmp a b =
     then_with (cmp_of (is_host a) (is_host b))
    (then_with (cmp_option cmp_of (port a) (port b))
    (then_with (cmp_option cmp_ip (ip a) (ip b))
    (then_with (cmp_option cmp_string (hostname a) (hostname b))
    (then_with (condition_tuple_cmp (condition_tuple a) (condition_tuple b))
               (cmp_option status_cmp (error_handler_status a) (error_handler_status b))))))"

definition merge_entries :: "entries hashmap \<Rightarrow> entries hashmap \<Rightarrow> entries hashmap" where
  "merge_entries current other =
     foldl (\<lambda>es (k, v). AList.update k ((case map_of es k of Some inner \<Rightarrow> inner | None \<Rightarrow> []) @ v) es) current other"

text \<open>The inner \<open>while\<close> loop: the current configuration absorbs the ones in front of the queue.\<close>

fun absorb ::
  "('m, 'o) ServerConfiguration \<Rightarrow> ('m, 'o) ServerConfiguration list \<Rightarrow>
     ('m, 'o) ServerConfiguration \<times> ('m, 'o) ServerConfiguration list" where
  "absorb current [] = (current, [])"
| "absorb current (c # cs) =
     (if filters_eq (sc_filters c) (sc_filters current)
      then absorb (current\<lparr>sc_entries := merge_entries (sc_entries current) (sc_entries c)\<rparr>) cs
      else (current, c # cs))"

lemma absorb_length: "length (snd (absorb c cs)) \<le> length cs"
  by (induction c cs rule: absorb.induct) auto

function merge_adjacent :: "('m, 'o) ServerConfiguration list \<Rightarrow> ('m, 'o) ServerConfiguration list" where
  "merge_adjacent [] = []"
| "merge_adjacent (c # cs) = (let (current, rest) = absorb c cs in current # merge_adjacent rest)"
  by pat_completeness auto
termination
proof (relation "measure length")
  show "(rest, c # cs) \<in> measure length" if "x = absorb c cs" "(current, rest) = x" for c cs x and current rest :: "_"
    using absorb_length [of c cs] that by (metis in_measure le_imp_less_Suc length_Cons snd_conv)
qed simp

definition merge_duplicates :: "('m, 'o) ServerConfiguration list \<Rightarrow> ('m, 'o) ServerConfiguration list" where
  "merge_duplicates cs = merge_adjacent (sort_by (\<lambda>a b. merge_cmp (sc_filters a) (sc_filters b)) cs)"

section \<open>The default global configuration\<close>

definition no_filters :: "bool \<Rightarrow> ServerConfigurationFilters" where
  "no_filters host = \<lparr>is_host = host, hostname = None, ip = None, port = None, condition = None, error_handler_status = None\<rparr>"

definition remove_and_add_global_configuration ::
  "('m, ('l, 'me, 't) ObservabilityBackendChannels) ServerConfiguration list \<Rightarrow>
   ('m, ('l, 'me, 't) ObservabilityBackendChannels) ServerConfiguration list" where
  "remove_and_add_global_configuration cs =
     (let kept = filter (\<lambda>c. sc_entries c \<noteq> []) cs
      in if \<exists>c \<in> set kept. is_global_non_host (sc_filters c) then kept
         else \<lparr>sc_entries = [], sc_filters = no_filters False, sc_modules = [], sc_observability = channels_new\<rparr> # kept)"

section \<open>The filter trie\<close>

datatype ServerConfigurationFilter =
    FIsHost bool
  | FPort "u16 option"
  | FIp "IpAddr option"
  | FHostname "string option"
  | FCondition "(string \<times> Conditional list) option"
  | FErrorHandlerStatus "ErrorHandlerStatus option"

fun filter_discriminant :: "ServerConfigurationFilter \<Rightarrow> nat" where
  "filter_discriminant (FIsHost _) = 0"
| "filter_discriminant (FPort _) = 1"
| "filter_discriminant (FIp _) = 2"
| "filter_discriminant (FHostname _) = 3"
| "filter_discriminant (FCondition _) = 4"
| "filter_discriminant (FErrorHandlerStatus _) = 5"

definition filter_cmp :: "ServerConfigurationFilter \<Rightarrow> ServerConfigurationFilter \<Rightarrow> cmp_result" where
  "filter_cmp a b =
     (case (a, b) of
        (FIsHost x, FIsHost y) \<Rightarrow> cmp_of x y
      | (FPort x, FPort y) \<Rightarrow> cmp_option cmp_of x y
      | (FIp x, FIp y) \<Rightarrow> cmp_option cmp_ip x y
      | (FHostname x, FHostname y) \<Rightarrow> cmp_option cmp_string x y
      | (FCondition x, FCondition y) \<Rightarrow> condition_tuple_cmp x y
      | (FErrorHandlerStatus x, FErrorHandlerStatus y) \<Rightarrow> cmp_option status_cmp x y
      | _ \<Rightarrow> cmp_of (filter_discriminant a) (filter_discriminant b))"

datatype 'k trie = Trie (children: "('k \<times> 'k trie) list") (index: "nat option")

definition trie_new :: "'k trie" where
  "trie_new = Trie [] None"

fun child_get :: "('k \<Rightarrow> 'k \<Rightarrow> cmp_result) \<Rightarrow> 'k \<Rightarrow> ('k \<times> 'v) list \<Rightarrow> 'v option" where
  "child_get cmp k [] = None"
| "child_get cmp k ((k', t) # cs) = (if cmp k k' = Equal then Some t else child_get cmp k cs)"

fun child_set :: "('k \<Rightarrow> 'k \<Rightarrow> cmp_result) \<Rightarrow> 'k \<Rightarrow> 'v \<Rightarrow> ('k \<times> 'v) list \<Rightarrow> ('k \<times> 'v) list" where
  "child_set cmp k t [] = [(k, t)]"
| "child_set cmp k t ((k', t') # cs) = (if cmp k k' = Equal then (k', t) # cs else (k', t') # child_set cmp k t cs)"

definition filter_vec :: "ServerConfigurationFilters \<Rightarrow> ServerConfigurationFilter list" where
  "filter_vec f =
     [FIsHost (is_host f), FPort (port f), FIp (ip f), FHostname (hostname f), FCondition (condition_tuple f),
      FErrorHandlerStatus (error_handler_status f)]"

text \<open>The condition under which \<open>insert\<close> stores the index before it descends by a filter.\<close>

fun nothing_left :: "ServerConfigurationFilters \<Rightarrow> ServerConfigurationFilter \<Rightarrow> bool" where
  "nothing_left f (FIsHost _) \<longleftrightarrow> \<not> is_host f \<and> port f = None \<and> ip f = None \<and> hostname f = None \<and> condition f = None \<and>
     error_handler_status f = None"
| "nothing_left f (FPort _) \<longleftrightarrow> port f = None \<and> ip f = None \<and> hostname f = None \<and> condition f = None \<and>
     error_handler_status f = None"
| "nothing_left f (FIp _) \<longleftrightarrow> ip f = None \<and> hostname f = None \<and> condition f = None \<and> error_handler_status f = None"
| "nothing_left f (FHostname _) \<longleftrightarrow> hostname f = None \<and> condition f = None \<and> error_handler_status f = None"
| "nothing_left f (FCondition _) \<longleftrightarrow> condition f = None \<and> error_handler_status f = None"
| "nothing_left f (FErrorHandlerStatus _) \<longleftrightarrow> error_handler_status f = None"

fun trie_insert :: "('k \<Rightarrow> 'k \<Rightarrow> cmp_result) \<Rightarrow> ('k \<Rightarrow> bool) \<Rightarrow> nat \<Rightarrow> 'k list \<Rightarrow> 'k trie \<Rightarrow> 'k trie" where
  "trie_insert cmp mark filters_index [] node = node"
| "trie_insert cmp mark filters_index (flt # rest) node =
     Trie (child_set cmp flt
             (trie_insert cmp mark filters_index rest
                (case child_get cmp flt (children node) of Some child \<Rightarrow> child | None \<Rightarrow> trie_new))
             (children node))
          (if mark flt \<and> index node = None then Some filters_index else index node)"

fun trie_find :: "('k \<Rightarrow> 'k \<Rightarrow> cmp_result) \<Rightarrow> 'k list \<Rightarrow> 'k trie \<Rightarrow> nat list \<Rightarrow> nat list" where
  "trie_find cmp [] node indices = indices"
| "trie_find cmp (flt # rest) node indices =
     (let indices' = (case index node of
            Some i \<Rightarrow> if indices \<noteq> [] \<and> last indices = i then indices else indices @ [i]
          | None \<Rightarrow> indices)
      in case child_get cmp flt (children node) of
           Some child \<Rightarrow> trie_find cmp rest child indices'
         | None \<Rightarrow> indices')"

definition insert_filters :: "ServerConfigurationFilters \<Rightarrow> nat \<Rightarrow> ServerConfigurationFilter trie \<Rightarrow> ServerConfigurationFilter trie" where
  "insert_filters f i t = trie_insert filter_cmp (nothing_left f) i (filter_vec f) t"

definition find_indices :: "ServerConfigurationFilter trie \<Rightarrow> ServerConfigurationFilters \<Rightarrow> nat list" where
  "find_indices t f = rev (trie_find filter_cmp (filter_vec f) t [])"

section \<open>Layered inheritance\<close>

definition inherit_entry ::
  "entries hashmap \<times> string list \<Rightarrow> string \<times> entries \<Rightarrow> entries hashmap \<times> string list" where
  "inherit_entry acc kv =
     (let (cloned_hashmap, properties_in_layer) = acc; (property_name, property) = kv
      in (case map_of cloned_hashmap property_name of
            Some obtained_property \<Rightarrow>
              AList.update property_name
                (if property_name \<in> set properties_in_layer then obtained_property @ property else property) cloned_hashmap
          | None \<Rightarrow> AList.update property_name property cloned_hashmap,
          property_name # properties_in_layer))"

definition inherit_layer ::
  "('m, 'o) ServerConfiguration list \<Rightarrow> entries hashmap \<Rightarrow> nat \<Rightarrow> entries hashmap" where
  "inherit_layer cs configuration_entries layer_index =
     (if layer_index \<ge> length cs then configuration_entries
      else fst (foldl inherit_entry (sc_entries (cs ! layer_index), []) configuration_entries))"

function premerge_loop ::
  "ServerConfigurationFilter trie \<Rightarrow> ('m, 'o) ServerConfiguration list \<Rightarrow> ('m, 'o) ServerConfiguration list \<Rightarrow>
     ('m, 'o) ServerConfiguration list" where
  "premerge_loop t cs new =
     (if cs = [] then new
      else let c = last cs; rest = butlast cs
           in premerge_loop t rest
                (new @ [c\<lparr>sc_entries := foldl (inherit_layer rest) (sc_entries c) (find_indices t (sc_filters c))\<rparr>]))"
  by pat_completeness auto
termination
  by (relation "measure (\<lambda>(t, cs, new). length cs)") auto

declare premerge_loop.simps [simp del]

definition build_trie :: "('m, 'o) ServerConfiguration list \<Rightarrow> ServerConfigurationFilter trie" where
  "build_trie cs = foldl (\<lambda>t (i, c). insert_filters (sc_filters c) i t) trie_new (enumerate 0 cs)"

definition premerge_configuration :: "('m, 'o) ServerConfiguration list \<Rightarrow> ('m, 'o) ServerConfiguration list" where
  "premerge_configuration cs =
     (let sorted = sort_by (\<lambda>a b. filters_cmp (sc_filters a) (sc_filters b)) cs
      in rev (premerge_loop (build_trie sorted) sorted []))"

section \<open>Laws of the trie\<close>

text \<open>The index stored at the end of a path.\<close>

fun trie_index :: "('k \<Rightarrow> 'k \<Rightarrow> cmp_result) \<Rightarrow> 'k list \<Rightarrow> 'k trie \<Rightarrow> nat option" where
  "trie_index cmp [] t = index t"
| "trie_index cmp (k # ks) t =
     (case child_get cmp k (children t) of Some c \<Rightarrow> trie_index cmp ks c | None \<Rightarrow> None)"

definition push_index :: "nat list \<Rightarrow> nat \<Rightarrow> nat list" where
  "push_index indices i = (if indices \<noteq> [] \<and> last indices = i then indices else indices @ [i])"

lemma trie_index_new [simp]: "trie_index cmp p trie_new = None"
  by (cases p) (simp_all add: trie_new_def)

context total_cmp
begin

abbreviation path_eq :: "'a list \<Rightarrow> 'a list \<Rightarrow> bool" where
  "path_eq \<equiv> list_all2 (\<lambda>a b. cmp a b = Equal)"

lemma child_get_set:
  "child_get cmp k (child_set cmp k' t cs) = (if cmp k k' = Equal then Some t else child_get cmp k cs)"
proof (induction cs)
  case (Cons c cs)
  obtain a b where c: "c = (a, b)" by (cases c)
  have "cmp k a = cmp k k'" if "cmp k' a = Equal" using Equal_cong_right [OF that, of k] by simp
  moreover have "cmp k a = cmp k' a" if "cmp k k' = Equal" by (rule Equal_cong_left [OF that])
  ultimately show ?case using Cons c by auto
qed auto

lemma child_get_cong: "cmp k k' = Equal \<Longrightarrow> child_get cmp k cs = child_get cmp k' cs"
  by (induction cs) (auto simp: Equal_cong_left)

lemma trie_index_insert:
  "trie_index cmp p (trie_insert cmp mark i ks t) =
     (if length p < length ks \<and> path_eq p (take (length p) ks) \<and> mark (ks ! length p) \<and> trie_index cmp p t = None
      then Some i else trie_index cmp p t)"
proof (induction ks arbitrary: p t)
  case (Cons k ks)
  show ?case
  proof (cases p)
    case (Cons q p')
    show ?thesis
    proof (cases "cmp q k = Equal")
      case True
      then have g: "child_get cmp q (children t) = child_get cmp k (children t)" by (rule child_get_cong)
      show ?thesis
        using Cons True g Cons.IH [of p' "case child_get cmp k (children t) of Some c \<Rightarrow> c | None \<Rightarrow> trie_new"]
        by (auto simp: child_get_set split: option.splits)
    qed (use Cons in \<open>simp add: child_get_set\<close>)
  qed simp
qed simp

lemma trie_find_indices:
  "trie_find cmp ks t ind =
     foldl push_index ind (List.map_filter (\<lambda>n. trie_index cmp (take n ks) t) [0..<length ks])"
proof (induction ks arbitrary: t ind)
  case (Cons k ks)
  have upt: "[0..<length (k # ks)] = 0 # map Suc [0..<length ks]"
    by (simp add: map_Suc_upt upt_conv_Cons del: upt_Suc)
  have tail: "List.map_filter (\<lambda>n. trie_index cmp (take n (k # ks)) t) (map Suc ns) =
      (case child_get cmp k (children t) of
         Some c \<Rightarrow> List.map_filter (\<lambda>n. trie_index cmp (take n ks) c) ns | None \<Rightarrow> [])" for ns
    by (induction ns) (auto simp: List.map_filter_simps split: option.splits)
  show ?case unfolding upt
    using Cons.IH
    by (cases "index t"; cases "child_get cmp k (children t)")
       (auto simp: List.map_filter_simps tail push_index_def simp del: take_Suc_Cons)
qed (simp add: List.map_filter_simps)

end

fun first_some :: "'a option list \<Rightarrow> 'a option" where
  "first_some [] = None"
| "first_some (x # xs) = (case x of Some v \<Rightarrow> Some v | None \<Rightarrow> first_some xs)"

lemma first_some_push:
  "first_some (map g (rev (foldl push_index [] is))) = first_some (map g (rev is))"
proof (induction "is" rule: rev_induct)
  case (snoc i "is")
  show ?case
  proof (cases "foldl push_index [] is \<noteq> [] \<and> last (foldl push_index [] is) = i")
    case True
    then obtain r where "rev (foldl push_index [] is) = i # r"
      by (cases "foldl push_index [] is" rule: rev_cases) auto
    moreover have "push_index (foldl push_index [] is) i = foldl push_index [] is" using True by (simp add: push_index_def)
    ultimately show ?thesis using snoc by (auto split: option.splits)
  next
    case False
    then have "push_index (foldl push_index [] is) i = foldl push_index [] is @ [i]" by (auto simp: push_index_def)
    with snoc show ?thesis by (auto split: option.splits)
  qed
qed simp

section \<open>Laws of the layers\<close>

lemma inherit_fold:
  assumes "distinct (map fst kvs)" "\<forall>k \<in> set seen. k \<notin> fst ` set kvs"
  shows "map_of (fst (foldl inherit_entry (m, seen) kvs)) = map_of m ++ map_of kvs"
  using assms
proof (induction kvs arbitrary: m seen)
  case (Cons kv kvs)
  obtain k v where kv: "kv = (k, v)" by (cases kv)
  have step: "inherit_entry (m, seen) kv = (AList.update k v m, k # seen)"
    using Cons.prems kv by (auto simp: inherit_entry_def split: option.splits)
  have "map_of (fst (foldl inherit_entry (AList.update k v m, k # seen) kvs)) = map_of (AList.update k v m) ++ map_of kvs"
    by (rule Cons.IH) (use Cons.prems kv in auto)
  moreover have "map_of kvs k = None" using Cons.prems(1) kv by (auto simp: map_of_eq_None_iff)
  ultimately show ?case
    using kv step by (auto simp: update_conv' map_add_def fun_eq_iff split: option.splits)
qed simp

lemma distinct_inherit_fold:
  "distinct (map fst m) \<Longrightarrow> distinct (map fst (fst (foldl inherit_entry (m, seen) kvs)))"
proof (induction kvs arbitrary: m seen)
  case (Cons kv kvs)
  then show ?case
    by (cases kv) (auto simp: inherit_entry_def distinct_update split: option.splits)
qed simp

lemma inherit_layers:
  assumes "\<forall>c \<in> set cs. distinct (map fst (sc_entries c))" "distinct (map fst es)"
  shows "map_of (foldl (inherit_layer cs) es ls) k =
    first_some (map_of es k # map (\<lambda>l. if l < length cs then map_of (sc_entries (cs ! l)) k else None) ls)"
  using assms(2)
proof (induction ls arbitrary: es)
  case (Cons l ls)
  have d: "distinct (map fst (inherit_layer cs es l))"
    using Cons.prems assms(1) by (auto simp: inherit_layer_def distinct_inherit_fold)
  have "map_of (inherit_layer cs es l) k =
      first_some [map_of es k, if l < length cs then map_of (sc_entries (cs ! l)) k else None]"
    using inherit_fold [OF Cons.prems, of "[]" "sc_entries (cs ! l)"]
    by (auto simp: inherit_layer_def map_add_def split: option.splits)
  then show ?case using Cons.IH [OF d] by (auto split: option.splits)
qed (simp split: option.splits)

lemma premerge_loop_eq:
  "premerge_loop t cs new = new @ rev (map (\<lambda>i. (cs ! i)\<lparr>sc_entries :=
     foldl (inherit_layer (take i cs)) (sc_entries (cs ! i)) (find_indices t (sc_filters (cs ! i)))\<rparr>) [0..<length cs])"
proof (induction cs arbitrary: new rule: rev_induct)
  case Nil
  then show ?case by (simp add: premerge_loop.simps [of _ "[]"])
next
  case (snoc c cs)
  have "map (\<lambda>i. ((cs @ [c]) ! i)\<lparr>sc_entries := foldl (inherit_layer (take i (cs @ [c]))) (sc_entries ((cs @ [c]) ! i))
          (find_indices t (sc_filters ((cs @ [c]) ! i)))\<rparr>) [0..<length cs] =
      map (\<lambda>i. (cs ! i)\<lparr>sc_entries := foldl (inherit_layer (take i cs)) (sc_entries (cs ! i))
          (find_indices t (sc_filters (cs ! i)))\<rparr>) [0..<length cs]"
    by (rule map_cong) (auto simp: nth_append)
  then show ?case
    by (subst premerge_loop.simps) (simp add: snoc Let_def)
qed

section \<open>Filter keys\<close>

lemma total_cmp_status: "total_cmp status_cmp"
proof -
  have eq: "status_cmp = (\<lambda>a b. cmp_option cmp_of (case a of Any \<Rightarrow> None | Status x \<Rightarrow> Some x) (case b of Any \<Rightarrow> None | Status x \<Rightarrow> Some x))"
  proof (intro ext)
    show "status_cmp a b = cmp_option cmp_of (case a of Any \<Rightarrow> None | Status x \<Rightarrow> Some x) (case b of Any \<Rightarrow> None | Status x \<Rightarrow> Some x)"
      for a b by (cases a; cases b) simp_all
  qed
  show ?thesis unfolding eq by (rule total_cmp_vimage [OF total_cmp_option [OF total_cmp_of]])
qed

lemma status_cmp_Equal_iff [simp]: "status_cmp a b = Equal \<longleftrightarrow> a = b"
  by (cases a; cases b) simp_all

lemma total_cmp_condition_tuple: "total_cmp condition_tuple_cmp"
  unfolding condition_tuple_cmp_def
  by (rule total_cmp_option [OF total_cmp_pair [OF total_cmp_string total_cmp_list [OF total_cmp_conditional]]])

interpretation mcmp: total_cmp merge_cmp
  unfolding merge_cmp_def
  by (rule total_cmp_then_with [OF total_cmp_vimage [OF total_cmp_of]
        total_cmp_then_with [OF total_cmp_vimage [OF total_cmp_option [OF total_cmp_of]]
        total_cmp_then_with [OF total_cmp_vimage [OF total_cmp_option [OF total_cmp_ip]]
        total_cmp_then_with [OF total_cmp_vimage [OF total_cmp_option [OF total_cmp_string]]
        total_cmp_then_with [OF total_cmp_vimage [OF total_cmp_condition_tuple]
                                total_cmp_vimage [OF total_cmp_option [OF total_cmp_status]]]]]]])

text \<open>The derived order of trie keys is the lexicographic order of the variant and its payload.\<close>

definition key_filters :: "ServerConfigurationFilter \<Rightarrow> ServerConfigurationFilters" where
  "key_filters k =
     (case k of
        FIsHost x \<Rightarrow> no_filters x
      | FPort x \<Rightarrow> (no_filters False)\<lparr>port := x\<rparr>
      | FIp x \<Rightarrow> (no_filters False)\<lparr>ip := x\<rparr>
      | FHostname x \<Rightarrow> (no_filters False)\<lparr>hostname := x\<rparr>
      | FCondition x \<Rightarrow> (no_filters False)\<lparr>condition := map_option (\<lambda>(l, cs). \<lparr>location_prefix = l, conditionals = cs\<rparr>) x\<rparr>
      | FErrorHandlerStatus x \<Rightarrow> (no_filters False)\<lparr>error_handler_status := x\<rparr>)"

lemma condition_tuple_map [simp]:
  "map_option ((\<lambda>s. (location_prefix s, conditionals s)) \<circ> (\<lambda>(l, cs). \<lparr>location_prefix = l, conditionals = cs\<rparr>)) x = x"
  by (cases x) auto

lemma filter_cmp_lexicographic:
  "filter_cmp a b = then_with (cmp_of (filter_discriminant a) (filter_discriminant b)) (merge_cmp (key_filters a) (key_filters b))"
  by (cases a; cases b)
     (simp_all add: filter_cmp_def key_filters_def merge_cmp_def no_filters_def condition_tuple_def option.map_comp
       cmp_of_def condition_tuple_cmp_def)

interpretation kcmp: total_cmp filter_cmp
proof -
  have eq: "filter_cmp = (\<lambda>a b. then_with (cmp_of (filter_discriminant a) (filter_discriminant b)) (merge_cmp (key_filters a) (key_filters b)))"
    by (intro ext) (rule filter_cmp_lexicographic)
  show "total_cmp filter_cmp" unfolding eq
    by (rule total_cmp_then_with [OF total_cmp_vimage [OF total_cmp_of] total_cmp_vimage [OF mcmp.total_cmp_axioms]])
qed

text \<open>Two filters with the same keys are equally specific.\<close>

lemma cmp_list_Equal_length: "cmp_list c xs ys = Equal \<Longrightarrow> length xs = length ys"
  by (induction c xs ys rule: cmp_list.induct) auto

lemma merge_Equal_iff:
  "merge_cmp a b = Equal \<longleftrightarrow> is_host a = is_host b \<and> port a = port b \<and> ip a = ip b \<and> hostname a = hostname b \<and>
     condition_tuple_cmp (condition_tuple a) (condition_tuple b) = Equal \<and> error_handler_status a = error_handler_status b"
  by (simp add: merge_cmp_def cmp_option_Equal_iff)

lemma condition_tuple_Equal_cmp:
  "condition_tuple_cmp (condition_tuple a) (condition_tuple b) = Equal \<Longrightarrow>
   cmp_option conditions_cmp (condition a) (condition b) = Equal"
  by (cases "condition a"; cases "condition b")
     (auto simp: condition_tuple_cmp_def condition_tuple_def cmp_pair_def conditions_cmp_def dest: cmp_list_Equal_length)

lemma merge_Equal_filters: "merge_cmp a b = Equal \<Longrightarrow> filters_cmp a b = Equal"
  by (auto simp: merge_Equal_iff filters_cmp_def cmp_option_Equal_iff dest: condition_tuple_Equal_cmp)

text \<open>
  The layers a configuration inherits from: its filters cut off after the host flag, the port, the
  address, the host name or the condition.
\<close>

definition cut_filters :: "nat \<Rightarrow> ServerConfigurationFilters \<Rightarrow> ServerConfigurationFilters" where
  "cut_filters n f =
     \<lparr>is_host = (n \<ge> 1 \<and> is_host f), hostname = (if n \<ge> 4 then hostname f else None), ip = (if n \<ge> 3 then ip f else None),
      port = (if n \<ge> 2 then port f else None), condition = (if n \<ge> 5 then condition f else None),
      error_handler_status = (if n \<ge> 6 then error_handler_status f else None)\<rparr>"

lemma less_6_cases: "(n::nat) < 6 \<Longrightarrow> n = 0 \<or> n = 1 \<or> n = 2 \<or> n = 3 \<or> n = 4 \<or> n = 5"
  by auto

lemma filters_eq_iff:
  "(f :: ServerConfigurationFilters) = g \<longleftrightarrow> is_host f = is_host g \<and> hostname f = hostname g \<and> ip f = ip g \<and> port f = port g \<and>
     condition f = condition g \<and> error_handler_status f = error_handler_status g"
  by (cases f; cases g) auto

lemma condition_tuple_None [simp]: "condition_tuple f = None \<longleftrightarrow> condition f = None"
  by (simp add: condition_tuple_def)

lemma condition_tuple_cmp_None [simp]: "condition_tuple_cmp x None = Equal \<longleftrightarrow> x = None"
  by (cases x) (simp_all add: condition_tuple_cmp_def)

lemma condition_tuple_cut [simp]:
  "condition_tuple (cut_filters n f) = (if n \<ge> 5 then condition_tuple f else None)"
  by (simp add: condition_tuple_def cut_filters_def)

lemma filter_vec_nth_mark:
  assumes "n < 6"
  shows "(kcmp.path_eq (take n (filter_vec f)) (take n (filter_vec g)) \<and> nothing_left g (filter_vec g ! n)) \<longleftrightarrow>
    merge_cmp g (cut_filters n f) = Equal"
  using less_6_cases [OF assms]
  by (elim disjE; simp add: filter_vec_def merge_Equal_iff
      numeral_eq_Suc filter_cmp_def cmp_option_Equal_iff del: condition_tuple_cut)
     (auto simp: cut_filters_def condition_tuple_def dest: total_cmp.Equal_sym [OF total_cmp_condition_tuple])

lemma cut_filters_Less:
  assumes "n < 6" "cut_filters n f \<noteq> f"
  shows "filters_cmp (cut_filters n f) f = Less"
proof -
  have c: "conditions_cmp c c = Equal" for c by (rule total_cmp.cmp_refl [OF total_cmp_conditions])
  have o: "cmp_option cmp_of x x = Equal" for x :: "'x::linorder option"
    by (rule total_cmp.cmp_refl [OF total_cmp_option [OF total_cmp_of]])
  show ?thesis
    using less_6_cases [OF assms(1)] assms(2)
    by (elim disjE; cases "hostname f"; cases "condition f"; cases "port f"; cases "ip f"; cases "error_handler_status f")
       (auto simp: filters_eq_iff cut_filters_def filters_cmp_def then_with_eq_Less cmp_of_def c o)
qed

section \<open>What the trie finds\<close>

lemma find_append: "find P (xs @ ys) = (case find P xs of Some x \<Rightarrow> Some x | None \<Rightarrow> find P ys)"
  by (induction xs) auto

lemma find_cong_set: "(\<And>x. x \<in> set xs \<Longrightarrow> P x = Q x) \<Longrightarrow> find P xs = find Q xs"
  by (induction xs) auto

lemma find_nth: "find P cs = map_option (\<lambda>i. cs ! i) (find (\<lambda>i. P (cs ! i)) [0..<length cs])"
proof (induction cs rule: rev_induct)
  case (snoc c cs)
  have "find (\<lambda>i. P ((cs @ [c]) ! i)) [0..<length cs] = find (\<lambda>i. P (cs ! i)) [0..<length cs]"
    by (rule find_cong_set) (simp add: nth_append)
  moreover have "find (\<lambda>i. P ((cs @ [c]) ! i)) [length cs] = (if P c then Some (length cs) else None)" by simp
  ultimately have e: "find (\<lambda>i. P ((cs @ [c]) ! i)) [0..<length (cs @ [c])] =
      (case find (\<lambda>i. P (cs ! i)) [0..<length cs] of Some i \<Rightarrow> Some i | None \<Rightarrow> if P c then Some (length cs) else None)"
    by (simp only: length_append_singleton upt_Suc_append le0 find_append)
  show ?case
  proof (cases "find (\<lambda>i. P (cs ! i)) [0..<length cs]")
    case None
    then show ?thesis unfolding e using snoc by (simp add: find_append)
  next
    case (Some i)
    then have "i < length cs" by (auto simp: find_Some_iff)
    with Some show ?thesis unfolding e using snoc by (simp add: find_append nth_append)
  qed
qed simp

lemma trie_index_insert_filters:
  assumes "n < 6"
  shows "trie_index filter_cmp (take n (filter_vec f)) (insert_filters g i t) =
    (if merge_cmp g (cut_filters n f) = Equal \<and> trie_index filter_cmp (take n (filter_vec f)) t = None then Some i
     else trie_index filter_cmp (take n (filter_vec f)) t)"
proof -
  have l: "length (take n (filter_vec f)) = n" "length (filter_vec g) = 6" using assms by (simp_all add: filter_vec_def)
  have "n < 6 \<and> kcmp.path_eq (take n (filter_vec f)) (take n (filter_vec g)) \<and> nothing_left g (filter_vec g ! n) \<and> x \<longleftrightarrow>
      merge_cmp g (cut_filters n f) = Equal \<and> x" for x
    using filter_vec_nth_mark [OF assms, of f g] assms by blast
  then show ?thesis unfolding insert_filters_def kcmp.trie_index_insert l by presburger
qed

lemma trie_index_build:
  assumes "n < 6"
  shows "trie_index filter_cmp (take n (filter_vec f)) (build_trie cs) =
    find (\<lambda>i. merge_cmp (sc_filters (cs ! i)) (cut_filters n f) = Equal) [0..<length cs]"
proof (induction cs rule: rev_induct)
  case Nil
  then show ?case by (simp add: build_trie_def)
next
  case (snoc c cs)
  have b: "build_trie (cs @ [c]) = insert_filters (sc_filters c) (length cs) (build_trie cs)"
    by (simp add: build_trie_def enumerate_append_eq)
  have "find (\<lambda>i. merge_cmp (sc_filters ((cs @ [c]) ! i)) (cut_filters n f) = Equal) [0..<length cs] =
      find (\<lambda>i. merge_cmp (sc_filters (cs ! i)) (cut_filters n f) = Equal) [0..<length cs]"
    by (rule find_cong_set) (simp add: nth_append)
  then show ?case
    unfolding b trie_index_insert_filters [OF assms] snoc
    by (simp add: find_append split: option.split)
qed

lemma map_filter_cong: "(\<And>n. n \<in> set ns \<Longrightarrow> h n = h' n) \<Longrightarrow> List.map_filter h ns = List.map_filter h' ns"
  by (induction ns) (auto simp: List.map_filter_simps split: option.split)

lemma find_indices_build:
  "find_indices (build_trie cs) f =
     rev (foldl push_index [] (List.map_filter
       (\<lambda>n. find (\<lambda>i. merge_cmp (sc_filters (cs ! i)) (cut_filters n f) = Equal) [0..<length cs]) [0..<6]))"
proof -
  have l: "length (filter_vec f) = 6" by (simp add: filter_vec_def)
  have "List.map_filter (\<lambda>n. trie_index filter_cmp (take n (filter_vec f)) (build_trie cs)) [0..<6] =
      List.map_filter (\<lambda>n. find (\<lambda>i. merge_cmp (sc_filters (cs ! i)) (cut_filters n f) = Equal) [0..<length cs]) [0..<6]"
    by (rule map_filter_cong) (simp add: trie_index_build)
  then show ?thesis unfolding find_indices_def kcmp.trie_find_indices l by (rule arg_cong)
qed

lemma first_some_map_filter:
  "first_some (map g (rev (List.map_filter h ns))) = first_some (map (\<lambda>n. Option.bind (h n) g) (rev ns))"
proof -
  have "first_some (map g (List.map_filter h ns)) = first_some (map (\<lambda>n. Option.bind (h n) g) ns)" for ns
    by (induction ns) (auto simp: List.map_filter_simps split: option.splits)
  moreover have "rev (List.map_filter h ns) = List.map_filter h (rev ns)"
    by (simp add: List.map_filter_def rev_map rev_filter)
  ultimately show ?thesis by simp
qed

section \<open>Inheritance\<close>

definition distinct_filters :: "('m, 'o) ServerConfiguration list \<Rightarrow> bool" where
  "distinct_filters cs \<longleftrightarrow>
     list_all (\<lambda>c. length (filter (\<lambda>d. merge_cmp (sc_filters d) (sc_filters c) = Equal) cs) = 1) cs"

definition well_formed_entries :: "('m, 'o) ServerConfiguration list \<Rightarrow> bool" where
  "well_formed_entries cs \<longleftrightarrow> list_all (\<lambda>c. distinct (map fst (sc_entries c))) cs"

definition layer_of ::
  "('m, 'o) ServerConfiguration list \<Rightarrow> ServerConfigurationFilters \<Rightarrow> nat \<Rightarrow> ('m, 'o) ServerConfiguration option" where
  "layer_of cs f n = find (\<lambda>d. merge_cmp (sc_filters d) (cut_filters n f) = Equal) cs"

definition layered_lookup ::
  "('m, 'o) ServerConfiguration list \<Rightarrow> ('m, 'o) ServerConfiguration \<Rightarrow> string \<Rightarrow> entries option" where
  "layered_lookup cs c k =
     first_some (map_of (sc_entries c) k #
       map (\<lambda>n. Option.bind (layer_of cs (sc_filters c) n) (\<lambda>d. map_of (sc_entries d) k)) [5, 4, 3, 2, 1, 0])"

lemma filter_two:
  assumes "i < j" "j < length xs" "P (xs ! i)" "P (xs ! j)"
  shows "length (filter P xs) \<ge> 2"
proof -
  have "xs ! i \<in> set (filter P (take j xs))" using assms by (auto simp: in_set_conv_nth)
  moreover have "xs ! j \<in> set (filter P (drop j xs))" using assms by (auto simp: in_set_conv_nth intro: exI [of _ 0])
  ultimately have "filter P (take j xs) \<noteq> []" "filter P (drop j xs) \<noteq> []"
    by (metis empty_iff empty_set)+
  then have "length (filter P (take j xs)) \<ge> 1" "length (filter P (drop j xs)) \<ge> 1"
    by (simp_all add: Suc_le_eq)
  moreover have "filter P xs = filter P (take j xs) @ filter P (drop j xs)"
    by (metis append_take_drop_id filter_append)
  ultimately show ?thesis by simp
qed

lemma distinct_filters_unique:
  assumes "distinct_filters cs" "i < length cs" "j < length cs"
    "merge_cmp (sc_filters (cs ! i)) (sc_filters (cs ! j)) = Equal"
  shows "i = j"
proof (rule ccontr)
  let ?P = "\<lambda>d. merge_cmp (sc_filters d) (sc_filters (cs ! j)) = Equal"
  assume "i \<noteq> j"
  then have "length (filter ?P cs) \<ge> 2"
    using assms filter_two [of i j cs ?P] filter_two [of j i cs ?P] by (cases "i < j") (auto simp: mcmp.cmp_refl)
  moreover have "length (filter ?P cs) = 1"
    using assms(1,3) by (simp add: distinct_filters_def list_all_iff)
  ultimately show False by simp
qed

lemma distinct_filters_mset:
  assumes "mset cs = mset ds"
  shows "distinct_filters cs = distinct_filters ds"
proof -
  have "length (filter P cs) = length (filter P ds)" for P
    by (metis assms mset_filter size_mset)
  moreover have "set cs = set ds" by (metis assms set_mset_mset)
  ultimately show ?thesis by (simp add: distinct_filters_def list_all_iff)
qed

text \<open>In a list sorted by specificity a layer other than the configuration itself comes before it.\<close>

lemma layer_index_le:
  assumes "scmp.sorted_by cs" "distinct_filters cs" "p < length cs" "i < length cs" "n < 6"
    "merge_cmp (sc_filters (cs ! i)) (cut_filters n (sc_filters (cs ! p))) = Equal"
  shows "i \<le> p"
proof (cases "cut_filters n (sc_filters (cs ! p)) = sc_filters (cs ! p)")
  case True
  then show ?thesis using assms distinct_filters_unique [OF assms(2,4,3)] by simp
next
  case False
  have "filters_cmp (sc_filters (cs ! i)) (cut_filters n (sc_filters (cs ! p))) = Equal"
    using assms(6) by (rule merge_Equal_filters)
  then have l: "filters_cmp (sc_filters (cs ! i)) (sc_filters (cs ! p)) = Less"
    using cut_filters_Less [OF assms(5) False] fcmp.Equal_cong_left by metis
  show ?thesis
  proof (rule ccontr)
    assume "\<not> i \<le> p"
    then have "filters_cmp (sc_filters (cs ! p)) (sc_filters (cs ! i)) \<noteq> Greater"
      using assms(1,4) by (simp add: sorted_wrt_iff_nth_less)
    then show False using l fcmp.Greater_iff by metis
  qed
qed

lemma premerge_entry:
  assumes "scmp.sorted_by cs" "distinct_filters cs" "well_formed_entries cs" "p < length cs"
  shows "map_of (foldl (inherit_layer (take p cs)) (sc_entries (cs ! p)) (find_indices (build_trie cs) (sc_filters (cs ! p)))) k =
    layered_lookup cs (cs ! p) k"
proof (cases "map_of (sc_entries (cs ! p)) k")
  case (Some v)
  have "\<forall>c \<in> set (take p cs). distinct (map fst (sc_entries c))" "distinct (map fst (sc_entries (cs ! p)))"
    using assms(3,4) by (auto simp: well_formed_entries_def list_all_iff dest: in_set_takeD)
  from inherit_layers [OF this] Some show ?thesis by (simp add: layered_lookup_def)
next
  case None
  let ?f = "sc_filters (cs ! p)"
  let ?h = "\<lambda>n. find (\<lambda>i. merge_cmp (sc_filters (cs ! i)) (cut_filters n ?f) = Equal) [0..<length cs]"
  let ?g = "\<lambda>l. if l < length (take p cs) then map_of (sc_entries (take p cs ! l)) k else None"
  have wf: "\<forall>c \<in> set (take p cs). distinct (map fst (sc_entries c))" "distinct (map fst (sc_entries (cs ! p)))"
    using assms(3,4) by (auto simp: well_formed_entries_def list_all_iff dest: in_set_takeD)
  have layer: "Option.bind (?h n) ?g = Option.bind (layer_of cs ?f n) (\<lambda>d. map_of (sc_entries d) k)" if "n < 6" for n
  proof (cases "?h n")
    case None
    then show ?thesis by (simp add: layer_of_def find_nth [of _ cs])
  next
    case (Some i)
    then have i: "i < length cs" "merge_cmp (sc_filters (cs ! i)) (cut_filters n ?f) = Equal"
      by (auto simp: find_Some_iff)
    have "i \<le> p" by (rule layer_index_le [OF assms(1,2,4) i(1) that i(2)])
    then show ?thesis using Some \<open>map_of (sc_entries (cs ! p)) k = None\<close> i assms(4)
      by (auto simp: layer_of_def find_nth [of _ cs] le_less)
  qed
  have "[0..<6] = [0, 1, 2, 3, 4, 5 :: nat]" by code_simp
  then have "first_some (map ?g (find_indices (build_trie cs) ?f)) =
      first_some (map (\<lambda>n. Option.bind (layer_of cs ?f n) (\<lambda>d. map_of (sc_entries d) k)) [5, 4, 3, 2, 1, 0])"
    by (simp only: find_indices_build first_some_push first_some_map_filter) (simp only: rev.simps append.simps list.map layer
        numeral_less_iff semiring_norm zero_less_numeral one_less_numeral_iff)
  then show ?thesis using inherit_layers [OF wf] None by (simp add: layered_lookup_def del: map_upt_eqI)
qed

lemma premerge_layers_pre:
  assumes "distinct_filters cs" "well_formed_entries cs"
  shows "let s = sort_by (\<lambda>a b. filters_cmp (sc_filters a) (sc_filters b)) cs; out = premerge_configuration cs
    in map sc_filters out = map sc_filters s \<and> map sc_modules out = map sc_modules s \<and>
       (\<forall>i < length s. \<forall>k. map_of (sc_entries (out ! i)) k = layered_lookup s (s ! i) k)"
proof -
  let ?s = "sort_by (\<lambda>a b. filters_cmp (sc_filters a) (sc_filters b)) cs"
  have s: "scmp.sorted_by ?s" by (rule scmp.sorted_sort_by)
  have d: "distinct_filters ?s" using assms(1) distinct_filters_mset [of ?s cs] by simp
  have w: "well_formed_entries ?s" using assms(2) by (simp add: well_formed_entries_def list_all_iff)
  have out: "premerge_configuration cs = map (\<lambda>i. (?s ! i)\<lparr>sc_entries :=
      foldl (inherit_layer (take i ?s)) (sc_entries (?s ! i)) (find_indices (build_trie ?s) (sc_filters (?s ! i)))\<rparr>) [0..<length ?s]"
    by (simp add: premerge_configuration_def premerge_loop_eq Let_def)
  have "map sc_filters (premerge_configuration cs) = map sc_filters ?s"
    "map sc_modules (premerge_configuration cs) = map sc_modules ?s"
    unfolding out by (rule nth_equalityI; simp)+
  moreover have "map_of (sc_entries (premerge_configuration cs ! i)) k = layered_lookup ?s (?s ! i) k" if "i < length ?s" for i k
    using premerge_entry [OF s d w that] that unfolding out by simp
  ultimately show ?thesis by (simp add: Let_def)
qed

text \<open>
  C11: Pre-merging implements layered inheritance. For configurations with pairwise different
  filters, as the sort order compares them (so not for two blocks of a host that differ only in the language they are for),
  and with each property once, the result lists them by specificity with filters unchanged, and every property of a
  configuration is the one it sets itself or else the one of the closest enclosing layer that sets
  it: the same filters without the error handler, then without the condition, the host name, the
  address, the port, and last the \<open>globals\<close> block.
\<close>

theorem premerge_configuration_layers:
  assumes "distinct_filters cs" "well_formed_entries cs"
  shows "let s = sort_by (\<lambda>a b. filters_cmp (sc_filters a) (sc_filters b)) cs; out = premerge_configuration cs
    in map sc_filters out = map sc_filters s \<and> map sc_modules out = map sc_modules s \<and>
       (\<forall>i < length s. \<forall>k. map_of (sc_entries (out ! i)) k = layered_lookup s (s ! i) k)"
  by (rule premerge_layers_pre [OF assms])

definition example_config :: "bool \<Rightarrow> string option \<Rightarrow> entries hashmap \<Rightarrow> (unit, unit) ServerConfiguration" where
  "example_config host h es =
     \<lparr>sc_entries = es, sc_filters = (no_filters host)\<lparr>hostname := h\<rparr>, sc_modules = [], sc_observability = ()\<rparr>"

theorem premerge_configuration_layers_witness:
  "let e = [\<lparr>entry_values = [VBool True], entry_props = []\<rparr>]; f = [\<lparr>entry_values = [VBool False], entry_props = []\<rparr>];
       cs = [example_config True (Some ''x'') [(''gzip'', f)], example_config False None [(''gzip'', e), (''log'', e)]]
   in distinct_filters cs \<and> well_formed_entries cs \<and>
      map_of (sc_entries (premerge_configuration cs ! 1)) ''log'' = Some e \<and>
      map_of (sc_entries (premerge_configuration cs ! 1)) ''gzip'' = Some f"
proof -
  let ?e = "[\<lparr>entry_values = [VBool True], entry_props = []\<rparr>]" and ?f = "[\<lparr>entry_values = [VBool False], entry_props = []\<rparr>]"
  let ?cs = "[example_config True (Some ''x'') [(''gzip'', ?f)], example_config False None [(''gzip'', ?e), (''log'', ?e)]]"
  let ?s = "sort_by (\<lambda>a b. filters_cmp (sc_filters a) (sc_filters b)) ?cs"
  have h: "distinct_filters ?cs" "well_formed_entries ?cs" by code_simp+
  have l: "1 < length ?s" "layered_lookup ?s (?s ! 1) ''log'' = Some ?e" "layered_lookup ?s (?s ! 1) ''gzip'' = Some ?f" by code_simp+
  show ?thesis using premerge_configuration_layers [OF h] h l unfolding Let_def by metis
qed

end
