(* ===== verification/Config_Pipeline.thy ===== *)
theory Config_Pipeline
  imports Config_Processing
begin

text \<open>
  The steps \<open>main.rs\<close> runs on the parsed configurations, in order: duplicates are merged, empty blocks
  removed and the default \<open>globals\<close> block added, the layers pre-merged, and the modules loaded
  (\<open>load_modules\<close> of \<open>ferron/src/config/processing.rs\<close>). The theory holds the laws of merging, the
  contract of the whole pipeline and the model of module loading.
\<close>

section \<open>Merging\<close>

fun combine :: "entries option \<Rightarrow> entries option \<Rightarrow> entries option" where
  "combine None y = y"
| "combine (Some a) None = Some a"
| "combine (Some a) (Some b) = Some (a @ b)"

text \<open>All the entries of one property that a group of blocks declares, in the order of the blocks.\<close>

definition combined_property :: "('m, 'o) ServerConfiguration list \<Rightarrow> string \<Rightarrow> entries option" where
  "combined_property blocks k = foldl combine None (map (\<lambda>c. map_of (sc_entries c) k) blocks)"

lemma combine_None_right [simp]: "combine x None = x"
  by (cases x) auto

lemma merge_entries_lookup:
  assumes "distinct (map fst other)"
  shows "map_of (merge_entries current other) k = combine (map_of current k) (map_of other k)"
  using assms unfolding merge_entries_def
proof (induction other arbitrary: current)
  case (Cons kv other)
  obtain k' v where kv: "kv = (k', v)" by (cases kv)
  have "map_of other k' = None" using Cons.prems kv by (auto simp: map_of_eq_None_iff)
  then show ?case using Cons kv by (cases "map_of current k'") (auto simp: update_conv')
qed simp

lemma distinct_merge_entries: "distinct (map fst current) \<Longrightarrow> distinct (map fst (merge_entries current other))"
  unfolding merge_entries_def by (induction other arbitrary: current) (auto simp: distinct_update)

lemma absorb_eq:
  "absorb c cs = (c\<lparr>sc_entries := foldl merge_entries (sc_entries c) (map sc_entries (takeWhile (\<lambda>d. filters_eq (sc_filters d) (sc_filters c)) cs))\<rparr>,
     dropWhile (\<lambda>d. filters_eq (sc_filters d) (sc_filters c)) cs)"
  by (induction c cs rule: absorb.induct) auto

lemma fold_merge_entries:
  assumes "\<forall>c \<in> set cs. distinct (map fst (sc_entries c))"
  shows "map_of (foldl merge_entries es (map sc_entries cs)) k = foldl combine (map_of es k) (map (\<lambda>c. map_of (sc_entries c) k) cs)"
  using assms by (induction cs arbitrary: es) (auto simp: merge_entries_lookup)

lemma distinct_fold_merge_entries:
  "distinct (map fst es) \<Longrightarrow> distinct (map fst (foldl merge_entries es ess))"
  by (induction ess arbitrary: es) (auto simp: distinct_merge_entries)

interpretation mscmp: total_cmp "\<lambda>a b. merge_cmp (sc_filters a) (sc_filters b)"
  by (rule total_cmp_vimage [OF mcmp.total_cmp_axioms])

text \<open>The order used for sorting tells exactly the different filters apart.\<close>

definition keys_agree :: "('m, 'o) ServerConfiguration list \<Rightarrow> bool" where
  "keys_agree cs \<longleftrightarrow> list_all (\<lambda>a. list_all (\<lambda>b.
     (merge_cmp (sc_filters a) (sc_filters b) = Equal) = filters_eq (sc_filters a) (sc_filters b)) cs) cs"

lemma keys_agreeD:
  "keys_agree cs \<Longrightarrow> a \<in> set cs \<Longrightarrow> b \<in> set cs \<Longrightarrow>
   merge_cmp (sc_filters a) (sc_filters b) = Equal \<longleftrightarrow> filters_eq (sc_filters a) (sc_filters b)"
  by (auto simp: keys_agree_def list_all_iff)

lemma keys_agree_subset: "keys_agree cs \<Longrightarrow> set ds \<subseteq> set cs \<Longrightarrow> keys_agree ds"
  by (auto simp: keys_agree_def list_all_iff)

lemma sorted_takeWhile_filter:
  assumes "mscmp.sorted_by (c # cs)" "keys_agree (c # cs)"
  shows "takeWhile (\<lambda>d. filters_eq (sc_filters d) (sc_filters c)) cs = filter (\<lambda>d. filters_eq (sc_filters d) (sc_filters c)) cs \<and>
    dropWhile (\<lambda>d. filters_eq (sc_filters d) (sc_filters c)) cs = filter (\<lambda>d. \<not> filters_eq (sc_filters d) (sc_filters c)) cs"
  using assms
proof (induction cs)
  case (Cons d cs)
  have IH: "mscmp.sorted_by (c # cs)" "keys_agree (c # cs)"
    using Cons.prems keys_agree_subset [OF Cons.prems(2), of "c # cs"] by auto
  show ?case
  proof (cases "filters_eq (sc_filters d) (sc_filters c)")
    case True
    then show ?thesis using Cons.IH [OF IH] by simp
  next
    case False
    have "merge_cmp (sc_filters c) (sc_filters d) \<noteq> Greater" using Cons.prems(1) by simp
    moreover have "merge_cmp (sc_filters c) (sc_filters d) \<noteq> Equal"
      using keys_agreeD [OF Cons.prems(2), of c d] False filters_eq_sym [of "sc_filters d"] by simp
    ultimately have less: "merge_cmp (sc_filters c) (sc_filters d) = Less" by (cases "merge_cmp (sc_filters c) (sc_filters d)") auto
    have "\<not> filters_eq (sc_filters e) (sc_filters c)" if "e \<in> set cs" for e
    proof
      assume "filters_eq (sc_filters e) (sc_filters c)"
      then have "merge_cmp (sc_filters e) (sc_filters c) = Equal" using keys_agreeD [OF Cons.prems(2), of e c] that by simp
      moreover have "merge_cmp (sc_filters d) (sc_filters e) \<noteq> Greater" using Cons.prems(1) that by simp
      ultimately show False
        using mcmp.Less_le_trans [OF less, of "sc_filters e"] mcmp.Equal_sym by fastforce
    qed
    then have "filter (\<lambda>d. filters_eq (sc_filters d) (sc_filters c)) cs = []"
      "filter (\<lambda>d. \<not> filters_eq (sc_filters d) (sc_filters c)) cs = cs"
      by (auto simp: filter_empty_conv filter_id_conv)
    with False show ?thesis by simp
  qed
qed simp

lemma merge_adjacent_Cons:
  assumes "mscmp.sorted_by (c # cs)" "keys_agree (c # cs)"
  shows "merge_adjacent (c # cs) =
    c\<lparr>sc_entries := foldl merge_entries (sc_entries c) (map sc_entries (filter (\<lambda>d. filters_eq (sc_filters d) (sc_filters c)) cs))\<rparr> #
    merge_adjacent (filter (\<lambda>d. \<not> filters_eq (sc_filters d) (sc_filters c)) cs)"
  using sorted_takeWhile_filter [OF assms] by (simp add: absorb_eq)

lemma filter_other_group:
  assumes "\<not> filters_eq (sc_filters d) (sc_filters c)"
  shows "filter (\<lambda>e. filters_eq (sc_filters e) (sc_filters d)) (filter (\<lambda>e. \<not> filters_eq (sc_filters e) (sc_filters c)) cs) =
    filter (\<lambda>e. filters_eq (sc_filters e) (sc_filters d)) (c # cs)"
proof -
  have "\<not> filters_eq (sc_filters e) (sc_filters c)" if "filters_eq (sc_filters e) (sc_filters d)" for e
    using that assms filters_eq_trans filters_eq_sym by blast
  moreover have "\<not> filters_eq (sc_filters c) (sc_filters d)" using assms filters_eq_sym by blast
  ultimately show ?thesis by (auto intro: filter_cong)
qed

lemma merge_adjacent_groups:
  assumes "mscmp.sorted_by cs" "keys_agree cs" "well_formed_entries cs"
  shows "(\<forall>d \<in> set (merge_adjacent cs). (\<exists>c \<in> set cs. sc_filters d = sc_filters c) \<and> distinct (map fst (sc_entries d)) \<and>
      (\<forall>k. map_of (sc_entries d) k = combined_property (filter (\<lambda>c. filters_eq (sc_filters c) (sc_filters d)) cs) k)) \<and>
    (\<forall>c \<in> set cs. \<exists>d \<in> set (merge_adjacent cs). filters_eq (sc_filters c) (sc_filters d)) \<and>
    sorted_wrt (\<lambda>a b. \<not> filters_eq (sc_filters a) (sc_filters b)) (merge_adjacent cs)"
  using assms
proof (induction "length cs" arbitrary: cs rule: less_induct)
  case less
  show ?case
  proof (cases cs)
    case (Cons c rest)
    let ?Q = "\<lambda>d. filters_eq (sc_filters d) (sc_filters c)"
    let ?s = "filter (\<lambda>d. \<not> ?Q d) rest"
    let ?c = "c\<lparr>sc_entries := foldl merge_entries (sc_entries c) (map sc_entries (filter ?Q rest))\<rparr>"
    have ma: "merge_adjacent cs = ?c # merge_adjacent ?s"
      using merge_adjacent_Cons [of c rest] less.prems Cons by simp
    have wf: "\<forall>c \<in> set cs. distinct (map fst (sc_entries c))"
      using less.prems(3) by (simp add: well_formed_entries_def list_all_iff)
    have "length ?s < length cs" using Cons by (simp add: le_imp_less_Suc)
    moreover have "mscmp.sorted_by ?s" using less.prems(1) Cons by (auto intro: sorted_wrt_filter)
    moreover have "keys_agree ?s" by (rule keys_agree_subset [OF less.prems(2)]) (auto simp: Cons)
    moreover have "well_formed_entries ?s" using less.prems(3) Cons by (auto simp: well_formed_entries_def list_all_iff)
    ultimately have IH: "(\<forall>d \<in> set (merge_adjacent ?s). (\<exists>c \<in> set ?s. sc_filters d = sc_filters c) \<and> distinct (map fst (sc_entries d)) \<and>
        (\<forall>k. map_of (sc_entries d) k = combined_property (filter (\<lambda>c. filters_eq (sc_filters c) (sc_filters d)) ?s) k)) \<and>
      (\<forall>c \<in> set ?s. \<exists>d \<in> set (merge_adjacent ?s). filters_eq (sc_filters c) (sc_filters d)) \<and>
      sorted_wrt (\<lambda>a b. \<not> filters_eq (sc_filters a) (sc_filters b)) (merge_adjacent ?s)"
      by (rule less.hyps)
    have other: "\<not> filters_eq (sc_filters d) (sc_filters c)" if "d \<in> set (merge_adjacent ?s)" for d
      using IH that by fastforce
    have "map_of (sc_entries ?c) k = combined_property (filter ?Q cs) k" for k
      using wf Cons by (simp add: combined_property_def fold_merge_entries)
    moreover have "distinct (map fst (sc_entries ?c))" using wf Cons by (simp add: distinct_fold_merge_entries)
    moreover have "map_of (sc_entries d) k = combined_property (filter (\<lambda>c. filters_eq (sc_filters c) (sc_filters d)) cs) k"
      if "d \<in> set (merge_adjacent ?s)" for d k
      using IH that filter_other_group [OF other [OF that], of rest] Cons by metis
    moreover have "\<exists>d \<in> set (merge_adjacent cs). filters_eq (sc_filters e) (sc_filters d)" if "e \<in> set cs" for e
    proof (cases "?Q e")
      case True
      then show ?thesis unfolding ma by (intro bexI [of _ ?c]) auto
    next
      case False
      then have "e \<in> set ?s" using that Cons by auto
      with IH show ?thesis unfolding ma by fastforce
    qed
    moreover have "\<not> filters_eq (sc_filters c) (sc_filters d)" if "d \<in> set (merge_adjacent ?s)" for d
      using other [OF that] filters_eq_sym by blast
    ultimately show ?thesis unfolding ma using IH Cons by fastforce
  qed simp
qed

lemma pairwise_filter_one:
  assumes "sorted_wrt (\<lambda>a b. \<not> R a b) xs" "\<And>a. R a a" "\<And>a b. R a b = R b a"
  shows "\<forall>c \<in> set xs. length (filter (\<lambda>d. R d c) xs) = 1"
  using assms(1)
proof (induction xs)
  case (Cons x xs)
  have "filter (\<lambda>d. R d x) xs = []" using Cons.prems assms(3) by (auto simp: filter_empty_conv)
  moreover have "\<not> R x c" if "c \<in> set xs" for c using Cons.prems that by simp
  ultimately show ?case using Cons assms(2) by auto
qed simp

lemma merge_duplicates_groups_pre:
  assumes "keys_agree cs" "well_formed_entries cs"
  shows "distinct_filters (merge_duplicates cs) \<and> well_formed_entries (merge_duplicates cs) \<and>
    (\<forall>c \<in> set cs. \<exists>d \<in> set (merge_duplicates cs). filters_eq (sc_filters c) (sc_filters d)) \<and>
    (\<forall>d \<in> set (merge_duplicates cs). \<forall>k.
       map_of (sc_entries d) k = combined_property (filter (\<lambda>c. filters_eq (sc_filters c) (sc_filters d)) cs) k)"
proof -
  let ?s = "sort_by (\<lambda>a b. merge_cmp (sc_filters a) (sc_filters b)) cs"
  have k: "keys_agree ?s" by (rule keys_agree_subset [OF assms(1)]) simp
  have w: "well_formed_entries ?s" using assms(2) by (simp add: well_formed_entries_def list_all_iff)
  note g = merge_adjacent_groups [OF mscmp.sorted_sort_by k w, folded merge_duplicates_def]
  have grp: "filter (\<lambda>c. filters_eq (sc_filters c) (sc_filters d)) ?s = filter (\<lambda>c. filters_eq (sc_filters c) (sc_filters d)) cs"
    if d: "d \<in> set (merge_duplicates cs)" for d
  proof -
    obtain a where a: "a \<in> set cs" "sc_filters d = sc_filters a" using g d by fastforce
    have "filter (\<lambda>c. filters_eq (sc_filters c) (sc_filters d)) xs = filter (\<lambda>c. merge_cmp (sc_filters c) (sc_filters a) = Equal) xs"
      if "set xs = set cs" for xs
      using that a keys_agreeD [OF assms(1)] by (auto intro!: filter_cong)
    then show ?thesis using mscmp.sort_by_stable [of a cs] by simp
  qed
  have "keys_agree (merge_duplicates cs)"
    unfolding keys_agree_def list_all_iff
  proof (intro ballI)
    fix a b assume "a \<in> set (merge_duplicates cs)" "b \<in> set (merge_duplicates cs)"
    moreover have "\<exists>c \<in> set cs. sc_filters d = sc_filters c" if "d \<in> set (merge_duplicates cs)" for d
      using conjunct1 [OF g] that by (auto dest!: bspec)
    ultimately obtain a' b' where "a' \<in> set cs" "b' \<in> set cs" "sc_filters a = sc_filters a'" "sc_filters b = sc_filters b'"
      by blast
    then show "(merge_cmp (sc_filters a) (sc_filters b) = Equal) = filters_eq (sc_filters a) (sc_filters b)"
      using keys_agreeD [OF assms(1)] by simp
  qed
  then have "filter (\<lambda>d. merge_cmp (sc_filters d) (sc_filters c) = Equal) (merge_duplicates cs) =
      filter (\<lambda>d. filters_eq (sc_filters d) (sc_filters c)) (merge_duplicates cs)" if "c \<in> set (merge_duplicates cs)" for c
    by - (rule filter_cong [OF refl], rule keys_agreeD [OF _ _ that])
  moreover have "\<forall>c \<in> set (merge_duplicates cs). length (filter (\<lambda>d. filters_eq (sc_filters d) (sc_filters c)) (merge_duplicates cs)) = 1"
  proof (rule pairwise_filter_one [where R = "\<lambda>a b. filters_eq (sc_filters a) (sc_filters b)"])
    show "sorted_wrt (\<lambda>a b. \<not> filters_eq (sc_filters a) (sc_filters b)) (merge_duplicates cs)" using g by blast
  qed (simp, rule filters_eq_sym)
  ultimately have "distinct_filters (merge_duplicates cs)" by (simp add: distinct_filters_def list_all_iff)
  moreover have "well_formed_entries (merge_duplicates cs)" using g by (simp add: well_formed_entries_def list_all_iff)
  ultimately show ?thesis using g grp by simp
qed

text \<open>
  C19: Merging duplicates, on configurations whose filters the sort order tells apart (so not for
  blocks of a host that differ only in the language they are for) and with each property once in a block: the result has
  exactly one block per filter, and each property of it holds all the entries the blocks with that
  filter declare, in the order of declaration; no other property appears.
\<close>

theorem merge_duplicates_groups:
  assumes "keys_agree cs" "well_formed_entries cs"
  shows "distinct_filters (merge_duplicates cs) \<and> well_formed_entries (merge_duplicates cs) \<and>
    (\<forall>c \<in> set cs. \<exists>d \<in> set (merge_duplicates cs). filters_eq (sc_filters c) (sc_filters d)) \<and>
    (\<forall>d \<in> set (merge_duplicates cs). \<forall>k.
       map_of (sc_entries d) k = combined_property (filter (\<lambda>c. filters_eq (sc_filters c) (sc_filters d)) cs) k)"
  by (rule merge_duplicates_groups_pre [OF assms])

theorem merge_duplicates_groups_witness:
  "let e = [\<lparr>entry_values = [VBool True], entry_props = []\<rparr>];
       cs = [example_config True (Some ''x'') [(''a'', e)], example_config True None [(''a'', e)],
             example_config True (Some ''x'') [(''a'', e), (''b'', e)]]
   in keys_agree cs \<and> well_formed_entries cs \<and> distinct_filters (merge_duplicates cs) \<and>
      map (\<lambda>c. map_of (sc_entries c) ''a'') (merge_duplicates cs) = [Some e, Some (e @ e)]"
proof -
  let ?e = "[\<lparr>entry_values = [VBool True], entry_props = []\<rparr>]"
  let ?cs = "[example_config True (Some ''x'') [(''a'', ?e)], example_config True None [(''a'', ?e)],
             example_config True (Some ''x'') [(''a'', ?e), (''b'', ?e)]]"
  have h: "keys_agree ?cs" "well_formed_entries ?cs" by code_simp+
  have "map (\<lambda>c. map_of (sc_entries c) ''a'') (merge_duplicates ?cs) = [Some ?e, Some (?e @ ?e)]" by code_simp
  then show ?thesis using merge_duplicates_groups [OF h] h unfolding Let_def by blast
qed

section \<open>The pipeline\<close>

definition process_configurations ::
  "('m, ('l, 'me, 't) ObservabilityBackendChannels) ServerConfiguration list \<Rightarrow>
   ('m, ('l, 'me, 't) ObservabilityBackendChannels) ServerConfiguration list" where
  "process_configurations cs = premerge_configuration (remove_and_add_global_configuration (merge_duplicates cs))"

lemma distinct_filters_filter:
  assumes "distinct_filters cs"
  shows "distinct_filters (filter P cs)"
proof -
  have "length (filter (\<lambda>d. merge_cmp (sc_filters d) (sc_filters c) = Equal) (filter P cs)) = 1" if c: "c \<in> set (filter P cs)" for c
  proof -
    have "length (filter (\<lambda>d. merge_cmp (sc_filters d) (sc_filters c) = Equal) cs) = 1"
      using assms c by (simp add: distinct_filters_def list_all_iff)
    moreover have "filter (\<lambda>d. merge_cmp (sc_filters d) (sc_filters c) = Equal) (filter P cs) =
        filter P (filter (\<lambda>d. merge_cmp (sc_filters d) (sc_filters c) = Equal) cs)"
      by (simp add: conj_commute)
    ultimately have "length (filter (\<lambda>d. merge_cmp (sc_filters d) (sc_filters c) = Equal) (filter P cs)) \<le> 1"
      by (metis length_filter_le)
    moreover have "c \<in> set (filter (\<lambda>d. merge_cmp (sc_filters d) (sc_filters c) = Equal) (filter P cs))"
      using c by (simp add: mcmp.cmp_refl)
    ultimately show ?thesis by (metis One_nat_def Suc_leI le_antisym length_pos_if_in_set)
  qed
  then show ?thesis by (simp add: distinct_filters_def list_all_iff)
qed

lemma merge_cmp_host: "is_host a \<noteq> is_host b \<Longrightarrow> merge_cmp a b \<noteq> Equal"
  by (simp add: merge_Equal_iff)

lemma remove_and_add_wf:
  assumes "distinct_filters cs" "well_formed_entries cs"
  shows "distinct_filters (remove_and_add_global_configuration cs) \<and> well_formed_entries (remove_and_add_global_configuration cs)"
proof -
  let ?kept = "filter (\<lambda>c. sc_entries c \<noteq> []) cs"
  let ?g = "\<lparr>sc_entries = [], sc_filters = no_filters False, sc_modules = [], sc_observability = channels_new\<rparr>"
  have k: "distinct_filters ?kept" "well_formed_entries ?kept"
    using assms by (auto simp: distinct_filters_filter well_formed_entries_def list_all_iff)
  have "distinct_filters (?g # ?kept)" if n: "\<not> (\<exists>c \<in> set ?kept. is_global_non_host (sc_filters c))"
  proof -
    have "merge_cmp (sc_filters c) (no_filters False) \<noteq> Equal" "merge_cmp (no_filters False) (sc_filters c) \<noteq> Equal"
      if "c \<in> set ?kept" for c
      using n that by (auto simp: is_global_non_host_def no_filters_def intro!: merge_cmp_host)
    then show ?thesis using k(1) unfolding distinct_filters_def list_all_iff
      by (simp add: mcmp.cmp_refl filter_empty_conv del: filter_filter)
  qed
  with k show ?thesis by (simp add: remove_and_add_global_configuration_def Let_def well_formed_entries_def)
qed

text \<open>
  C37: The configuration pipeline as a whole: for parsed blocks whose filters the sort order tells
  apart (so not for blocks of a host that differ only in the language they are for), each with a property once, the processed list has a \<open>globals\<close> block, is sorted by specificity, and looks up every
  property in the layers of the merged blocks.
\<close>

theorem process_configurations_layers:
  assumes "keys_agree cs" "well_formed_entries cs"
  shows "let s = sort_by (\<lambda>a b. filters_cmp (sc_filters a) (sc_filters b)) (remove_and_add_global_configuration (merge_duplicates cs));
             out = process_configurations cs
    in map sc_filters out = map sc_filters s \<and>
       sorted_wrt (\<lambda>a b. filters_cmp (sc_filters a) (sc_filters b) \<noteq> Greater) out \<and>
       (\<exists>c \<in> set out. is_global_non_host (sc_filters c)) \<and>
       (\<forall>i < length s. \<forall>k. map_of (sc_entries (out ! i)) k = layered_lookup s (s ! i) k)"
proof -
  let ?m = "remove_and_add_global_configuration (merge_duplicates cs)"
  let ?s = "sort_by (\<lambda>a b. filters_cmp (sc_filters a) (sc_filters b)) ?m"
  have wf: "distinct_filters ?m" "well_formed_entries ?m"
    using merge_duplicates_groups_pre [OF assms] remove_and_add_wf [of "merge_duplicates cs"] by auto
  have out: "map sc_filters (process_configurations cs) = map sc_filters ?s"
    "\<forall>i < length ?s. \<forall>k. map_of (sc_entries (process_configurations cs ! i)) k = layered_lookup ?s (?s ! i) k"
    using premerge_layers_pre [OF wf] by (simp_all add: process_configurations_def Let_def)
  have "sorted_wrt (\<lambda>a b. filters_cmp a b \<noteq> Greater) (map sc_filters ?s)"
    using scmp.sorted_sort_by [of ?m] by (simp add: sorted_wrt_map)
  then have "sorted_wrt (\<lambda>a b. filters_cmp (sc_filters a) (sc_filters b) \<noteq> Greater) (process_configurations cs)"
    unfolding out(1) [symmetric] by (simp add: sorted_wrt_map)
  moreover have "\<exists>f \<in> sc_filters ` set ?m. is_global_non_host f"
    by (auto simp: remove_and_add_global_configuration_def Let_def is_global_non_host_def no_filters_def)
  then have "\<exists>c \<in> set (process_configurations cs). is_global_non_host (sc_filters c)"
    using arg_cong [OF out(1), of set] by (metis (no_types, lifting) image_iff list.set_map set_sort_by)
  ultimately show ?thesis using out by (simp add: Let_def)
qed

definition example_block :: "bool \<Rightarrow> string option \<Rightarrow> Conditions option \<Rightarrow> entries hashmap \<Rightarrow>
    (unit, (unit, unit, unit) ObservabilityBackendChannels) ServerConfiguration" where
  "example_block host h cond es =
     \<lparr>sc_entries = es, sc_filters = (no_filters host)\<lparr>hostname := h, condition := cond\<rparr>, sc_modules = [],
      sc_observability = channels_new\<rparr>"

theorem process_configurations_layers_witness:
  "let e = [\<lparr>entry_values = [VBool True], entry_props = []\<rparr>];
       cs = [example_block True (Some ''x'') None [(''a'', e)], example_block True None None [(''b'', e)]]
   in keys_agree cs \<and> well_formed_entries cs \<and>
      map_of (sc_entries (process_configurations cs ! 2)) ''b'' = Some e"
proof -
  let ?e = "[\<lparr>entry_values = [VBool True], entry_props = []\<rparr>]"
  let ?cs = "[example_block True (Some ''x'') None [(''a'', ?e)], example_block True None None [(''b'', ?e)]]"
  let ?s = "sort_by (\<lambda>a b. filters_cmp (sc_filters a) (sc_filters b)) (remove_and_add_global_configuration (merge_duplicates ?cs))"
  have h: "keys_agree ?cs" "well_formed_entries ?cs" by code_simp+
  have l: "2 < length ?s" "layered_lookup ?s (?s ! 2) ''b'' = Some ?e" by code_simp+
  show ?thesis using process_configurations_layers [OF h] h l unfolding Let_def by metis
qed

text \<open>
  Blocks for different languages are confused. The order of conditions has no case for
  \<open>IsLanguage\<close>, so the trie takes two language blocks of a host for one, and the second inherits the
  properties the first sets for its own language.
\<close>

theorem language_blocks_share_layers:
  "let e = (\<lambda>v. [\<lparr>entry_values = [VString v], entry_props = []\<rparr>]);
       lang = (\<lambda>l. Some \<lparr>location_prefix = [], conditionals = [If [IsLanguage l]]\<rparr>);
       de = example_block True (Some ''x'') (lang ''de'') [(''root'', e ''/de'')];
       en = example_block True (Some ''x'') (lang ''en'') [(''gzip'', e ''on'')];
       out = process_configurations [de, en]
   in \<not> filters_eq (sc_filters de) (sc_filters en) \<and>
      (\<exists>c \<in> set out. sc_filters c = sc_filters en \<and> map_of (sc_entries c) ''root'' = Some (e ''/de''))"
  by code_simp

section \<open>Loading modules\<close>

text \<open>
  Module loaders and observability backend loaders are trait objects: values of types \<open>'ml\<close> and \<open>'bl\<close>
  whose methods are the fields of these records. Loading may change the loader (its cache).
\<close>

record ('ml, 'm, 'o) loader_methods =
  lm_requirements :: "'ml \<Rightarrow> string list"
  lm_validate :: "'ml \<Rightarrow> ('m, 'o) ServerConfiguration \<Rightarrow> string set \<Rightarrow> (string + unit) \<times> string set"
  lm_load :: "'ml \<Rightarrow> ('m, 'o) ServerConfiguration \<Rightarrow> ('m, 'o) ServerConfiguration option \<Rightarrow> (string + 'm) \<times> 'ml"

record ('bl, 'm, 'l, 'me, 't) backend_methods =
  bm_requirements :: "'bl \<Rightarrow> string list"
  bm_validate :: "'bl \<Rightarrow> ('m, ('l, 'me, 't) ObservabilityBackendChannels) ServerConfiguration \<Rightarrow> string set \<Rightarrow> (string + unit) \<times> string set"
  bm_load :: "'bl \<Rightarrow> ('m, ('l, 'me, 't) ObservabilityBackendChannels) ServerConfiguration \<Rightarrow>
      ('m, ('l, 'me, 't) ObservabilityBackendChannels) ServerConfiguration option \<Rightarrow> (string + ('l option \<times> 'me option \<times> 't option)) \<times> 'bl"

definition requirements_met :: "('m, 'o) ServerConfiguration \<Rightarrow> string list \<Rightarrow> bool" where
  "requirements_met config requirements \<longleftrightarrow>
     requirements = [] \<or>
     list_ex (\<lambda>requirement.
       case Option.bind (map_of (sc_entries config) requirement) get_value of
         Some v \<Rightarrow> \<not> is_null v \<and> (case as_bool v of Some b \<Rightarrow> b | None \<Rightarrow> True)
       | None \<Rightarrow> False) requirements"

definition located_error :: "string \<Rightarrow> ('m, 'o) ServerConfiguration \<Rightarrow> string" where
  "located_error error config = error @ '' (at '' @ filters_display (sc_filters config) @ '')''"

definition first_error :: "string option \<Rightarrow> string \<Rightarrow> ('m, 'o) ServerConfiguration \<Rightarrow> string option" where
  "first_error first e config = (case first of Some x \<Rightarrow> Some x | None \<Rightarrow> Some (located_error e config))"

definition add_channels ::
  "'l option \<times> 'me option \<times> 't option \<Rightarrow> ('m, ('l, 'me, 't) ObservabilityBackendChannels) ServerConfiguration \<Rightarrow>
     ('m, ('l, 'me, 't) ObservabilityBackendChannels) ServerConfiguration" where
  "add_channels chs config =
     (let (log, metric, trace) = chs;
          o1 = (case log of Some ch \<Rightarrow> add_log_channel ch (sc_observability config) | None \<Rightarrow> sc_observability config);
          o2 = (case metric of Some ch \<Rightarrow> add_metric_channel ch o1 | None \<Rightarrow> o1);
          o3 = (case trace of Some ch \<Rightarrow> add_trace_channel ch o2 | None \<Rightarrow> o2)
      in config\<lparr>sc_observability := o3\<rparr>)"

text \<open>The loop over the observability backends of one configuration.\<close>

fun load_backends ::
  "('bl, 'm, 'l, 'me, 't) backend_methods \<Rightarrow> ('m, ('l, 'me, 't) ObservabilityBackendChannels) ServerConfiguration option \<Rightarrow>
   'bl list \<Rightarrow> ('m, ('l, 'me, 't) ObservabilityBackendChannels) ServerConfiguration \<Rightarrow> string set \<Rightarrow> string option \<Rightarrow>
   ('m, ('l, 'me, 't) ObservabilityBackendChannels) ServerConfiguration \<times> string set \<times> string option \<times> 'bl list" where
  "load_backends bm global [] config used err = (config, used, err, [])"
| "load_backends bm global (b # bs) config used err =
     (let met = requirements_met config (bm_requirements bm b); (valid, used') = bm_validate bm b config used
      in case valid of
           Inl error \<Rightarrow> (config, used', first_error err error config, b # bs)
         | Inr _ \<Rightarrow>
             if met then
               (case bm_load bm b config global of
                  (Inr chs, b') \<Rightarrow>
                    (let (c', u', e', bs') = load_backends bm global bs (add_channels chs config) used' err in (c', u', e', b' # bs'))
                | (Inl error, b') \<Rightarrow> (config, used', first_error err error config, b' # bs))
             else (let (c', u', e', bs') = load_backends bm global bs config used' err in (c', u', e', b # bs')))"

text \<open>The loop over the modules of one configuration.\<close>

fun load_module_list ::
  "('ml, 'm, 'o) loader_methods \<Rightarrow> ('m, 'o) ServerConfiguration option \<Rightarrow> 'ml list \<Rightarrow> ('m, 'o) ServerConfiguration \<Rightarrow>
   string set \<Rightarrow> string option \<Rightarrow> ('m, 'o) ServerConfiguration \<times> string set \<times> string option \<times> 'ml list" where
  "load_module_list lm global [] config used err = (config, used, err, [])"
| "load_module_list lm global (m # ms) config used err =
     (let met = requirements_met config (lm_requirements lm m); (valid, used') = lm_validate lm m config used
      in case valid of
           Inl error \<Rightarrow> (config, used', first_error err error config, m # ms)
         | Inr _ \<Rightarrow>
             if met then
               (case lm_load lm m config global of
                  (Inr loaded, m') \<Rightarrow>
                    (let (c', u', e', ms') =
                       load_module_list lm global ms (config\<lparr>sc_modules := sc_modules config @ [loaded]\<rparr>) used' err
                     in (c', u', e', m' # ms'))
                | (Inl error, m') \<Rightarrow> (config, used', first_error err error config, m' # ms))
             else (let (c', u', e', ms') = load_module_list lm global ms config used' err in (c', u', e', m # ms')))"

definition unused_of :: "('m, 'o) ServerConfiguration \<Rightarrow> string set \<Rightarrow> string set" where
  "unused_of config used =
     set (filter (\<lambda>property. \<not> starts_with ''UNDOCUMENTED_'' property \<and> property \<notin> used) (map fst (sc_entries config)))"

definition find_global_in :: "('m, 'o) ServerConfiguration list \<Rightarrow> ('m, 'o) ServerConfiguration option" where
  "find_global_in cs = find_global cs"

fun load_loop ::
  "('ml, 'm, ('l, 'me, 't) ObservabilityBackendChannels) loader_methods \<Rightarrow> ('bl, 'm, 'l, 'me, 't) backend_methods \<Rightarrow>
   ('m, ('l, 'me, 't) ObservabilityBackendChannels) ServerConfiguration option \<Rightarrow> 'ml list \<Rightarrow> 'bl list \<Rightarrow>
   ('m, ('l, 'me, 't) ObservabilityBackendChannels) ServerConfiguration list \<Rightarrow> string option \<Rightarrow> string set \<Rightarrow>
   ('m, ('l, 'me, 't) ObservabilityBackendChannels) ServerConfiguration list \<times> string option \<times> string set" where
  "load_loop lm bm global mls bls [] err unused = ([], err, unused)"
| "load_loop lm bm global mls bls (config # configs) err unused =
     (let (c1, u1, e1, bls') = load_backends bm global bls config {} err;
          (c2, u2, e2, mls') = (if e1 = None then load_module_list lm global mls c1 u1 e1 else (c1, u1, e1, mls));
          (out, e3, unused') = load_loop lm bm global mls' bls' configs e2 (unused \<union> unused_of c2 u2)
      in (c2 # out, e3, unused'))"

definition load_modules ::
  "('ml, 'm, ('l, 'me, 't) ObservabilityBackendChannels) loader_methods \<Rightarrow> ('bl, 'm, 'l, 'me, 't) backend_methods \<Rightarrow>
   ('m, ('l, 'me, 't) ObservabilityBackendChannels) ServerConfiguration list \<Rightarrow> 'ml list \<Rightarrow> 'bl list \<Rightarrow>
   ('m, ('l, 'me, 't) ObservabilityBackendChannels) ServerConfiguration list \<times> string option \<times> string set" where
  "load_modules lm bm configs mls bls = load_loop lm bm (find_global_in configs) mls bls configs None {}"

lemma add_channels_keeps [simp]:
  "sc_entries (add_channels chs c) = sc_entries c" "sc_filters (add_channels chs c) = sc_filters c"
  "sc_modules (add_channels chs c) = sc_modules c"
  by (cases chs; simp add: add_channels_def Let_def)+

lemma first_error_Some [simp]:
  "first_error err e c \<noteq> None" "first_error (Some x) e c = Some x" "\<exists>y. first_error err e c = Some y"
  by (cases err; simp add: first_error_def)+

lemma requirements_met_entries: "sc_entries c = sc_entries d \<Longrightarrow> requirements_met c rs = requirements_met d rs"
  by (simp add: requirements_met_def)

lemma load_backends_keeps:
  "load_backends bm global bs c used err = (c', used', err', bs') \<Longrightarrow>
   sc_entries c' = sc_entries c \<and> sc_filters c' = sc_filters c \<and> sc_modules c' = sc_modules c \<and>
   (err' = None \<longrightarrow> err = None) \<and> (\<forall>x. err = Some x \<longrightarrow> err' = Some x)"
proof (induction bs arbitrary: c used err c' used' err' bs')
  case (Cons b bs)
  obtain valid used1 where v: "bm_validate bm b c used = (valid, used1)" by fastforce
  obtain r b' where l: "bm_load bm b c global = (r, b')" by fastforce
  show ?case
  proof (cases valid)
    case (Inl e)
    then show ?thesis using Cons.prems v by auto
  next
    case u: (Inr u)
    show ?thesis
    proof (cases "requirements_met c (bm_requirements bm b)")
      case met: True
      show ?thesis
      proof (cases r)
        case (Inl e)
        then show ?thesis using Cons.prems v u met l by auto
      next
        case (Inr chs)
        obtain c1 u1 e1 bs1 where r1: "load_backends bm global bs (add_channels chs c) used1 err = (c1, u1, e1, bs1)"
          by (cases "load_backends bm global bs (add_channels chs c) used1 err") auto
        have "c' = c1" "err' = e1" using Cons.prems v u met l Inr r1 by auto
        then show ?thesis using Cons.IH [OF r1] by simp
      qed
    next
      case False
      obtain c1 u1 e1 bs1 where r1: "load_backends bm global bs c used1 err = (c1, u1, e1, bs1)"
        by (cases "load_backends bm global bs c used1 err") auto
      have "c' = c1" "err' = e1" using Cons.prems v u False r1 by auto
      then show ?thesis using Cons.IH [OF r1] by simp
    qed
  qed
qed simp

lemma load_module_list_keeps:
  assumes static: "\<And>m c g. lm_requirements lm (snd (lm_load lm m c g)) = lm_requirements lm m"
  shows "load_module_list lm global ms c used err = (c', used', err', ms') \<Longrightarrow>
   sc_entries c' = sc_entries c \<and> sc_filters c' = sc_filters c \<and> map (lm_requirements lm) ms' = map (lm_requirements lm) ms \<and>
   (\<forall>x. err = Some x \<longrightarrow> err' = Some x) \<and>
   (err' = None \<longrightarrow> err = None \<and>
      length (sc_modules c') = length (sc_modules c) + length (filter (\<lambda>m. requirements_met c (lm_requirements lm m)) ms))"
proof (induction ms arbitrary: c used err c' used' err' ms')
  case (Cons m ms)
  obtain valid used1 where v: "lm_validate lm m c used = (valid, used1)" by fastforce
  obtain r m' where l: "lm_load lm m c global = (r, m')" by fastforce
  have req: "lm_requirements lm m' = lm_requirements lm m" using static [of m c global] l by simp
  show ?case
  proof (cases valid)
    case (Inl e)
    then show ?thesis using Cons.prems v by auto
  next
    case u: (Inr u)
    show ?thesis
    proof (cases "requirements_met c (lm_requirements lm m)")
      case met: True
      show ?thesis
      proof (cases r)
        case (Inl e)
        then show ?thesis using Cons.prems v u met l req by auto
      next
        case (Inr loaded)
        let ?c = "c\<lparr>sc_modules := sc_modules c @ [loaded]\<rparr>"
        obtain c1 u1 e1 ms1 where r1: "load_module_list lm global ms ?c used1 err = (c1, u1, e1, ms1)"
          by (cases "load_module_list lm global ms ?c used1 err") auto
        have "requirements_met ?c rs = requirements_met c rs" for rs by (rule requirements_met_entries) simp
        then show ?thesis using Cons.prems v u met l Inr r1 req Cons.IH [OF r1] by auto
      qed
    next
      case False
      obtain c1 u1 e1 ms1 where r1: "load_module_list lm global ms c used1 err = (c1, u1, e1, ms1)"
        by (cases "load_module_list lm global ms c used1 err") auto
      then show ?thesis using Cons.prems v u False Cons.IH [OF r1] by auto
    qed
  qed
qed simp

lemma filter_requirements:
  "map (lm_requirements lm) ms = map (lm_requirements lm) ms' \<Longrightarrow>
   length (filter (\<lambda>m. P (lm_requirements lm m)) ms) = length (filter (\<lambda>m. P (lm_requirements lm m)) ms')"
  by (metis (mono_tags, lifting) comp_def filter_cong filter_map length_map)

lemma load_loop_correct:
  assumes static: "\<And>m c g. lm_requirements lm (snd (lm_load lm m c g)) = lm_requirements lm m"
  shows "load_loop lm bm global mls bls configs err unused = (out, err', unused') \<Longrightarrow>
    map sc_filters out = map sc_filters configs \<and> map sc_entries out = map sc_entries configs \<and>
    (\<forall>x. err = Some x \<longrightarrow> err' = Some x \<and> map sc_modules out = map sc_modules configs) \<and>
    (err' = None \<longrightarrow> err = None \<and> map (\<lambda>c. length (sc_modules c)) out =
       map (\<lambda>c. length (sc_modules c) + length (filter (\<lambda>m. requirements_met c (lm_requirements lm m)) mls)) configs)"
proof (induction configs arbitrary: mls bls err unused out err' unused')
  case (Cons c configs)
  obtain c1 u1 e1 bls' where b: "load_backends bm global bls c {} err = (c1, u1, e1, bls')"
    by (cases "load_backends bm global bls c {} err") auto
  note kb = load_backends_keeps [OF b]
  obtain c2 u2 e2 mls' where m: "(if e1 = None then load_module_list lm global mls c1 u1 e1 else (c1, u1, e1, mls)) = (c2, u2, e2, mls')"
    by (cases "if e1 = None then load_module_list lm global mls c1 u1 e1 else (c1, u1, e1, mls)") auto
  obtain out1 e3 un where r: "load_loop lm bm global mls' bls' configs e2 (unused \<union> unused_of c2 u2) = (out1, e3, un)"
    by (cases "load_loop lm bm global mls' bls' configs e2 (unused \<union> unused_of c2 u2)") auto
  have res: "out = c2 # out1" "err' = e3" using Cons.prems b m r by auto
  have met: "requirements_met c1 rs = requirements_met c rs" for rs by (rule requirements_met_entries) (use kb in simp)
  have k: "sc_entries c2 = sc_entries c \<and> sc_filters c2 = sc_filters c \<and> map (lm_requirements lm) mls' = map (lm_requirements lm) mls \<and>
    (\<forall>x. err = Some x \<longrightarrow> e2 = Some x \<and> sc_modules c2 = sc_modules c) \<and>
    (e2 = None \<longrightarrow> err = None \<and> length (sc_modules c2) = length (sc_modules c) +
       length (filter (\<lambda>m. requirements_met c (lm_requirements lm m)) mls))"
  proof (cases e1)
    case None
    then have "load_module_list lm global mls c1 u1 None = (c2, u2, e2, mls')" using m by simp
    from load_module_list_keeps [OF static this] kb None show ?thesis by (simp add: met)
  next
    case (Some x)
    then show ?thesis using m kb by auto
  qed
  have l: "length (filter (\<lambda>m. requirements_met d (lm_requirements lm m)) mls') =
      length (filter (\<lambda>m. requirements_met d (lm_requirements lm m)) mls)" for d
    by (rule filter_requirements) (use k in simp)
  note ih = Cons.IH [OF r, unfolded l]
  show ?case unfolding res
  proof (intro conjI allI impI)
    show "map sc_filters (c2 # out1) = map sc_filters (c # configs)" "map sc_entries (c2 # out1) = map sc_entries (c # configs)"
      using ih k by simp_all
    have "e2 = Some x \<and> sc_modules c2 = sc_modules c" if "err = Some x" for x using that k by blast
    moreover have "e3 = Some x \<and> map sc_modules out1 = map sc_modules configs" if "e2 = Some x" for x using that ih by blast
    ultimately show "e3 = Some x" "map sc_modules (c2 # out1) = map sc_modules (c # configs)" if "err = Some x" for x
      using that by (metis, metis list.map(2))
    show "err = None" if "e3 = None" using that ih k by blast
    show "map (\<lambda>c. length (sc_modules c)) (c2 # out1) =
        map (\<lambda>c. length (sc_modules c) + length (filter (\<lambda>m. requirements_met c (lm_requirements lm m)) mls)) (c # configs)"
      if "e3 = None"
    proof -
      have e2: "e2 = None" using that ih by blast
      then have "length (sc_modules c2) = length (sc_modules c) +
          length (filter (\<lambda>m. requirements_met c (lm_requirements lm m)) mls)" using k by blast
      moreover have "map (\<lambda>c. length (sc_modules c)) out1 =
          map (\<lambda>c. length (sc_modules c) + length (filter (\<lambda>m. requirements_met c (lm_requirements lm m)) mls)) configs"
        using ih that by blast
      ultimately show ?thesis by (simp only: list.map)
    qed
  qed
qed auto

text \<open>
  Loading modules keeps every configuration's filters and properties and their order. If no error
  is reported, each configuration has gained exactly one module for each loader whose requirements
  it meets.
\<close>

theorem load_modules_correct:
  assumes "\<And>m c g. lm_requirements lm (snd (lm_load lm m c g)) = lm_requirements lm m"
    and "load_modules lm bm configs mls bls = (out, err, unused)"
  shows "map sc_filters out = map sc_filters configs \<and> map sc_entries out = map sc_entries configs \<and>
    (err = None \<longrightarrow> map (\<lambda>c. length (sc_modules c)) out =
       map (\<lambda>c. length (sc_modules c) + length (filter (\<lambda>m. requirements_met c (lm_requirements lm m)) mls)) configs)"
proof -
  have "load_loop lm bm (find_global_in configs) mls bls configs None {} = (out, err, unused)"
    using assms(2) by (simp add: load_modules_def)
  from load_loop_correct [OF assms(1) this] show ?thesis by blast
qed

definition example_loader :: "(string, string, (unit, unit, unit) ObservabilityBackendChannels) loader_methods" where
  "example_loader = \<lparr>lm_requirements = \<lambda>m. [m], lm_validate = \<lambda>m c used. (Inr (), insert m used), lm_load = \<lambda>m c g. (Inr m, m)\<rparr>"

definition example_backend :: "(unit, string, unit, unit, unit) backend_methods" where
  "example_backend = \<lparr>bm_requirements = \<lambda>b. [], bm_validate = \<lambda>b c used. (Inr (), used), bm_load = \<lambda>b c g. (Inr (None, None, None), b)\<rparr>"

definition gzip_config :: "(string, (unit, unit, unit) ObservabilityBackendChannels) ServerConfiguration" where
  "gzip_config = \<lparr>sc_entries = [(''gzip'', [\<lparr>entry_values = [VBool True], entry_props = []\<rparr>])], sc_filters = no_filters True,
     sc_modules = [], sc_observability = channels_new\<rparr>"

theorem load_modules_correct_witness:
  "fst (load_modules example_loader example_backend [gzip_config] [''gzip'', ''cgi''] []) = [gzip_config\<lparr>sc_modules := [''gzip'']\<rparr>] \<and>
   map (\<lambda>c. length (sc_modules c)) (fst (load_modules example_loader example_backend [gzip_config] [''gzip'', ''cgi''] [])) = [1]"
proof -
  let ?r = "load_modules example_loader example_backend [gzip_config] [''gzip'', ''cgi''] []"
  have s: "lm_requirements example_loader (snd (lm_load example_loader m c g)) = lm_requirements example_loader m" for m c g
    by (simp add: example_loader_def)
  have e: "fst ?r = [gzip_config\<lparr>sc_modules := [''gzip'']\<rparr>]" "fst (snd ?r) = None"
    by (simp_all add: load_modules_def example_loader_def gzip_config_def requirements_met_def get_value_def)
  have l: "map (\<lambda>c. length (sc_modules c) + length (filter (\<lambda>m. requirements_met c (lm_requirements example_loader m)) [''gzip'', ''cgi'']))
      [gzip_config] = [1]"
    by (simp add: example_loader_def gzip_config_def requirements_met_def get_value_def)
  have "?r = (fst ?r, fst (snd ?r), snd (snd ?r))" by simp
  from load_modules_correct [OF s this] e l show ?thesis by simp
qed

end
