(* ===== verification/Module_Cache.thy ===== *)
theory Module_Cache
  imports Config_Types
begin

text \<open>
  The cache of loaded modules, \<open>ferron-common/src/util/module_cache.rs\<close>. The keys are the values of
  the cached properties, sorted by name. A key of the \<open>HashMap\<close> is found when it feeds the same data
  to the hasher and is equal by \<open>PartialEq\<close>; the two differ for floats (see \<open>Config_Types\<close>).
\<close>

section \<open>Definitions\<close>

type_synonym CacheKey = "(string \<times> entries option) list"

definition entries_eq :: "entries \<Rightarrow> entries \<Rightarrow> bool" where
  "entries_eq = list_all2 entry_eq"

definition entries_hash :: "entries \<Rightarrow> hash_item list" where
  "entries_hash es = HLen (length es) # concat (map entry_hash es)"

definition cache_key_eq :: "CacheKey \<Rightarrow> CacheKey \<Rightarrow> bool" where
  "cache_key_eq = list_all2 (\<lambda>(p, a) (q, b). p = q \<and> option_eq entries_eq a b)"

definition cache_key_hash :: "CacheKey \<Rightarrow> hash_item list" where
  "cache_key_hash k = HLen (length k) #
     concat (map (\<lambda>(p, a). HString p # (case a of None \<Rightarrow> [HTag 0] | Some es \<Rightarrow> HTag 1 # entries_hash es)) k)"

definition cache_key_new :: "('m, 'o) ServerConfiguration \<Rightarrow> string list \<Rightarrow> CacheKey" where
  "cache_key_new config properties =
     sort_by (\<lambda>a b. cmp_string (fst a) (fst b)) (map (\<lambda>prop. (prop, map_of (sc_entries config) prop)) properties)"

record 'v ModuleCache =
  mc_inner :: "(CacheKey \<times> 'v) list"
  mc_properties :: "string list"

definition module_cache_new :: "string list \<Rightarrow> 'v ModuleCache" where
  "module_cache_new properties = \<lparr>mc_inner = [], mc_properties = properties\<rparr>"

definition same_cache_key :: "CacheKey \<Rightarrow> CacheKey \<Rightarrow> bool" where
  "same_cache_key k k' \<longleftrightarrow> cache_key_hash k = cache_key_hash k' \<and> cache_key_eq k k'"

definition cache_lookup :: "CacheKey \<Rightarrow> (CacheKey \<times> 'v) list \<Rightarrow> 'v option" where
  "cache_lookup key inner = map_option snd (find (\<lambda>(k, v). same_cache_key k key) inner)"

definition cache_get_or_init ::
  "(('m, 'o) ServerConfiguration \<Rightarrow> 'e + 'v) \<Rightarrow> ('m, 'o) ServerConfiguration \<Rightarrow> 'v ModuleCache \<Rightarrow> ('e + 'v) \<times> 'v ModuleCache" where
  "cache_get_or_init init_fn config cache =
     (let cache_key = cache_key_new config (mc_properties cache)
      in case cache_lookup cache_key (mc_inner cache) of
           Some cached_value \<Rightarrow> (Inr cached_value, cache)
         | None \<Rightarrow> (case init_fn config of
               Inl e \<Rightarrow> (Inl e, cache)
             | Inr new_value \<Rightarrow> (Inr new_value, cache\<lparr>mc_inner := (cache_key, new_value) # mc_inner cache\<rparr>)))"

definition cache_get :: "('m, 'o) ServerConfiguration \<Rightarrow> 'v ModuleCache \<Rightarrow> 'v option" where
  "cache_get config cache = cache_lookup (cache_key_new config (mc_properties cache)) (mc_inner cache)"

definition cache_clear :: "'v ModuleCache \<Rightarrow> 'v ModuleCache" where
  "cache_clear cache = cache\<lparr>mc_inner := []\<rparr>"

definition cache_len :: "'v ModuleCache \<Rightarrow> nat" where
  "cache_len cache = length (mc_inner cache)"

definition cache_is_empty :: "'v ModuleCache \<Rightarrow> bool" where
  "cache_is_empty cache \<longleftrightarrow> mc_inner cache = []"

definition cache_get_or ::
  "(('m, 'o) ServerConfiguration \<Rightarrow> 'e + 'v) \<Rightarrow> ('m, 'o) ServerConfiguration \<Rightarrow> 'v ModuleCache \<Rightarrow> 'e + 'v" where
  "cache_get_or fallback_fn config cache =
     (case cache_lookup (cache_key_new config (mc_properties cache)) (mc_inner cache) of
        Some cached_value \<Rightarrow> Inr cached_value
      | None \<Rightarrow> fallback_fn config)"

section \<open>Caching as an interface\<close>

text \<open>
  What a client of a memoising store relies on: the stored results are those of the function that
  is cached, and a lookup by \<open>get_or_init\<close> answers what that function answers.
\<close>

locale memo_store =
  fixes key :: "'c \<Rightarrow> 's \<Rightarrow> 'k"
    and stored :: "'s \<Rightarrow> 'k \<Rightarrow> 'v \<Rightarrow> bool"
    and get_or_init :: "('c \<Rightarrow> 'e + 'v) \<Rightarrow> 'c \<Rightarrow> 's \<Rightarrow> ('e + 'v) \<times> 's"
    and same :: "'k \<Rightarrow> 'k \<Rightarrow> bool"
  assumes hit_or_init: "get_or_init f c s = (r, s') \<Longrightarrow>
      (\<exists>k v. stored s k v \<and> same k (key c s) \<and> r = Inr v \<and> s' = s) \<or>
      r = f c \<and> (\<forall>k v. stored s' k v \<longrightarrow> stored s k v \<or> k = key c s \<and> r = Inr v)"
    and key_stable: "get_or_init f c s = (r, s') \<Longrightarrow> key d s' = key d s"
begin

definition valid_memo :: "('c \<Rightarrow> 'e + 'v) \<Rightarrow> 's \<Rightarrow> bool" where
  "valid_memo f s \<longleftrightarrow> (\<forall>k v c. stored s k v \<longrightarrow> same k (key c s) \<longrightarrow> f c = Inr v)"

lemma valid_memo_result:
  assumes "valid_memo f s" "get_or_init f c s = (r, s')"
  shows "r = f c"
  using hit_or_init [OF assms(2)] assms(1) unfolding valid_memo_def by metis

lemma valid_memo_step:
  assumes "valid_memo f s" "get_or_init f c s = (r, s')"
    and respects: "\<And>d. same (key c s) (key d s) \<Longrightarrow> f d = f c"
  shows "valid_memo f s'"
  using hit_or_init [OF assms(2)]
proof
  assume "\<exists>k v. stored s k v \<and> same k (key c s) \<and> r = Inr v \<and> s' = s"
  then show ?thesis using assms(1) by blast
next
  assume "r = f c \<and> (\<forall>k v. stored s' k v \<longrightarrow> stored s k v \<or> k = key c s \<and> r = Inr v)"
  then show ?thesis using assms(1) respects key_stable [OF assms(2)] unfolding valid_memo_def by metis
qed

end

lemma cache_lookup_Some:
  "cache_lookup key inner = Some v \<Longrightarrow> \<exists>k. (k, v) \<in> set inner \<and> same_cache_key k key"
  by (force simp: cache_lookup_def find_Some_iff in_set_conv_nth)

interpretation mc: memo_store "\<lambda>c s. cache_key_new c (mc_properties s)" "\<lambda>s k v. (k, v) \<in> set (mc_inner s)"
  cache_get_or_init same_cache_key
proof
  show "(\<exists>k v. (k, v) \<in> set (mc_inner s) \<and> same_cache_key k (cache_key_new c (mc_properties s)) \<and> r = Inr v \<and> s' = s) \<or>
      r = f c \<and> (\<forall>k v. (k, v) \<in> set (mc_inner s') \<longrightarrow> (k, v) \<in> set (mc_inner s) \<or> k = cache_key_new c (mc_properties s) \<and> r = Inr v)"
    if "cache_get_or_init f c s = (r, s')" for f c s r s'
    using that cache_lookup_Some [of "cache_key_new c (mc_properties s)" "mc_inner s"]
    by (auto simp: cache_get_or_init_def Let_def split: option.splits sum.splits)
  show "cache_key_new d (mc_properties s') = cache_key_new d (mc_properties s)"
    if "cache_get_or_init f c s = (r, s')" for f c s r s' d
    using that by (auto simp: cache_get_or_init_def Let_def split: option.splits sum.splits)
qed

section \<open>Properties\<close>

text \<open>Any sequence of \<open>get_or_init\<close> calls on a cache.\<close>

fun cache_run ::
  "(('m, 'o) ServerConfiguration \<Rightarrow> 'e + 'v) \<Rightarrow> ('m, 'o) ServerConfiguration list \<Rightarrow> 'v ModuleCache \<Rightarrow> ('e + 'v) list \<times> 'v ModuleCache" where
  "cache_run f [] s = ([], s)"
| "cache_run f (c # cs) s = (let (r, s1) = cache_get_or_init f c s; (rs, s2) = cache_run f cs s1 in (r # rs, s2))"

lemma valid_memo_new: "mc.valid_memo f (module_cache_new ps)"
  by (simp add: mc.valid_memo_def module_cache_new_def)

lemma cache_properties_stable [simp]: "mc_properties (snd (cache_get_or_init f c s)) = mc_properties s"
  by (auto simp: cache_get_or_init_def Let_def split: option.splits sum.splits)

lemma cache_run_correct:
  assumes "\<And>c d. same_cache_key (cache_key_new c (mc_properties s)) (cache_key_new d (mc_properties s)) \<Longrightarrow> f d = f c"
    and "mc.valid_memo f s"
  shows "fst (cache_run f cs s) = map f cs"
  using assms
proof (induction cs arbitrary: s)
  case (Cons c cs)
  obtain r s1 where r: "cache_get_or_init f c s = (r, s1)" by fastforce
  have p: "mc_properties s1 = mc_properties s" using cache_properties_stable [of f c s] r by simp
  have v: "mc.valid_memo f s1" by (rule mc.valid_memo_step [OF Cons.prems(2) r Cons.prems(1)])
  have "fst (cache_run f cs s1) = map f cs" by (rule Cons.IH [OF _ v]) (simp add: p Cons.prems(1))
  then show ?case using r mc.valid_memo_result [OF Cons.prems(2) r] by (auto simp: Let_def split: prod.splits)
qed simp

text \<open>
  Caching is transparent: for a constructor that depends only on the cached properties, any
  sequence of requests to a fresh module cache is answered exactly as the constructor would answer,
  errors included (they are not cached).
\<close>

theorem module_cache_transparent:
  assumes "\<And>c d. same_cache_key (cache_key_new c properties) (cache_key_new d properties) \<Longrightarrow> init_fn d = init_fn c"
  shows "fst (cache_run init_fn configs (module_cache_new properties)) = map init_fn configs"
  by (rule cache_run_correct [OF _ valid_memo_new]) (simp add: module_cache_new_def assms)

definition init_from_limit :: "(unit, unit) ServerConfiguration \<Rightarrow> string + nat" where
  "init_from_limit c = (if map_of (sc_entries c) ''limit'' = None then Inl ''no limit'' else Inr 7)"

definition limit_config :: "entries hashmap \<Rightarrow> (unit, unit) ServerConfiguration" where
  "limit_config es = \<lparr>sc_entries = es, sc_filters = \<lparr>is_host = True, hostname = None, ip = None, port = None, condition = None,
     error_handler_status = None\<rparr>, sc_modules = [], sc_observability = ()\<rparr>"

theorem module_cache_transparent_witness:
  "fst (cache_run init_from_limit [limit_config [(''limit'', [])], limit_config [], limit_config [(''limit'', [])]]
     (module_cache_new [''limit''])) = [Inr 7, Inl ''no limit'', Inr 7]"
proof -
  have "init_from_limit d = init_from_limit c"
    if "same_cache_key (cache_key_new c [''limit'']) (cache_key_new d [''limit''])" for c d
  proof -
    have "option_eq entries_eq (map_of (sc_entries c) ''limit'') (map_of (sc_entries d) ''limit'')"
      using that by (simp add: same_cache_key_def cache_key_new_def cache_key_eq_def)
    then show ?thesis
      by (cases "map_of (sc_entries c) ''limit''"; cases "map_of (sc_entries d) ''limit''") (auto simp: init_from_limit_def)
  qed
  from module_cache_transparent [of "[''limit'']" init_from_limit, OF this] show ?thesis
    by (simp add: init_from_limit_def limit_config_def del: cache_run.simps)
qed

end
