(* ===== verification/Fcgi.thy ===== *)
theory Fcgi
  imports Net "HOL-Library.Monad_Syntax"
begin

text \<open>
  The FastCGI codec, \<open>ferron-modules-builtin/src/util/fcgi\<close>: construction of records and name-value
  pairs, the encoder of the request body, the decoder of responses and the stream that ends at the
  first empty chunk. Bytes are 8-bit words and lengths are cut to the widths the source casts to. Every
  slice, index and advance of the decoder is checked, and one that is out of range is the result
  \<open>DPanic\<close>, proved never to occur.
\<close>

unbundle bit_operations_syntax

section \<open>Records and name-value pairs\<close>

definition padding_for :: "u16 \<Rightarrow> u8" where
  "padding_for content_length =
     (let remainder = ucast (content_length mod 8) :: u8 in if remainder = 0 then 0 else 8 - remainder)"

definition construct_fastcgi_record :: "u8 \<Rightarrow> u16 \<Rightarrow> bytes \<Rightarrow> bytes" where
  "construct_fastcgi_record record_type request_id content =
     (let content_length = of_nat (length content) :: u16; padding_length = padding_for content_length
      in [1, record_type] @ u16_to_be_bytes request_id @ u16_to_be_bytes content_length @ [padding_length, 0] @
         content @ replicate (unat padding_length) 0)"

definition length_field :: "nat \<Rightarrow> bytes" where
  "length_field n = (if n < 128 then [of_nat n] else u32_to_be_bytes (of_nat n OR 0x80000000))"

definition construct_fastcgi_name_value_pair :: "bytes \<Rightarrow> bytes \<Rightarrow> bytes" where
  "construct_fastcgi_name_value_pair name value = length_field (length name) @ length_field (length value) @ name @ value"

section \<open>The encoder\<close>

function encode_loop :: "bytes \<Rightarrow> nat \<Rightarrow> bool \<Rightarrow> bytes \<Rightarrow> bytes" where
  "encode_loop item offset first_written dst =
     (if offset < length item \<or> item = [] \<and> \<not> first_written then
        let chunk_size = min 65535 (length item - offset); chunk = take chunk_size (drop offset item)
        in encode_loop item (offset + chunk_size) True (dst @ construct_fastcgi_record 5 1 chunk)
      else dst)"
  by pat_completeness auto
termination
  by (relation "measure (\<lambda>(item, offset, fw, dst). (length item - offset) + (if fw then 0 else 1))") auto

declare encode_loop.simps [simp del]

definition fcgi_encode :: "bytes \<Rightarrow> bytes \<Rightarrow> bytes" where
  "fcgi_encode item dst = encode_loop item 0 False dst"

section \<open>The decoder\<close>

datatype FcgiDecodedData = Stdout bytes | Stderr bytes

datatype FcgiDecodeState = ReadingHead | ReadingContent | Finished

record FcgiDecoder =
  dec_header :: bytes
  dec_content_length :: u16
  dec_padding_length :: u8
  dec_state :: FcgiDecodeState

definition fcgi_decoder_new :: FcgiDecoder where
  "fcgi_decoder_new = \<lparr>dec_header = [], dec_content_length = 0, dec_padding_length = 0, dec_state = ReadingHead\<rparr>"

datatype decode_result = DNone | DItem FcgiDecodedData | DErr string | DPanic

text \<open>What a protocol status in an \<open>END_REQUEST\<close> record means.\<close>

definition protocol_error :: "u8 \<Rightarrow> string option" where
  "protocol_error st =
     (if st = 0 then None
      else if st = 1 then Some ''FastCGI server overloaded''
      else if st = 2 then Some ''Role not supported by the FastCGI application''
      else if st = 3 then Some ''Multiplexed connections not supported by the FastCGI application''
      else Some ''Unknown error'')"

definition string_bytes :: "string \<Rightarrow> bytes" where
  "string_bytes s = map (\<lambda>c. of_nat (of_char c)) s"

definition content_total :: "FcgiDecoder \<Rightarrow> nat" where
  "content_total d = unat (dec_content_length d) + unat (dec_padding_length d)"

text \<open>Slices, indices and advances: \<open>None\<close> where the code panics.\<close>

definition slice_at :: "nat \<Rightarrow> nat \<Rightarrow> bytes \<Rightarrow> bytes option" where
  "slice_at a b bs = (if a \<le> b \<and> b \<le> length bs then Some (take (b - a) (drop a bs)) else None)"

definition byte_at :: "nat \<Rightarrow> bytes \<Rightarrow> u8 option" where
  "byte_at i bs = (if i < length bs then Some (bs ! i) else None)"

definition advance :: "nat \<Rightarrow> bytes \<Rightarrow> bytes option" where
  "advance n bs = (if n \<le> length bs then Some (drop n bs) else None)"

definition read_head :: "bytes \<Rightarrow> (bytes \<times> u16 \<times> u8 \<times> bytes) option" where
  "read_head src =
     do { header \<leftarrow> slice_at 0 8 src;
          src' \<leftarrow> advance 8 src;
          len \<leftarrow> slice_at 4 6 header;
          padding_length \<leftarrow> byte_at 6 header;
          Some (header, u16_from_be_bytes (len ! 0) (len ! 1), padding_length, src') }"

definition record_kind :: "FcgiDecoder \<Rightarrow> (u16 \<times> u8) option" where
  "record_kind d =
     do { rid \<leftarrow> slice_at 2 4 (dec_header d);
          record_type \<leftarrow> byte_at 1 (dec_header d);
          Some (u16_from_be_bytes (rid ! 0) (rid ! 1), record_type) }"

definition take_content :: "FcgiDecoder \<Rightarrow> bytes \<Rightarrow> (bytes \<times> bytes) option" where
  "take_content d src =
     do { content \<leftarrow> slice_at 0 (unat (dec_content_length d)) src;
          src' \<leftarrow> advance (content_total d) src;
          Some (content, src') }"

definition end_status :: "bytes \<Rightarrow> (u32 \<times> u8) option" where
  "end_status content =
     do { status \<leftarrow> slice_at 0 4 content;
          protocol_status \<leftarrow> byte_at 4 content;
          Some (u32_from_be_bytes (status ! 0) (status ! 1) (status ! 2) (status ! 3), protocol_status) }"

lemma read_head_length: "read_head src = Some (header, cl, pl, src') \<Longrightarrow> length src' = length src - 8"
  by (auto simp: read_head_def advance_def bind_eq_Some_conv split: if_splits)

lemma take_content_length: "take_content d src = Some (content, src') \<Longrightarrow> length src' \<le> length src"
  by (auto simp: take_content_def advance_def bind_eq_Some_conv split: if_splits)

function fcgi_decode :: "FcgiDecoder \<Rightarrow> bytes \<Rightarrow> decode_result \<times> FcgiDecoder \<times> bytes" where
  "fcgi_decode d src =
     (case dec_state d of
        ReadingHead \<Rightarrow>
          if length src \<ge> 8 then
            (case read_head src of
               None \<Rightarrow> (DPanic, d, src)
             | Some (header, content_length, padding_length, src') \<Rightarrow>
                 fcgi_decode (d\<lparr>dec_header := header, dec_content_length := content_length, dec_padding_length := padding_length,
                   dec_state := ReadingContent\<rparr>) src')
          else (DNone, d, src)
      | ReadingContent \<Rightarrow>
          if length src \<ge> content_total d then
            (case record_kind d of
               None \<Rightarrow> (DPanic, d, src)
             | Some (request_id, record_type) \<Rightarrow>
                 if request_id \<noteq> 1 \<or> record_type \<noteq> 3 \<and> record_type \<noteq> 6 \<and> record_type \<noteq> 7
                 then (case advance (content_total d) src of None \<Rightarrow> (DPanic, d, src) | Some src' \<Rightarrow> (DNone, d, src'))
                 else
                   (case take_content d src of
                      None \<Rightarrow> (DPanic, d, src)
                    | Some (content, src') \<Rightarrow>
                        if record_type = 3 then
                          if length content > 5 then
                            (case end_status content of
                               None \<Rightarrow> (DPanic, d, src')
                             | Some (app_status, protocol_status) \<Rightarrow>
                                 (case protocol_error protocol_status of
                                    Some e \<Rightarrow> (DErr e, d, src')
                                  | None \<Rightarrow>
                                      let d' = d\<lparr>dec_state := Finished\<rparr>
                                      in if app_status \<noteq> 0
                                         then (DItem (Stderr (string_bytes (''FastCGI application exited with code '' @ dec_str (uint app_status)))), d', src')
                                         else fcgi_decode d' src'))
                          else (DNone, d, src')
                        else if record_type = 6 then (DItem (Stdout content), d\<lparr>dec_state := ReadingHead\<rparr>, src')
                        else if record_type = 7 then
                          if content = [] then fcgi_decode (d\<lparr>dec_state := ReadingHead\<rparr>) src'
                          else (DItem (Stderr content), d\<lparr>dec_state := ReadingHead\<rparr>, src')
                        else (DPanic, d, src')))
          else (DNone, d, src)
      | Finished \<Rightarrow> (DNone, d, []))"
  by pat_completeness auto
termination
  by (relation "measure (\<lambda>(d, src). length src + (case dec_state d of ReadingHead \<Rightarrow> 2 | ReadingContent \<Rightarrow> 4 | Finished \<Rightarrow> 0))")
    (auto dest!: read_head_length take_content_length)

declare fcgi_decode.simps [simp del]

section \<open>The processed output stream\<close>

text \<open>The inner stream is the list of the outcomes its \<open>poll_next\<close> yields, one per call.\<close>

record FcgiProcessedStream =
  ps_finished :: bool
  ps_inner :: "(string + bytes) option poll list"

definition processed_new :: "(string + bytes) option poll list \<Rightarrow> FcgiProcessedStream" where
  "processed_new inner = \<lparr>ps_finished = False, ps_inner = inner\<rparr>"

definition processed_poll_next :: "FcgiProcessedStream \<Rightarrow> (string + bytes) option poll \<times> FcgiProcessedStream" where
  "processed_poll_next s =
     (if ps_finished s then (Ready None, s)
      else case ps_inner s of
        [] \<Rightarrow> (Pending, s)
      | Pending # rest \<Rightarrow> (Pending, s\<lparr>ps_inner := rest\<rparr>)
      | Ready chunk # rest \<Rightarrow>
          if chunk = None \<or> chunk = Some (Inr []) then (Ready None, s\<lparr>ps_finished := True, ps_inner := rest\<rparr>)
          else (Ready chunk, s\<lparr>ps_inner := rest\<rparr>))"

section \<open>Arithmetic of the fields\<close>

lemma unat_of_nat_u16: "n \<le> 65535 \<Longrightarrow> unat (of_nat n :: u16) = n"
  by (simp add: unat_of_nat)

lemma padding_for_lt: "unat (padding_for n) < 8"
proof -
  have u: "unat (ucast (n mod 8) :: u8) = unat n mod 8"
    by (simp add: unsigned_ucast_eq unat_mod take_bit_nat_eq_self)
  let ?r = "ucast (n mod 8) :: u8"
  show ?thesis
  proof (cases "?r = 0")
    case False
    then have "unat ?r \<noteq> 0" by (metis unat_0_iff)
    moreover have "unat ?r < 8" unfolding u by simp
    ultimately have "unat (8 - ?r) < 8" by (simp add: unat_sub_if')
    with False show ?thesis by (simp add: padding_for_def Let_def)
  qed (simp add: padding_for_def)
qed

lemma record_parts:
  "construct_fastcgi_record t rid content =
     [1, t, ucast (drop_bit 8 rid), ucast rid, ucast (drop_bit 8 (of_nat (length content) :: u16)),
      ucast (of_nat (length content) :: u16), padding_for (of_nat (length content)), 0] @
     content @ replicate (unat (padding_for (of_nat (length content)))) 0"
  by (simp add: construct_fastcgi_record_def Let_def u16_to_be_bytes_def)

section \<open>Decoding\<close>

text \<open>The decoder after it has read the head of a record.\<close>

definition after_head :: "u8 \<Rightarrow> u16 \<Rightarrow> bytes \<Rightarrow> FcgiDecoder \<Rightarrow> FcgiDecoder" where
  "after_head t rid content d =
     d\<lparr>dec_header := take 8 (construct_fastcgi_record t rid content), dec_content_length := of_nat (length content),
       dec_padding_length := padding_for (of_nat (length content)), dec_state := ReadingContent\<rparr>"

lemma head_of_record:
  "read_head (construct_fastcgi_record t rid content @ rest) =
     Some (take 8 (construct_fastcgi_record t rid content), of_nat (length content), padding_for (of_nat (length content)),
       drop 8 (construct_fastcgi_record t rid content) @ rest)"
  by (simp add: read_head_def slice_at_def byte_at_def advance_def record_parts)

text \<open>With its header in place and enough bytes, the decoder finds all that it reads.\<close>

definition decoder_ok :: "FcgiDecoder \<Rightarrow> bool" where
  "decoder_ok d \<longleftrightarrow> (dec_state d = ReadingContent \<longrightarrow> length (dec_header d) = 8)"

lemma record_kind_eq:
  "length (dec_header d) = 8 \<Longrightarrow> record_kind d = Some (u16_from_be_bytes (dec_header d ! 2) (dec_header d ! 3), dec_header d ! 1)"
  by (simp add: record_kind_def slice_at_def byte_at_def)

lemma take_content_eq:
  "content_total d \<le> length src \<Longrightarrow> take_content d src = Some (take (unat (dec_content_length d)) src, drop (content_total d) src)"
  by (simp add: take_content_def slice_at_def advance_def content_total_def)

lemma end_status_eq:
  "length content > 5 \<Longrightarrow>
   end_status content = Some (u32_from_be_bytes (content ! 0) (content ! 1) (content ! 2) (content ! 3), content ! 4)"
  by (simp add: end_status_def slice_at_def byte_at_def)

lemma read_head_eq:
  "length src \<ge> 8 \<Longrightarrow> read_head src = Some (take 8 src, u16_from_be_bytes (src ! 4) (src ! 5), src ! 6, drop 8 src)"
  by (simp add: read_head_def slice_at_def byte_at_def advance_def)

lemmas decoder_reads = record_kind_eq take_content_eq end_status_eq read_head_eq

lemma decode_head:
  assumes "dec_state d = ReadingHead"
  shows "fcgi_decode d (construct_fastcgi_record t rid content @ rest) =
    fcgi_decode (after_head t rid content d) (drop 8 (construct_fastcgi_record t rid content) @ rest)"
  using assms by (simp add: fcgi_decode.simps [of d] after_head_def head_of_record) (simp add: record_parts)

lemma after_head_fields [simp]:
  "dec_header (after_head t rid content d) ! Suc 0 = t"
  "u16_from_be_bytes (dec_header (after_head t rid content d) ! 2) (dec_header (after_head t rid content d) ! 3) = rid"
  "length (dec_header (after_head t rid content d)) = 8"
  "dec_state (after_head t rid content d) = ReadingContent"
  by (simp_all add: after_head_def record_parts)

lemma content_total_after_head:
  "length content \<le> 65535 \<Longrightarrow>
   content_total (after_head t rid content d) = length content + unat (padding_for (of_nat (length content)))"
  by (simp add: content_total_def after_head_def unat_of_nat_u16)

lemma drop_8_record:
  "drop 8 (construct_fastcgi_record t rid content) = content @ replicate (unat (padding_for (of_nat (length content)))) 0"
  by (simp add: record_parts)

lemma decode_ignored:
  assumes "rid \<noteq> 1" "length content \<le> 65535" "length body = content_total (after_head t rid content d)"
  shows "fcgi_decode (after_head t rid content d) (body @ rest) = (DNone, after_head t rid content d, rest)"
proof -
  have "u16_from_be_bytes (dec_header (after_head t rid content d) ! 2) (dec_header (after_head t rid content d) ! 3) \<noteq> 1"
    using assms(1) by simp
  then show ?thesis using assms by (simp add: fcgi_decode.simps [of "after_head t rid content d"] record_kind_eq advance_def Let_def del: after_head_fields(2))
qed

section \<open>Properties\<close>

text \<open>
  C27: Decoding inverts encoding for output records: fed a well-formed \<open>STDOUT\<close> record followed by
  anything, a decoder that waits for a head yields exactly its content, leaves exactly what
  follows, and waits for the next head.
\<close>

theorem fcgi_decode_stdout_round_trip:
  assumes "dec_state d = ReadingHead" "length content \<le> 65535"
  shows "\<exists>d'. fcgi_decode d (construct_fastcgi_record 6 1 content @ rest) = (DItem (Stdout content), d', rest) \<and>
    dec_state d' = ReadingHead"
proof -
  let ?d = "after_head 6 1 content d"
  have "take (unat (dec_content_length ?d)) (drop 8 (construct_fastcgi_record 6 1 content) @ rest) = content"
    using assms(2) by (simp add: after_head_def drop_8_record unat_of_nat_u16)
  moreover have "drop (content_total ?d) (drop 8 (construct_fastcgi_record 6 1 content) @ rest) = rest"
    "content_total ?d \<le> length (drop 8 (construct_fastcgi_record 6 1 content) @ rest)"
    using assms(2) by (simp_all add: content_total_after_head drop_8_record)
  ultimately have "fcgi_decode ?d (drop 8 (construct_fastcgi_record 6 1 content) @ rest) =
      (DItem (Stdout content), ?d\<lparr>dec_state := ReadingHead\<rparr>, rest)"
    by (subst fcgi_decode.simps) (simp add: decoder_reads Let_def del: take_append drop_append drop_drop length_append)
  then show ?thesis unfolding decode_head [OF assms(1)] by simp
qed

theorem fcgi_decode_stdout_round_trip_witness:
  "\<exists>d'. fcgi_decode fcgi_decoder_new (construct_fastcgi_record 6 1 [72, 105] @ [1]) = (DItem (Stdout [72, 105]), d', [1]) \<and>
    dec_state d' = ReadingHead"
  by (rule fcgi_decode_stdout_round_trip) (simp_all add: fcgi_decoder_new_def)

text \<open>
  A record that is not for request 1 desynchronises the decoder: it is skipped, but the decoder
  keeps waiting for a content of that length instead of a head, and swallows the next bytes of the
  stream, whatever they are, again and again.
\<close>

theorem fcgi_decode_ignored_swallows:
  assumes "dec_state d = ReadingHead" "rid \<noteq> 1" "length content \<le> 65535"
  shows "\<exists>d'. fcgi_decode d (construct_fastcgi_record t rid content @ rest) = (DNone, d', rest) \<and> dec_state d' = ReadingContent \<and>
    (\<forall>body more. length body = length (construct_fastcgi_record t rid content) - 8 \<longrightarrow>
       fcgi_decode d' (body @ more) = (DNone, d', more))"
proof (intro exI conjI allI impI)
  let ?d = "after_head t rid content d"
  have l: "length (construct_fastcgi_record t rid content) - 8 = content_total ?d"
    using assms(3) by (simp add: content_total_after_head record_parts)
  show "fcgi_decode d (construct_fastcgi_record t rid content @ rest) = (DNone, ?d, rest)"
    unfolding decode_head [OF assms(1)]
    by (rule decode_ignored [OF assms(2,3)]) (simp add: content_total_after_head [OF assms(3)] drop_8_record)
  show "dec_state ?d = ReadingContent" by simp
  show "fcgi_decode ?d (body @ more) = (DNone, ?d, more)"
    if "length body = length (construct_fastcgi_record t rid content) - 8" for body more
    using decode_ignored [OF assms(2,3)] that unfolding l by simp
qed

theorem fcgi_decode_ignored_swallows_witness:
  "\<exists>d'. fcgi_decode fcgi_decoder_new (construct_fastcgi_record 6 2 [0, 0, 0, 0, 0, 0, 0, 0] @ []) = (DNone, d', []) \<and>
    dec_state d' = ReadingContent \<and>
    fcgi_decode d' (construct_fastcgi_record 6 1 [] @ []) = (DNone, d', [])"
proof -
  have h: "dec_state fcgi_decoder_new = ReadingHead" "(2 :: u16) \<noteq> 1" "length ([0, 0, 0, 0, 0, 0, 0, 0] :: bytes) \<le> 65535"
    by (simp_all add: fcgi_decoder_new_def)
  obtain d' where d: "fcgi_decode fcgi_decoder_new (construct_fastcgi_record 6 2 [0, 0, 0, 0, 0, 0, 0, 0] @ []) = (DNone, d', [])"
    "dec_state d' = ReadingContent"
    "\<forall>body more. length body = length (construct_fastcgi_record 6 2 [0, 0, 0, 0, 0, 0, 0, 0]) - 8 \<longrightarrow>
       fcgi_decode d' (body @ more) = (DNone, d', more)"
    using fcgi_decode_ignored_swallows [OF h, of 6 "[]"] by blast
  have "length (construct_fastcgi_record 6 1 []) = length (construct_fastcgi_record 6 2 [0, 0, 0, 0, 0, 0, 0, 0]) - 8"
    by (simp add: record_parts padding_for_def)
  with d show ?thesis by blast
qed

lemma fcgi_decode_ok:
  "decoder_ok d \<Longrightarrow> fcgi_decode d src = (r, d', src') \<Longrightarrow> r \<noteq> DPanic \<and> decoder_ok d' \<and> length src' \<le> length src"
proof (induction d src arbitrary: r d' src' rule: fcgi_decode.induct)
  case (1 d src)
  show ?case
  proof (cases "dec_state d")
    case ReadingHead
    show ?thesis
    proof (cases "length src \<ge> 8")
      case True
      have "r \<noteq> DPanic \<and> decoder_ok d' \<and> length src' \<le> length (drop 8 src)"
        by (rule "1.IH"(1) [OF ReadingHead True read_head_eq [OF True] refl refl refl]) (use "1.prems" ReadingHead True in \<open>simp_all add: decoder_ok_def fcgi_decode.simps [of d] read_head_eq\<close>)
      then show ?thesis by auto
    next
      case False
      then show ?thesis using "1.prems" ReadingHead by (auto simp: fcgi_decode.simps [of d])
    qed
  next
    case Finished
    then show ?thesis using "1.prems" by (auto simp: fcgi_decode.simps [of d])
  next
    case ReadingContent
    have fin: "fcgi_decode (e\<lparr>dec_state := Finished\<rparr>) s = (DNone, e\<lparr>dec_state := Finished\<rparr>, [])" for e s
      by (simp add: fcgi_decode.simps)
    have short: "fcgi_decode (e\<lparr>dec_state := ReadingHead\<rparr>) [] = (DNone, e\<lparr>dec_state := ReadingHead\<rparr>, [])" for e
      by (simp add: fcgi_decode.simps)
    have ok: "decoder_ok (e\<lparr>dec_state := Finished\<rparr>)" "decoder_ok (e\<lparr>dec_state := ReadingHead\<rparr>)" for e
      by (simp_all add: decoder_ok_def)
    have h: "length (dec_header d) = 8" using "1.prems"(1) ReadingContent by (simp add: decoder_ok_def)
    have IH: "r \<noteq> DPanic \<and> decoder_ok d' \<and> length src' \<le> length src"
      if "fcgi_decode (d\<lparr>dec_state := ReadingHead\<rparr>) (drop (content_total d) src) = (r, d', src')" "content_total d \<le> length src"
        "u16_from_be_bytes (dec_header d ! 2) (dec_header d ! 3) = 1" "dec_header d ! 1 = 7" "unat (dec_content_length d) = 0 \<or> src = []"
      for r d' src'
    proof -
      have "r \<noteq> DPanic \<and> decoder_ok d' \<and> length src' \<le> length (drop (content_total d) src)"
        by (rule "1.IH"(3) [OF ReadingContent that(2) record_kind_eq [OF h] refl _ take_content_eq [OF that(2)] refl])
          (use that ok in auto)
      then show ?thesis by auto
    qed
    show ?thesis using "1.prems" ReadingContent h ok
      by (auto simp: fcgi_decode.simps [of d] decoder_reads advance_def Let_def fin short split: if_splits option.splits dest: IH)
  qed
qed

fun decode_run :: "FcgiDecoder \<Rightarrow> bytes \<Rightarrow> bytes list \<Rightarrow> decode_result list" where
  "decode_run d buffer [] = []"
| "decode_run d buffer (chunk # chunks) =
     (let (r, d', buffer') = fcgi_decode d (buffer @ chunk) in r # decode_run d' buffer' chunks)"

text \<open>
  C31: A fresh decoder never panics, however the bytes it is fed are cut into chunks and whatever
  they are: no slice or index of the header, of the content or of the buffer, and no advance of the buffer, is ever
  out of range, and the branch marked unreachable is not reached.
\<close>

theorem fcgi_decode_never_panics:
  "DPanic \<notin> set (decode_run fcgi_decoder_new [] chunks)"
proof -
  have "DPanic \<notin> set (decode_run d buffer chunks)" if "decoder_ok d" for d buffer
    using that
  proof (induction chunks arbitrary: d buffer)
    case (Cons chunk chunks)
    obtain r d' b where r: "fcgi_decode d (buffer @ chunk) = (r, d', b)" by (cases "fcgi_decode d (buffer @ chunk)") auto
    with fcgi_decode_ok [OF Cons.prems r] Cons.IH [of d' b] show ?case by auto
  qed simp
  then show ?thesis by (simp add: decoder_ok_def fcgi_decoder_new_def)
qed

section \<open>Encoding\<close>

fun chunks_of :: "nat \<Rightarrow> bytes \<Rightarrow> bytes list" where
  "chunks_of 0 item = [item]"
| "chunks_of (Suc n) item = (if length item \<le> 65535 then [item] else take 65535 item # chunks_of n (drop 65535 item))"

lemma concat_chunks_of: "concat (chunks_of n item) = item"
  by (induction n item rule: chunks_of.induct) auto

lemma chunks_of_bounded: "length item \<le> 65535 * Suc n \<Longrightarrow> \<forall>c \<in> set (chunks_of n item). length c \<le> 65535"
  by (induction n item rule: chunks_of.induct) auto

lemma encode_loop_chunks:
  "offset < length item \<Longrightarrow> length item - offset \<le> 65535 * Suc n \<Longrightarrow>
   encode_loop item offset fw dst = dst @ concat (map (construct_fastcgi_record 5 1) (chunks_of n (drop offset item)))"
proof (induction n arbitrary: offset fw dst)
  case 0
  then show ?case by (simp add: encode_loop.simps [of item offset] encode_loop.simps [of item "length item"])
next
  case (Suc n)
  show ?case
  proof (cases "length item - offset \<le> 65535")
    case True
    then show ?thesis using Suc.prems by (simp add: encode_loop.simps [of item offset] encode_loop.simps [of item "length item"])
  next
    case False
    then have "encode_loop item (offset + 65535) True (dst @ construct_fastcgi_record 5 1 (take 65535 (drop offset item))) =
        (dst @ construct_fastcgi_record 5 1 (take 65535 (drop offset item))) @
        concat (map (construct_fastcgi_record 5 1) (chunks_of n (drop (offset + 65535) item)))"
      using Suc.prems by (intro Suc.IH) auto
    with False Suc.prems show ?thesis by (simp add: encode_loop.simps [of item offset] add.commute)
  qed
qed

text \<open>
  C29: The request body is sent as \<open>STDIN\<close> records of request 1 that are each well-formed (at most
  65535 bytes, so that the 16-bit length does not wrap) and together carry exactly the body; the
  empty body is one empty record, the end-of-stream marker.
\<close>

theorem fcgi_encode_chunks:
  "\<exists>cs. fcgi_encode item dst = dst @ concat (map (construct_fastcgi_record 5 1) cs) \<and> concat cs = item \<and>
     cs \<noteq> [] \<and> list_all (\<lambda>c. length c \<le> 65535) cs"
proof (cases "item = []")
  case True
  then have "fcgi_encode item dst = dst @ concat (map (construct_fastcgi_record 5 1) [[]])"
    by (simp add: fcgi_encode_def encode_loop.simps [of "[]"])
  with True show ?thesis by (intro exI [of _ "[[]]"]) simp
next
  case False
  let ?cs = "chunks_of (length item) item"
  have b: "length item \<le> 65535 * Suc (length item)" by simp
  have "fcgi_encode item dst = dst @ concat (map (construct_fastcgi_record 5 1) ?cs)"
    using encode_loop_chunks [of 0 item "length item" False dst] False by (simp add: fcgi_encode_def)
  moreover have "?cs \<noteq> []" by (cases "length item") auto
  moreover have "list_all (\<lambda>c. length c \<le> 65535) ?cs" using chunks_of_bounded [OF b] by (simp add: list_all_iff)
  ultimately show ?thesis using concat_chunks_of by blast
qed

section \<open>Name-value pairs\<close>

text \<open>A reader of length fields and pairs, as the FastCGI specification defines them.\<close>

fun read_length :: "bytes \<Rightarrow> (nat \<times> bytes) option" where
  "read_length [] = None"
| "read_length (b # bs) =
     (if b < 128 then Some (unat b, bs)
      else case bs of
        c # d # e # rest \<Rightarrow> Some (unat (u32_from_be_bytes b c d e AND 0x7FFFFFFF), rest)
      | _ \<Rightarrow> None)"

definition read_pair :: "bytes \<Rightarrow> (bytes \<times> bytes \<times> bytes) option" where
  "read_pair bs =
     (case read_length bs of
        None \<Rightarrow> None
      | Some (n, bs1) \<Rightarrow> (case read_length bs1 of
            None \<Rightarrow> None
          | Some (v, rest) \<Rightarrow>
              if length rest \<ge> n + v then Some (take n rest, take v (drop n rest), drop (n + v) rest) else None))"

lemma marked_length:
  assumes "n < 2 ^ 31"
  shows "unat (of_nat n OR 0x80000000 :: u32) = n + 2 ^ 31"
proof -
  have u: "unat (of_nat n :: u32) = n" using assms by (simp add: unat_of_nat)
  have "take_bit 31 n = n" using assms by (simp add: take_bit_nat_eq_self)
  then have "\<not> bit n 31" by (metis bit_take_bit_iff less_irrefl)
  then have "n AND 2 ^ 31 = 0" using and_exp_eq_0_iff_not_bit [of n 31] by blast
  then have "n OR 2 ^ 31 = n + 2 ^ 31" by (simp only: disjunctive_add_eq_or)
  then show ?thesis by (simp add: unsigned_or_eq u)
qed

lemma read_length_long:
  "\<not> (ucast (drop_bit 24 x) :: u8) < 128 \<Longrightarrow>
   read_length (u32_to_be_bytes x @ rest) = Some (unat (x AND 0x7FFFFFFF), rest)"
  by (simp add: u32_to_be_bytes_def)

lemma read_length_field:
  assumes "n < 2 ^ 31"
  shows "read_length (length_field n @ rest) = Some (n, rest)"
proof (cases "n < 128")
  case True
  then have "(of_nat n :: u8) < 128" "unat (of_nat n :: u8) = n" by (simp_all add: word_less_nat_alt unat_of_nat)
  with True show ?thesis by (simp add: length_field_def)
next
  case False
  let ?x = "of_nat n OR 0x80000000 :: u32"
  note u = marked_length [OF assms]
  have "unat (drop_bit 24 ?x) = (n + 2 ^ 31) div 2 ^ 24" 
    unfolding unsigned_drop_bit_eq u using assms by (simp add: drop_bit_eq_div take_bit_nat_eq_self)
  moreover have "(n + 2 ^ 31) div 2 ^ 24 < 256" "128 \<le> (n + 2 ^ 31) div 2 ^ 24" using assms by (simp_all add: less_mult_imp_div_less)
  ultimately have "unat (ucast (drop_bit 24 ?x) :: u8) = (n + 2 ^ 31) div 2 ^ 24"
    by (simp add: unsigned_ucast_eq take_bit_nat_eq_self)
  with \<open>128 \<le> _\<close> have hi: "\<not> (ucast (drop_bit 24 ?x) :: u8) < 128" by (simp add: word_less_nat_alt)
  have "(0x7FFFFFFF :: u32) = mask 31" by (simp add: mask_eq_exp_minus_1)
  then have "unat (?x AND 0x7FFFFFFF) = take_bit 31 (unat ?x)" by (simp only: take_bit_eq_mask [symmetric] unsigned_take_bit_eq)
  also have "\<dots> = n" unfolding u using assms by (simp add: take_bit_eq_mod)
  finally have lo: "unat (?x AND 0x7FFFFFFF) = n" .
  have "length_field n = u32_to_be_bytes ?x" using False by (simp only: length_field_def if_False)
  then show ?thesis by (simp only: read_length_long [OF hi] lo)
qed

text \<open>
  C32: Name-value pairs are written as FastCGI defines them: a reader of the protocol gets back exactly
  the name, the value and whatever follows, for lengths below $2^{31}$.
\<close>

theorem fastcgi_name_value_pair_round_trip:
  assumes "length name < 2 ^ 31" "length value < 2 ^ 31"
  shows "read_pair (construct_fastcgi_name_value_pair name value @ rest) = Some (name, value, rest)"
  using assms by (simp add: construct_fastcgi_name_value_pair_def read_pair_def read_length_field)

theorem fastcgi_name_value_pair_round_trip_witness:
  "read_pair (construct_fastcgi_name_value_pair [72, 79] [1, 2, 3] @ [9]) = Some ([72, 79], [1, 2, 3], [9])"
  by (rule fastcgi_name_value_pair_round_trip) simp_all

section \<open>The processed stream\<close>

fun poll_all :: "nat \<Rightarrow> FcgiProcessedStream \<Rightarrow> (string + bytes) list" where
  "poll_all 0 s = []"
| "poll_all (Suc n) s =
     (case processed_poll_next s of
        (Ready (Some r), s') \<Rightarrow> r # poll_all n s'
      | (Ready None, s') \<Rightarrow> poll_all n s'
      | (Pending, s') \<Rightarrow> poll_all n s')"

fun ready_items :: "(string + bytes) option poll list \<Rightarrow> (string + bytes) list" where
  "ready_items [] = []"
| "ready_items (Pending # ps) = ready_items ps"
| "ready_items (Ready None # ps) = []"
| "ready_items (Ready (Some r) # ps) = r # ready_items ps"

lemma poll_all_finished: "ps_finished s \<Longrightarrow> poll_all n s = []"
  by (induction n) (auto simp: processed_poll_next_def)

text \<open>
  The processed output stream yields the chunks of the inner stream up to, and without, its end
  or the first empty chunk, and nothing after that, however often it is polled.
\<close>

theorem processed_stream_until_empty:
  assumes "length inner \<le> n"
  shows "poll_all n (processed_new inner) = takeWhile (\<lambda>r. r \<noteq> Inr []) (ready_items inner)"
proof -
  have "poll_all n \<lparr>ps_finished = False, ps_inner = inner\<rparr> = takeWhile (\<lambda>r. r \<noteq> Inr []) (ready_items inner)"
    using assms
  proof (induction inner arbitrary: n rule: ready_items.induct)
    case 1
    then show ?case by (induction n) (auto simp: processed_poll_next_def)
  next
    case (2 ps)
    then show ?case by (cases n) (auto simp: processed_poll_next_def)
  next
    case (3 ps)
    then show ?case by (cases n) (auto simp: processed_poll_next_def poll_all_finished)
  next
    case (4 r ps)
    then show ?case by (cases n) (auto simp: processed_poll_next_def poll_all_finished)
  qed
  then show ?thesis by (simp add: processed_new_def)
qed

theorem processed_stream_until_empty_witness:
  "poll_all 4 (processed_new [Ready (Some (Inr [1])), Pending, Ready (Some (Inr [])), Ready (Some (Inr [2]))]) = [Inr [1]]"
  by (subst processed_stream_until_empty) simp_all

end
