(* ===== verification/Proxy_Protocol.thy ===== *)
theory Proxy_Protocol
  imports Net
begin

text \<open>
  Reading a PROXY protocol header from a connection, \<open>ferron/src/util/proxy_protocol.rs\<close>. The stream
  is the list of the bytes still to come; a read beyond its end is the error \<open>UnexpectedEof\<close>. The
  \<open>ppp\<close> crate (its prefixes and its parser) is the parameter \<open>ppp_lib\<close>. A slice out of range is the
  result \<open>IoPanic\<close>.
\<close>

section \<open>Definitions\<close>

datatype io_error = UnexpectedEof | InvalidData string

datatype 'a io_result = IoOk 'a | IoErr io_error | IoPanic

datatype v1_addresses = V1_Tcp4 u32 u16 u32 u16 | V1_Tcp6 u128 u16 u128 u16 | V1_Unknown

datatype v2_addresses = V2_IPv4 u32 u16 u32 u16 | V2_IPv6 u128 u16 u128 u16 | V2_Unix string | V2_Unspecified

datatype header_result = HV1 "v1_addresses option" | HV2 "v2_addresses option"

record ppp_lib =
  v1_protocol_prefix :: bytes
  v2_protocol_prefix :: bytes
  ppp_parse :: "bytes \<Rightarrow> header_result"

abbreviation "V1_PREFIX_LEN \<equiv> 5 :: nat"
abbreviation "V1_MAX_LENGTH \<equiv> 107 :: nat"
abbreviation "V2_PREFIX_LEN \<equiv> 12 :: nat"
abbreviation "V2_MINIMUM_LEN \<equiv> 16 :: nat"
abbreviation "V2_LENGTH_INDEX \<equiv> 14 :: nat"
abbreviation "READ_BUFFER_LEN \<equiv> 512 :: nat"

definition V1_TERMINATOR :: bytes where
  "V1_TERMINATOR = [13, 10]"

definition read_exact :: "nat \<Rightarrow> bytes \<Rightarrow> (bytes \<times> bytes) option" where
  "read_exact n stream = (if n \<le> length stream then Some (take n stream, drop n stream) else None)"

definition write_at :: "nat \<Rightarrow> bytes \<Rightarrow> bytes \<Rightarrow> bytes" where
  "write_at i bs buffer = take i buffer @ bs @ drop (i + length bs) buffer"

text \<open>The loop of \<open>read_v1_header\<close>, from index \<open>i\<close>; it returns the stream and the buffer.\<close>

function read_v1_loop :: "nat \<Rightarrow> bytes \<Rightarrow> bytes \<Rightarrow> (bytes \<times> bytes) io_result" where
  "read_v1_loop i stream buffer =
     (if i \<ge> V1_MAX_LENGTH then IoErr (InvalidData ''No valid Proxy Protocol header detected'')
      else case stream of
        [] \<Rightarrow> IoErr UnexpectedEof
      | b # stream' \<Rightarrow>
          (let buffer' = buffer[i := b]
           in if [buffer' ! (i - 1), buffer' ! i] = V1_TERMINATOR then IoOk (stream', buffer')
              else read_v1_loop (Suc i) stream' buffer'))"
  by pat_completeness auto
termination
  by (relation "measure (\<lambda>(i, stream, buffer). 107 - i)") auto

declare read_v1_loop.simps [simp del]

definition read_v1_header :: "bytes \<Rightarrow> bytes \<Rightarrow> (bytes \<times> bytes) io_result" where
  "read_v1_header stream buffer = read_v1_loop V1_PREFIX_LEN stream buffer"

text \<open>\<open>read_v2_header\<close> returns the stream, the fixed buffer and, if it was used, the dynamic one.\<close>

definition read_v2_header :: "bytes \<Rightarrow> bytes \<Rightarrow> (bytes \<times> bytes \<times> bytes option) io_result" where
  "read_v2_header stream buffer =
     (let full_length = V2_MINIMUM_LEN + unat (u16_from_be_bytes (buffer ! V2_LENGTH_INDEX) (buffer ! (V2_LENGTH_INDEX + 1)))
      in if full_length > READ_BUFFER_LEN then
           (let dynamic_buffer = take V2_MINIMUM_LEN buffer
            in if length dynamic_buffer < full_length then IoPanic
               else case read_exact (full_length - V2_MINIMUM_LEN) stream of
                 None \<Rightarrow> IoErr UnexpectedEof
               | Some (bs, stream') \<Rightarrow> IoOk (stream', buffer, Some (write_at V2_MINIMUM_LEN bs dynamic_buffer)))
         else case read_exact (full_length - V2_MINIMUM_LEN) stream of
           None \<Rightarrow> IoErr UnexpectedEof
         | Some (bs, stream') \<Rightarrow> IoOk (stream', write_at V2_MINIMUM_LEN bs buffer, None))"

definition addr4 :: "u32 \<Rightarrow> u16 \<Rightarrow> SocketAddr" where
  "addr4 a p = \<lparr>sa_ip = V4 a, sa_port = p\<rparr>"

definition addr6 :: "u128 \<Rightarrow> u16 \<Rightarrow> SocketAddr" where
  "addr6 a p = \<lparr>sa_ip = V6 a, sa_port = p\<rparr>"

definition header_outcome :: "header_result \<Rightarrow> bytes \<Rightarrow> (bytes \<times> SocketAddr option \<times> SocketAddr option) io_result" where
  "header_outcome header stream =
     (case header of
        HV1 (Some (V1_Tcp4 s sp d dp)) \<Rightarrow> IoOk (stream, Some (addr4 s sp), Some (addr4 d dp))
      | HV1 (Some (V1_Tcp6 s sp d dp)) \<Rightarrow> IoOk (stream, Some (addr6 s sp), Some (addr6 d dp))
      | HV1 (Some V1_Unknown) \<Rightarrow> IoOk (stream, None, None)
      | HV2 (Some (V2_IPv4 s sp d dp)) \<Rightarrow> IoOk (stream, Some (addr4 s sp), Some (addr4 d dp))
      | HV2 (Some (V2_IPv6 s sp d dp)) \<Rightarrow> IoOk (stream, Some (addr6 s sp), Some (addr6 d dp))
      | HV2 (Some (V2_Unix u)) \<Rightarrow> IoErr (InvalidData (''Unix socket addresses are not supported. Addresses: '' @ u))
      | HV2 (Some V2_Unspecified) \<Rightarrow> IoOk (stream, None, None)
      | HV1 None \<Rightarrow> IoErr (InvalidData ''No valid V1 Proxy Protocol header received'')
      | HV2 None \<Rightarrow> IoErr (InvalidData ''No valid V2 Proxy Protocol header received''))"

definition read_proxy_header :: "ppp_lib \<Rightarrow> bytes \<Rightarrow> (bytes \<times> SocketAddr option \<times> SocketAddr option) io_result" where
  "read_proxy_header lib stream =
     (let buffer = replicate READ_BUFFER_LEN 0
      in case read_exact V1_PREFIX_LEN stream of
        None \<Rightarrow> IoErr UnexpectedEof
      | Some (prefix, stream1) \<Rightarrow>
          (let buffer1 = write_at 0 prefix buffer
           in if take V1_PREFIX_LEN buffer1 = v1_protocol_prefix lib then
                (case read_v1_header stream1 buffer1 of
                   IoOk (stream2, buffer2) \<Rightarrow> header_outcome (ppp_parse lib buffer2) stream2
                 | IoErr e \<Rightarrow> IoErr e
                 | IoPanic \<Rightarrow> IoPanic)
              else case read_exact (V2_MINIMUM_LEN - V1_PREFIX_LEN) stream1 of
                None \<Rightarrow> IoErr UnexpectedEof
              | Some (bs, stream2) \<Rightarrow>
                  (let buffer2 = write_at V1_PREFIX_LEN bs buffer1
                   in if take V2_PREFIX_LEN buffer2 = v2_protocol_prefix lib then
                        (case read_v2_header stream2 buffer2 of
                           IoOk (stream3, buffer3, dynamic_buffer) \<Rightarrow>
                             header_outcome (ppp_parse lib (case dynamic_buffer of Some d \<Rightarrow> d | None \<Rightarrow> buffer3)) stream3
                         | IoErr e \<Rightarrow> IoErr e
                         | IoPanic \<Rightarrow> IoPanic)
                      else IoErr (InvalidData ''No valid Proxy Protocol header detected''))))"

section \<open>Version 2\<close>

text \<open>What is in the buffer once the 16 bytes of a version 2 head have been read.\<close>

lemma v2_head:
  assumes "length head = 16" "take 5 head \<noteq> v1_protocol_prefix lib" "take 12 head = v2_protocol_prefix lib"
  shows "read_proxy_header lib (head @ rest) =
    (case read_v2_header rest (head @ replicate 496 0) of
       IoOk (stream3, buffer3, dynamic_buffer) \<Rightarrow>
         header_outcome (ppp_parse lib (case dynamic_buffer of Some d \<Rightarrow> d | None \<Rightarrow> buffer3)) stream3
     | IoErr e \<Rightarrow> IoErr e
     | IoPanic \<Rightarrow> IoPanic)"
proof -
  have r1: "read_exact 5 (head @ rest) = Some (take 5 head, drop 5 head @ rest)"
    using assms(1) by (simp add: read_exact_def)
  have b1: "write_at 0 (take 5 head) (replicate 512 0) = take 5 head @ replicate 507 0"
    using assms(1) by (simp add: write_at_def)
  have r2: "read_exact 11 (drop 5 head @ rest) = Some (drop 5 head, rest)"
    using assms(1) by (simp add: read_exact_def)
  have b2: "write_at 5 (drop 5 head) (take 5 head @ replicate 507 0) = head @ replicate 496 0"
    using assms(1) by (simp add: write_at_def)
  have t: "take 5 (take 5 head @ replicate 507 0) = take 5 head" "take 12 (head @ replicate 496 0) = take 12 head"
    using assms(1) by simp_all
  show ?thesis
    unfolding read_proxy_header_def Let_def r1 option.case prod.case b1 t
    using assms(2,3) r2 b2 t by simp
qed

definition v2_length :: "bytes \<Rightarrow> nat" where
  "v2_length head = unat (u16_from_be_bytes (head ! 14) (head ! 15))"

lemma v2_read:
  assumes "length head = 16"
  shows "read_v2_header rest (head @ replicate 496 0) =
    (if v2_length head > 496 then IoPanic
     else if v2_length head \<le> length rest
       then IoOk (drop (v2_length head) rest, head @ take (v2_length head) rest @ replicate (496 - v2_length head) 0, None)
     else IoErr UnexpectedEof)"
  using assms by (auto simp: read_v2_header_def v2_length_def Let_def nth_append read_exact_def write_at_def)

text \<open>A version 2 header is consumed exactly, and the parser sees it followed by zeros.\<close>

lemma v2_consumed:
  assumes "length head = 16" "take 5 head \<noteq> v1_protocol_prefix lib" "take 12 head = v2_protocol_prefix lib"
    "length body = v2_length head" "v2_length head \<le> 496"
  shows "read_proxy_header lib (head @ body @ rest) =
    header_outcome (ppp_parse lib (head @ body @ replicate (496 - length body) 0)) rest"
  unfolding v2_head [OF assms(1-3)] v2_read [OF assms(1)] using assms(4,5) by simp

text \<open>
  How the PROXY protocol lays out the addresses of the command \<open>PROXY\<close>, which the parser of the crate reads: source
  address, destination address, source port, destination port, in network byte order, then optional fields.
\<close>

definition wire4 :: "bytes \<Rightarrow> v2_addresses" where
  "wire4 body = V2_IPv4 (word_rcat (take 4 body)) (word_rcat (take 2 (drop 8 body)))
     (word_rcat (take 4 (drop 4 body))) (word_rcat (take 2 (drop 10 body)))"

definition wire6 :: "bytes \<Rightarrow> v2_addresses" where
  "wire6 body = V2_IPv6 (word_rcat (take 16 body)) (word_rcat (take 2 (drop 32 body)))
     (word_rcat (take 16 (drop 16 body))) (word_rcat (take 2 (drop 34 body)))"

definition parses_v2 :: "ppp_lib \<Rightarrow> bool" where
  "parses_v2 lib \<longleftrightarrow>
     (\<forall>head body zs. length head = 16 \<and> take 12 head = v2_protocol_prefix lib \<and> head ! 12 = 0x21 \<and> length body = v2_length head \<longrightarrow>
        (head ! 13 = 0x11 \<and> 12 \<le> length body \<longrightarrow> ppp_parse lib (head @ body @ zs) = HV2 (Some (wire4 body))) \<and>
        (head ! 13 = 0x21 \<and> 36 \<le> length body \<longrightarrow> ppp_parse lib (head @ body @ zs) = HV2 (Some (wire6 body))))"

text \<open>
  C34: A version 2 header of the command \<open>PROXY\<close> over TCP whose length field is at most 496 is consumed exactly, the bytes
  after it stay in the stream, and the source address and port it carries are reported as the client's, the
  destination address and port as the server's, for IPv4 and for IPv6.
\<close>

theorem read_proxy_header_v2:
  assumes "length head = 16" "take 5 head \<noteq> v1_protocol_prefix lib" "take 12 head = v2_protocol_prefix lib" "head ! 12 = 0x21"
    "length body = v2_length head" "v2_length head \<le> 496" "parses_v2 lib"
  shows "(head ! 13 = 0x11 \<and> 12 \<le> length body \<longrightarrow> read_proxy_header lib (head @ body @ rest) =
      IoOk (rest, Some \<lparr>sa_ip = V4 (word_rcat (take 4 body)), sa_port = word_rcat (take 2 (drop 8 body))\<rparr>,
        Some \<lparr>sa_ip = V4 (word_rcat (take 4 (drop 4 body))), sa_port = word_rcat (take 2 (drop 10 body))\<rparr>)) \<and>
    (head ! 13 = 0x21 \<and> 36 \<le> length body \<longrightarrow> read_proxy_header lib (head @ body @ rest) =
      IoOk (rest, Some \<lparr>sa_ip = V6 (word_rcat (take 16 body)), sa_port = word_rcat (take 2 (drop 32 body))\<rparr>,
        Some \<lparr>sa_ip = V6 (word_rcat (take 16 (drop 16 body))), sa_port = word_rcat (take 2 (drop 34 body))\<rparr>))"
proof -
  have p: "(head ! 13 = 0x11 \<and> 12 \<le> length body \<longrightarrow> ppp_parse lib (head @ body @ zs) = HV2 (Some (wire4 body))) \<and>
      (head ! 13 = 0x21 \<and> 36 \<le> length body \<longrightarrow> ppp_parse lib (head @ body @ zs) = HV2 (Some (wire6 body)))" for zs
    using assms(1,3,4,5,7) unfolding parses_v2_def by blast
  show ?thesis
    unfolding v2_consumed [OF assms(1-3,5,6)]
    using p by (auto simp: header_outcome_def wire4_def wire6_def addr4_def addr6_def)
qed

definition example_ppp :: ppp_lib where
  "example_ppp = \<lparr>v1_protocol_prefix = [80, 82, 79, 88, 89], v2_protocol_prefix = [13, 10, 13, 10, 0, 13, 10, 81, 85, 73, 84, 10],
     ppp_parse = \<lambda>b. if hd b = 13 then HV2 (Some (if b ! 13 = 0x11 then wire4 (drop 16 b) else if b ! 13 = 0x21 then wire6 (drop 16 b)
       else V2_Unspecified)) else HV1 (Some V1_Unknown)\<rparr>"

lemma example_ppp_parses_v2: "parses_v2 example_ppp"
  unfolding parses_v2_def
proof (intro allI impI, elim conjE)
  fix head body zs :: bytes
  assume h: "length head = 16" "take 12 head = v2_protocol_prefix example_ppp"
  define b where "b = head @ body @ zs"
  have b: "hd b = 13" "drop 16 b = body @ zs" "b ! 13 = head ! 13"
    using h by (cases head; simp add: b_def example_ppp_def nth_append)+
  have "ppp_parse example_ppp b =
      HV2 (Some (if head ! 13 = 0x11 then wire4 (body @ zs) else if head ! 13 = 0x21 then wire6 (body @ zs) else V2_Unspecified))"
    by (simp add: example_ppp_def b)
  then show "(head ! 13 = 0x11 \<and> 12 \<le> length body \<longrightarrow> ppp_parse example_ppp (head @ body @ zs) = HV2 (Some (wire4 body))) \<and>
      (head ! 13 = 0x21 \<and> 36 \<le> length body \<longrightarrow> ppp_parse example_ppp (head @ body @ zs) = HV2 (Some (wire6 body)))"
    unfolding b_def [symmetric] by (simp add: wire4_def wire6_def)
qed

theorem read_proxy_header_v2_witness:
  "read_proxy_header example_ppp ([13, 10, 13, 10, 0, 13, 10, 81, 85, 73, 84, 10, 0x21, 0x11, 0, 12] @ [10, 0, 0, 1, 10, 0, 0, 2, 0, 80, 1, 187] @ [9]) =
     IoOk ([9], Some \<lparr>sa_ip = V4 0x0A000001, sa_port = 80\<rparr>, Some \<lparr>sa_ip = V4 0x0A000002, sa_port = 443\<rparr>)"
proof -
  let ?head = "[13, 10, 13, 10, 0, 13, 10, 81, 85, 73, 84, 10, 0x21, 0x11, 0, 12] :: bytes"
  let ?body = "[10, 0, 0, 1, 10, 0, 0, 2, 0, 80, 1, 187] :: bytes"
  have h: "length ?head = 16" "take 5 ?head \<noteq> v1_protocol_prefix example_ppp" "take 12 ?head = v2_protocol_prefix example_ppp" "?head ! 12 = 0x21"
    "length ?body = v2_length ?head" "v2_length ?head \<le> 496"
    by (simp_all add: example_ppp_def v2_length_def u16_from_be_bytes_def)
  have w: "word_rcat (take 4 ?body) = (0x0A000001 :: u32)" "word_rcat (take 2 (drop 8 ?body)) = (80 :: u16)"
    "word_rcat (take 4 (drop 4 ?body)) = (0x0A000002 :: u32)" "word_rcat (take 2 (drop 10 ?body)) = (443 :: u16)" by code_simp+
  have "?head ! 13 = 0x11 \<and> 12 \<le> length ?body" by simp
  with read_proxy_header_v2 [OF h example_ppp_parses_v2, of "[9]", unfolded w] show ?thesis by blast
qed

text \<open>
  A version 2 header whose length field exceeds 496 panics: the dynamic buffer has capacity but
  only 16 bytes of length when it is sliced up to the full length.
\<close>

theorem read_proxy_header_v2_long_panics:
  assumes "length head = 16" "take 5 head \<noteq> v1_protocol_prefix lib" "take 12 head = v2_protocol_prefix lib"
    "v2_length head > 496"
  shows "read_proxy_header lib (head @ rest) = IoPanic"
  unfolding v2_head [OF assms(1-3)] v2_read [OF assms(1)] using assms(4) by simp

theorem read_proxy_header_v2_long_panics_witness:
  "read_proxy_header example_ppp ([13, 10, 13, 10, 0, 13, 10, 81, 85, 73, 84, 10, 33, 0, 2, 0] @ []) = IoPanic"
  by (rule read_proxy_header_v2_long_panics) (simp_all add: example_ppp_def v2_length_def u16_from_be_bytes_def)

section \<open>Version 1\<close>

text \<open>After the byte \<open>p\<close> the text ends with its first line terminator.\<close>

fun ends_at_crlf :: "u8 \<Rightarrow> bytes \<Rightarrow> bool" where
  "ends_at_crlf p [] = False"
| "ends_at_crlf p (b # bs) = (if p = 13 \<and> b = 10 then bs = [] else ends_at_crlf b bs)"

lemma v1_loop_found:
  "ends_at_crlf (last pre) body \<Longrightarrow> pre \<noteq> [] \<Longrightarrow> length pre + length body \<le> 107 \<Longrightarrow> length pre + length zs = 512 \<Longrightarrow>
   read_v1_loop (length pre) (body @ rest) (pre @ zs) = IoOk (rest, pre @ body @ drop (length body) zs)"
proof (induction body arbitrary: pre zs)
  case (Cons b body)
  obtain z zs' where zs: "zs = z # zs'" using Cons.prems by (cases zs) auto
  have upd: "(pre @ zs)[length pre := b] = pre @ b # zs'" by (simp add: zs)
  have prev: "(pre @ b # zs') ! (length pre - 1) = last pre" "(pre @ b # zs') ! length pre = b"
    using Cons.prems(2) by (simp_all add: nth_append last_conv_nth)
  have step: "read_v1_loop (length pre) ((b # body) @ rest) (pre @ zs) =
      (if last pre = 13 \<and> b = 10 then IoOk (body @ rest, pre @ b # zs') else read_v1_loop (length (pre @ [b])) (body @ rest) ((pre @ [b]) @ zs'))"
    unfolding read_v1_loop.simps [of "length pre" "(b # body) @ rest"]
    using Cons.prems(3) prev by (simp add: upd V1_TERMINATOR_def Let_def)
  show ?case
  proof (cases "last pre = 13 \<and> b = 10")
    case True
    then show ?thesis unfolding step using Cons.prems(1) zs by simp
  next
    case False
    have "read_v1_loop (length (pre @ [b])) (body @ rest) ((pre @ [b]) @ zs') = IoOk (rest, (pre @ [b]) @ body @ drop (length body) zs')"
      by (rule Cons.IH) (use Cons.prems False zs in auto)
    with False zs show ?thesis unfolding step by auto
  qed
qed simp

lemma v1_head:
  assumes "v1_protocol_prefix lib = pre" "length pre = 5"
  shows "read_proxy_header lib (pre @ rest) =
    (case read_v1_loop 5 rest (pre @ replicate 507 0) of
       IoOk (stream2, buffer2) \<Rightarrow> header_outcome (ppp_parse lib buffer2) stream2
     | IoErr e \<Rightarrow> IoErr e
     | IoPanic \<Rightarrow> IoPanic)"
proof -
  have "read_exact 5 (pre @ rest) = Some (pre, rest)" "write_at 0 pre (replicate 512 0) = pre @ replicate 507 0"
    using assms(2) by (simp_all add: read_exact_def write_at_def)
  then show ?thesis using assms by (simp add: read_proxy_header_def read_v1_header_def Let_def)
qed

text \<open>
  C35: A version 1 header, from the prefix to its first line terminator, of at most 107 bytes is
  consumed exactly: the bytes after the terminator stay in the stream, and the parser sees the
  header followed by zeros.
\<close>

theorem read_proxy_header_v1:
  assumes "v1_protocol_prefix lib = pre" "length pre = 5" "ends_at_crlf (last pre) body" "length body \<le> 102"
  shows "read_proxy_header lib (pre @ body @ rest) =
    header_outcome (ppp_parse lib (pre @ body @ replicate (507 - length body) 0)) rest"
proof -
  have "read_v1_loop (length pre) (body @ rest) (pre @ replicate 507 0) = IoOk (rest, pre @ body @ drop (length body) (replicate 507 0))"
    by (rule v1_loop_found) (use assms in auto)
  then show ?thesis unfolding v1_head [OF assms(1,2)] using assms(2) by simp
qed

theorem read_proxy_header_v1_witness:
  "read_proxy_header example_ppp ([80, 82, 79, 88, 89] @ [32, 85, 13, 10] @ [71]) = IoOk ([71], None, None)"
  by (subst read_proxy_header_v1) (simp_all add: example_ppp_def header_outcome_def)

end
