(* ===== verification/Cgi_Response.thy ===== *)
theory Cgi_Response
  imports Prelude
begin

text \<open>
  Splitting the output of a CGI program into head and body,
  \<open>ferron-modules-builtin/src/util/cgi/cgi_response.rs\<close>. The wrapped stream is the list of the events
  its reads will see: a chunk of bytes or an error; after the last one a read returns 0 bytes. A
  read delivers at most as many bytes as its buffer holds and leaves the rest of the chunk.
\<close>

section \<open>Definitions\<close>

abbreviation "RESPONSE_BUFFER_CAPACITY \<equiv> 16384 :: nat"

definition is_newline :: "u8 \<Rightarrow> bool" where
  "is_newline b \<longleftrightarrow> b = 13 \<or> b = 10"

text \<open>\<open>memchr2\<close>: the index of the first line break.\<close>

fun find_newline :: "bytes \<Rightarrow> nat option" where
  "find_newline [] = None"
| "find_newline (b # bs) = (if is_newline b then Some 0 else map_option Suc (find_newline bs))"

lemma find_newline_bound: "find_newline bs = Some i \<Longrightarrow> i < length bs \<and> is_newline (bs ! i)"
  by (induction bs arbitrary: i) (auto split: if_splits)

function separator_loop :: "bytes \<Rightarrow> nat \<Rightarrow> bytes \<Rightarrow> (nat \<times> nat) option" where
  "separator_loop data index last_chars =
     (case find_newline (drop index data) of
        None \<Rightarrow> None
      | Some found_index \<Rightarrow>
          (let last_chars1 = (if found_index > 0 then [] else last_chars);
               ch = data ! (index + found_index)
           in if last_chars1 \<noteq> [] \<and> last last_chars1 = ch then Some (index + found_index - 1, 2)
              else let last_chars2 = last_chars1 @ [ch]
                   in if length last_chars2 = 4 then Some (index + found_index - 3, 4)
                      else if index + (found_index + 1) \<ge> length data then None
                      else separator_loop data (index + (found_index + 1)) last_chars2))"
  by pat_completeness auto
termination
  by (relation "measure (\<lambda>(data, index, last_chars). length data - index)") auto

declare separator_loop.simps [simp del]

definition search_header_body_separator :: "bytes \<Rightarrow> (nat \<times> nat) option" where
  "search_header_body_separator data = (if length data < 2 then None else separator_loop data 0 [])"

datatype read_event = Chunk bytes | ReadErr string

fun stream_read :: "nat \<Rightarrow> read_event list \<Rightarrow> (string + bytes) \<times> read_event list" where
  "stream_read capacity [] = (Inr [], [])"
| "stream_read capacity (ReadErr e # es) = (Inl e, es)"
| "stream_read capacity (Chunk c # es) =
     (if length c \<le> capacity then (Inr c, es) else (Inr (take capacity c), Chunk (drop capacity c) # es))"

fun event_size :: "read_event \<Rightarrow> nat" where
  "event_size (Chunk c) = Suc (length c)"
| "event_size (ReadErr e) = 1"

record CgiResponse =
  cr_stream :: "read_event list"
  cr_response_buf :: bytes
  cr_response_head_length :: "nat option"

definition cgi_response_new :: "read_event list \<Rightarrow> CgiResponse" where
  "cgi_response_new stream = \<lparr>cr_stream = stream, cr_response_buf = [], cr_response_head_length = None\<rparr>"

lemma stream_read_size:
  "stream_read capacity es = (Inr bs, es') \<Longrightarrow> bs \<noteq> [] \<Longrightarrow> sum_list (map event_size es') < sum_list (map event_size es)"
  by (cases "(capacity, es)" rule: stream_read.cases) (auto split: if_splits)

function get_head :: "CgiResponse \<Rightarrow> (string + bytes) \<times> CgiResponse" where
  "get_head r =
     (case stream_read RESPONSE_BUFFER_CAPACITY (cr_stream r) of
        (Inl e, stream') \<Rightarrow> (Inl e, r\<lparr>cr_stream := stream'\<rparr>)
      | (Inr temp_buf, stream') \<Rightarrow>
          if temp_buf = [] then (Inr [], r\<lparr>cr_stream := stream', cr_response_head_length := Some 0\<rparr>)
          else if length (cr_response_buf r) + length temp_buf > RESPONSE_BUFFER_CAPACITY
          then (Inr [], r\<lparr>cr_stream := stream', cr_response_head_length := Some 0\<rparr>)
          else let begin_search = length (cr_response_buf r) - 3;
                   response_buf = cr_response_buf r @ temp_buf
               in case search_header_body_separator (drop begin_search response_buf) of
                    Some (separator_index, separator_len) \<Rightarrow>
                      (let to_parse_length = begin_search + separator_index + separator_len
                       in (Inr (take to_parse_length response_buf),
                           r\<lparr>cr_stream := stream', cr_response_buf := response_buf, cr_response_head_length := Some to_parse_length\<rparr>))
                  | None \<Rightarrow> get_head (r\<lparr>cr_stream := stream', cr_response_buf := response_buf\<rparr>))"
  by pat_completeness auto
termination
  by (relation "measure (\<lambda>r. sum_list (map event_size (cr_stream r)))") (auto dest: stream_read_size [OF sym])

declare get_head.simps [simp del]

definition poll_read :: "nat \<Rightarrow> CgiResponse \<Rightarrow> (string + bytes) \<times> CgiResponse" where
  "poll_read remaining r =
     (case cr_response_head_length r of
        Some h \<Rightarrow>
          if length (cr_response_buf r) > h then
            (let remaining_data = drop h (cr_response_buf r); to_read = min (length remaining_data) remaining
             in (Inr (take to_read remaining_data), r\<lparr>cr_response_head_length := Some (h + to_read)\<rparr>))
          else (let (res, stream') = stream_read remaining (cr_stream r) in (res, r\<lparr>cr_stream := stream'\<rparr>))
      | None \<Rightarrow> (let (res, stream') = stream_read remaining (cr_stream r) in (res, r\<lparr>cr_stream := stream'\<rparr>)))"

section \<open>The separator\<close>

text \<open>A separator ends at position \<open>n\<close>: two equal line breaks, or four alternating ones.\<close>

definition pair_end :: "bytes \<Rightarrow> nat \<Rightarrow> bool" where
  "pair_end s n \<longleftrightarrow> 2 \<le> n \<and> n \<le> length s \<and> is_newline (s ! (n - 1)) \<and> s ! (n - 2) = s ! (n - 1)"

definition four_end :: "bytes \<Rightarrow> nat \<Rightarrow> bool" where
  "four_end s n \<longleftrightarrow> 4 \<le> n \<and> n \<le> length s \<and> is_newline (s ! (n - 4)) \<and> is_newline (s ! (n - 3)) \<and>
     is_newline (s ! (n - 2)) \<and> is_newline (s ! (n - 1))"

definition separator_end :: "bytes \<Rightarrow> nat \<Rightarrow> bool" where
  "separator_end s n \<longleftrightarrow> pair_end s n \<or> four_end s n"

definition first_separator_end :: "bytes \<Rightarrow> nat option" where
  "first_separator_end s = find (separator_end s) [0..<Suc (length s)]"

definition separator_len :: "bytes \<Rightarrow> nat \<Rightarrow> nat" where
  "separator_len s n = (if pair_end s n then 2 else 4)"

text \<open>The run of line breaks right before position \<open>i\<close>.\<close>

definition newline_run :: "bytes \<Rightarrow> nat \<Rightarrow> bytes \<Rightarrow> bool" where
  "newline_run s i run \<longleftrightarrow> length run \<le> 3 \<and> length run \<le> i \<and> i \<le> length s \<and> run = drop (i - length run) (take i s) \<and>
     (\<forall>b \<in> set run. is_newline b) \<and> (length run < i \<longrightarrow> \<not> is_newline (s ! (i - length run - 1)))"

lemma separator_end_bounds: "separator_end s n \<Longrightarrow> 2 \<le> n \<and> n \<le> length s"
  by (auto simp: separator_end_def pair_end_def four_end_def)

lemma first_separator_end_Some_iff:
  "first_separator_end s = Some n \<longleftrightarrow> separator_end s n \<and> (\<forall>m < n. \<not> separator_end s m)"
proof -
  have "separator_end s n \<Longrightarrow> n \<le> length s" by (simp add: separator_end_bounds)
  then show ?thesis by (auto simp: first_separator_end_def find_Some_iff nth_append intro!: exI [of _ n])
qed

lemma first_separator_end_None_iff: "first_separator_end s = None \<longleftrightarrow> (\<forall>n. \<not> separator_end s n)"
proof -
  have "first_separator_end s = None \<longleftrightarrow> (\<forall>n \<le> length s. \<not> separator_end s n)"
    unfolding first_separator_end_def find_None_iff set_upt atLeastLessThan_iff less_Suc_eq_le by blast
  then show ?thesis using separator_end_bounds by blast
qed

lemma find_newline_first: "find_newline bs = Some i \<Longrightarrow> j < i \<Longrightarrow> \<not> is_newline (bs ! j)"
proof (induction bs arbitrary: i j)
  case (Cons b bs)
  then show ?case by (cases j; cases i) (auto split: if_splits)
qed simp

lemma find_newline_None_iff: "find_newline bs = None \<longleftrightarrow> (\<forall>b \<in> set bs. \<not> is_newline b)"
  by (induction bs) auto

lemma no_separator_at_text: "0 < n \<Longrightarrow> n \<le> length s \<Longrightarrow> \<not> is_newline (s ! (n - 1)) \<Longrightarrow> \<not> separator_end s n"
  by (auto simp: separator_end_def pair_end_def four_end_def)

text \<open>The run before the next line break, and what its extension says about separators.\<close>

lemma newline_run_advance:
  assumes "newline_run s i run" "find_newline (drop i s) = Some f"
  shows "newline_run s (i + f) (if f > 0 then [] else run)"
proof (cases f)
  case 0
  then show ?thesis using assms by simp
next
  case (Suc f')
  have b: "f < length (drop i s)" using find_newline_bound [OF assms(2)] by simp
  have "\<not> is_newline (drop i s ! f')" by (rule find_newline_first [OF assms(2)]) (simp add: Suc)
  then have "\<not> is_newline (s ! (i + f'))" using b Suc by simp
  with b Suc show ?thesis by (simp add: newline_run_def)
qed

lemma run_at:
  assumes "newline_run s p run" "k < length run"
  shows "run ! k = s ! (p - length run + k)"
proof -
  have e: "run = drop (p - length run) (take p s)" and l: "length run \<le> p" "p \<le> length s"
    using assms(1) by (simp_all add: newline_run_def)
  have "run ! k = drop (p - length run) (take p s) ! k" by (rule arg_cong [OF e, of "\<lambda>xs. xs ! k"])
  then show ?thesis using l assms(2) by simp
qed

lemma run_last:
  assumes "newline_run s p run" "run \<noteq> []"
  shows "last run = s ! (p - 1)"
proof -
  have "length run \<le> p" using assms(1) by (simp add: newline_run_def)
  moreover have "0 < length run" using assms(2) by simp
  ultimately have "p - length run + (length run - 1) = p - 1" "length run - 1 < length run" by arith+
  then show ?thesis using run_at [OF assms(1), of "length run - 1"] last_conv_nth [OF assms(2)] by metis
qed

lemma run_nth:
  assumes "newline_run s p run" "k < length run"
  shows "is_newline (s ! (p - Suc k))"
proof -
  have "run ! (length run - Suc k) = s ! (p - Suc k)"
    using run_at [OF assms(1), of "length run - Suc k"] assms by (simp add: newline_run_def)
  moreover have "run ! (length run - Suc k) \<in> set run" using assms(2) by simp
  ultimately show ?thesis using assms(1) by (auto simp: newline_run_def)
qed

lemma newline_run_extend:
  assumes "newline_run s p run" "p < length s" "is_newline (s ! p)" "length run < 3"
  shows "newline_run s (Suc p) (run @ [s ! p])"
proof -
  have "run @ [s ! p] = drop (Suc p - length (run @ [s ! p])) (take (Suc p) s)"
    using assms(1,2) by (simp add: newline_run_def take_Suc_conv_app_nth)
  moreover have "\<forall>b \<in> set (run @ [s ! p]). is_newline b" using assms(1,3) by (simp add: newline_run_def)
  moreover have "length (run @ [s ! p]) < Suc p \<longrightarrow> \<not> is_newline (s ! (Suc p - length (run @ [s ! p]) - 1))"
    using assms(1) by (simp add: newline_run_def)
  ultimately show ?thesis using assms(1,2,4) unfolding newline_run_def by (metis Suc_leI Suc_le_mono length_append_singleton less_Suc_eq_le)
qed

lemma separator_at_run:
  assumes "newline_run s p run" "p < length s" "is_newline (s ! p)"
  shows "pair_end s (Suc p) \<longleftrightarrow> run \<noteq> [] \<and> last run = s ! p" "four_end s (Suc p) \<longleftrightarrow> length run = 3"
proof -
  have prev: "is_newline (s ! (p - Suc k)) \<longleftrightarrow> k < length run" if "Suc k \<le> p" "k \<le> length run" for k
  proof (cases "k < length run")
    case True
    then show ?thesis using run_nth [OF assms(1) True] by simp
  next
    case False
    with that have "k = length run" "length run < p" by simp_all
    then show ?thesis using assms(1) by (simp add: newline_run_def)
  qed
  have le: "length run \<le> 3" "length run \<le> p" using assms(1) by (simp_all add: newline_run_def)
  show "pair_end s (Suc p) \<longleftrightarrow> run \<noteq> [] \<and> last run = s ! p"
  proof (cases "run = []")
    case True
    then show ?thesis using prev [of 0] assms(2,3) by (cases "p = 0") (auto simp: pair_end_def)
  next
    case False
    then have "1 \<le> p" using le by (cases run) auto
    then show ?thesis using run_last [OF assms(1) False] assms(2,3) False by (auto simp: pair_end_def)
  qed
  show "four_end s (Suc p) \<longleftrightarrow> length run = 3"
  proof
    assume f: "four_end s (Suc p)"
    then have "3 \<le> p" "is_newline (s ! (p - 1))" "is_newline (s ! (p - 2))" "is_newline (s ! (p - 3))"
      by (auto simp: four_end_def numeral_eq_Suc)
    with prev [of 0] have "0 < length run" by simp
    with prev [of 1] \<open>3 \<le> p\<close> \<open>is_newline (s ! (p - 2))\<close> have "1 < length run" by (simp add: numeral_eq_Suc)
    with prev [of 2] \<open>3 \<le> p\<close> \<open>is_newline (s ! (p - 3))\<close> have "2 < length run" by (simp add: numeral_eq_Suc)
    with le show "length run = 3" by simp
  next
    assume l: "length run = 3"
    with run_nth [OF assms(1), of 0] run_nth [OF assms(1), of 1] run_nth [OF assms(1), of 2] le assms(2,3)
    show "four_end s (Suc p)" by (simp add: four_end_def numeral_eq_Suc)
  qed
qed

lemma separator_loop_first:
  assumes "newline_run s i run" "\<forall>n \<le> i. \<not> separator_end s n"
  shows "separator_loop s i run = map_option (\<lambda>n. (n - separator_len s n, separator_len s n)) (first_separator_end s)"
  using assms
proof (induction s i run rule: separator_loop.induct)
  case (1 s i run)
  have i: "i \<le> length s" using "1.prems"(1) by (simp add: newline_run_def)
  show ?case
  proof (cases "find_newline (drop i s)")
    case None
    then have t: "\<not> is_newline (s ! k)" if "i \<le> k" "k < length s" for k
      using that find_newline_None_iff [of "drop i s"] nth_mem [of "k - i" "drop i s"] by simp
    have "\<not> separator_end s n" for n
    proof (cases "n \<le> i \<or> n > length s")
      case True
      then show ?thesis using "1.prems"(2) by (auto simp: separator_end_def pair_end_def four_end_def)
    next
      case False
      then have "i \<le> n - 1" "n - 1 < length s" by arith+
      then have "\<not> is_newline (s ! (n - 1))" by (rule t)
      with False show ?thesis by (intro no_separator_at_text) simp_all
    qed
    then have "first_separator_end s = None" by (simp add: first_separator_end_None_iff)
    with None show ?thesis by (simp add: separator_loop.simps [of s i])
  next
    case (Some f)
    let ?p = "i + f" and ?run = "if f > 0 then [] else run"
    have p: "?p < length s" "is_newline (s ! ?p)" using find_newline_bound [OF Some] i by auto
    have r: "newline_run s ?p ?run" by (rule newline_run_advance [OF "1.prems"(1) Some])
    have before: "\<not> separator_end s n" if "n \<le> ?p" for n
    proof (cases "n \<le> i")
      case True
      then show ?thesis using "1.prems"(2) by simp
    next
      case False
      have "\<not> is_newline (drop i s ! (n - 1 - i))" by (rule find_newline_first [OF Some]) (use that False in simp)
      with False that p show ?thesis by (intro no_separator_at_text) auto
    qed
    note sep = separator_at_run [OF r p]
    have found: "first_separator_end s = Some (Suc ?p)" if "separator_end s (Suc ?p)"
      using that before by (simp add: first_separator_end_Some_iff less_Suc_eq_le)
    show ?thesis
    proof (cases "?run \<noteq> [] \<and> last ?run = s ! ?p")
      case True
      then have "separator_loop s i run = Some (?p - 1, 2)" by (simp add: separator_loop.simps [of s i] Some Let_def)
      moreover have "separator_end s (Suc ?p)" "separator_len s (Suc ?p) = 2"
        using sep(1) True by (simp_all add: separator_end_def separator_len_def)
      ultimately show ?thesis using found p by simp
    next
      case no_pair: False
      show ?thesis
      proof (cases "length ?run = 3")
        case True
        then have "separator_loop s i run = Some (?p - 3, 4)"
          using no_pair by (simp add: separator_loop.simps [of s i] Some Let_def)
        moreover have "separator_end s (Suc ?p)" "separator_len s (Suc ?p) = 4"
          using sep True no_pair by (simp_all add: separator_end_def separator_len_def)
        ultimately show ?thesis using found by simp
      next
        case False
        have n: "\<not> separator_end s (Suc ?p)" using sep no_pair False by (simp add: separator_end_def)
        have l3: "length ?run < 3" using r False by (auto simp: newline_run_def)
        have r2: "newline_run s (Suc ?p) (?run @ [s ! ?p])" by (rule newline_run_extend [OF r p l3])
        have all: "\<forall>n \<le> Suc ?p. \<not> separator_end s n" using before n by (metis le_SucE)
        show ?thesis
        proof (cases "Suc ?p \<ge> length s")
          case True
          then have "\<forall>n. \<not> separator_end s n"
            using all by (metis le_trans nat_le_linear separator_end_def pair_end_def four_end_def)
          then have "first_separator_end s = None" by (simp add: first_separator_end_None_iff)
          moreover have "separator_loop s i run = None"
            using no_pair False True l3 by (simp add: separator_loop.simps [of s i] Some Let_def)
          ultimately show ?thesis by simp
        next
          case more: False
          have "separator_loop s i run = separator_loop s (i + (f + 1)) (?run @ [s ! ?p])"
            using no_pair False more by (subst separator_loop.simps) (auto simp: Some Let_def)
          also have "\<dots> = map_option (\<lambda>n. (n - separator_len s n, separator_len s n)) (first_separator_end s)"
            by (rule "1.IH" [OF Some refl refl _ refl]) (use no_pair False more r2 all in auto)
          finally show ?thesis .
        qed
      qed
    qed
  qed
qed

lemma search_first:
  "search_header_body_separator s = map_option (\<lambda>n. (n - separator_len s n, separator_len s n)) (first_separator_end s)"
proof (cases "length s < 2")
  case True
  then have "\<forall>n. \<not> separator_end s n" by (auto simp: separator_end_def pair_end_def four_end_def)
  then have "first_separator_end s = None" by (simp add: first_separator_end_None_iff)
  with True show ?thesis by (simp add: search_header_body_separator_def)
next
  case False
  have "newline_run s 0 []" "\<forall>n \<le> 0. \<not> separator_end s n"
    by (auto simp: newline_run_def separator_end_def pair_end_def four_end_def)
  with False show ?thesis by (simp add: search_header_body_separator_def separator_loop_first)
qed

text \<open>
  Searching only from three bytes before the new data finds the separator of the whole buffer, when
  the old data held none.
\<close>

lemma separator_end_drop:
  assumes "b \<le> length s" "separator_end (drop b s) m"
  shows "separator_end s (b + m)" "separator_len s (b + m) = separator_len (drop b s) m"
proof -
  have m: "2 \<le> m" "b + m \<le> length s" using separator_end_bounds [OF assms(2)] assms(1) by auto
  then have e: "b + m - 1 = b + (m - 1)" "b + m - 2 = b + (m - 2)" by simp_all
  have f: "b + m - 3 = b + (m - 3)" "b + m - 4 = b + (m - 4)" if "4 \<le> m" using that by simp_all
  have l: "m \<le> length s - b" using m by simp
  have p: "pair_end s (b + m) \<longleftrightarrow> pair_end (drop b s) m" using m l assms(1) e by (simp add: pair_end_def)
  then show "separator_len s (b + m) = separator_len (drop b s) m" by (simp add: separator_len_def)
  have "four_end (drop b s) m \<Longrightarrow> four_end s (b + m)" 
  proof -
    assume fe: "four_end (drop b s) m"
    then have "4 \<le> m" by (simp add: four_end_def)
    with fe show "four_end s (b + m)" using m assms(1) f e unfolding four_end_def by (metis nth_drop trans_le_add2)
  qed
  with p assms(2) show "separator_end s (b + m)" by (auto simp: separator_end_def)
qed

lemma separator_end_in_drop:
  assumes "separator_end s n" "b + 4 \<le> n \<or> b = 0"
  shows "separator_end (drop b s) (n - b)"
proof (cases "b = 0")
  case False
  then have b: "b + 4 \<le> n" "n \<le> length s" using assms separator_end_bounds by auto
  then have "b + (n - b - 1) = n - 1" "b + (n - b - 2) = n - 2" "b + (n - b - 3) = n - 3" "b + (n - b - 4) = n - 4"
    by simp_all
  with b assms(1) show ?thesis by (auto simp: separator_end_def pair_end_def four_end_def)
qed (use assms in simp)

lemma separator_end_append: "n \<le> length s \<Longrightarrow> separator_end (s @ t) n \<longleftrightarrow> separator_end s n"
  by (cases "n < 2") (auto simp: separator_end_def pair_end_def four_end_def nth_append)

lemma separator_len_append: "n \<le> length s \<Longrightarrow> separator_len (s @ t) n = separator_len s n"
  by (cases "n < 2") (auto simp: separator_len_def pair_end_def nth_append)

lemma first_separator_append:
  assumes "first_separator_end s = Some n"
  shows "first_separator_end (s @ t) = Some n"
proof -
  have "n \<le> length s" using assms separator_end_bounds [of s n] by (simp add: first_separator_end_Some_iff)
  with assms show ?thesis using separator_end_append [of _ s t] by (simp add: first_separator_end_Some_iff)
qed

lemma search_in_tail:
  assumes "first_separator_end old = None"
  defines "b \<equiv> length old - 3"
  shows "map_option (\<lambda>(i, l). b + i + l) (search_header_body_separator (drop b (old @ new))) =
    first_separator_end (old @ new)"
proof -
  let ?s = "old @ new"
  have b: "b \<le> length ?s" by (simp add: b_def)
  have none: "\<not> separator_end ?s n" if "n \<le> length old" for n
    using assms(1) that separator_end_append [OF that, of new] by (simp add: first_separator_end_None_iff)
  have far: "b + 4 \<le> n \<or> b = 0" if "separator_end ?s n" for n
    using none [of n] that by (cases "n \<le> length old") (auto simp: b_def)
  show ?thesis
  proof (cases "first_separator_end ?s")
    case None
    then have "\<not> separator_end (drop b ?s) m" for m
      using separator_end_drop(1) [OF b] by (auto simp: first_separator_end_None_iff)
    then have "first_separator_end (drop b ?s) = None" by (simp add: first_separator_end_None_iff)
    with None show ?thesis by (simp add: search_first)
  next
    case (Some n)
    then have n: "separator_end ?s n" and less: "m < n \<Longrightarrow> \<not> separator_end ?s m" for m
      by (auto simp: first_separator_end_Some_iff)
    have bn: "b \<le> n" using far [OF n] by auto
    have "\<not> separator_end (drop b ?s) m" if "m < n - b" for m
      using separator_end_drop(1) [OF b, of m] less [of "b + m"] that by auto
    moreover have d: "separator_end (drop b ?s) (n - b)" by (rule separator_end_in_drop [OF n far [OF n]])
    ultimately have "first_separator_end (drop b ?s) = Some (n - b)" by (simp add: first_separator_end_Some_iff)
    moreover have "separator_len (drop b ?s) (n - b) \<le> n - b"
      using d by (auto simp: separator_len_def separator_end_def pair_end_def four_end_def)
    ultimately show ?thesis using Some bn by (simp add: search_first)
  qed
qed

section \<open>Reading the head\<close>

fun stream_bytes :: "read_event list \<Rightarrow> bytes" where
  "stream_bytes [] = []"
| "stream_bytes (Chunk c # es) = c @ stream_bytes es"
| "stream_bytes (ReadErr e # es) = stream_bytes es"

fun data_chunk :: "read_event \<Rightarrow> bool" where
  "data_chunk (Chunk c) \<longleftrightarrow> c \<noteq> []"
| "data_chunk (ReadErr e) \<longleftrightarrow> False"

definition unread :: "CgiResponse \<Rightarrow> bytes" where
  "unread r = drop (case cr_response_head_length r of Some h \<Rightarrow> h | None \<Rightarrow> length (cr_response_buf r)) (cr_response_buf r)
     @ stream_bytes (cr_stream r)"

definition head_length :: "bytes \<Rightarrow> nat" where
  "head_length out = (case first_separator_end out of Some n \<Rightarrow> n | None \<Rightarrow> 0)"

lemma stream_read_data:
  assumes "list_all data_chunk es" "es \<noteq> []" "0 < capacity"
  obtains bs es' where "stream_read capacity es = (Inr bs, es')" "bs \<noteq> []" "length bs \<le> capacity"
    "stream_bytes es = bs @ stream_bytes es'" "list_all data_chunk es'"
proof -
  obtain c es0 where "es = Chunk c # es0" "c \<noteq> []" using assms by (cases es rule: stream_bytes.cases) auto
  with assms that show ?thesis by (cases "length c \<le> capacity") auto
qed

lemma get_head_pre:
  assumes "list_all data_chunk (cr_stream r)" "first_separator_end (cr_response_buf r) = None"
    "out = cr_response_buf r @ stream_bytes (cr_stream r)" "length out \<le> RESPONSE_BUFFER_CAPACITY"
  shows "\<exists>r'. get_head r = (Inr (take (head_length out) out), r') \<and> unread r' = drop (head_length out) out \<and>
    cr_response_head_length r' = Some (head_length out) \<and> head_length out \<le> length (cr_response_buf r') \<and>
    list_all data_chunk (cr_stream r')"
  using assms
proof (induction r rule: get_head.induct)
  case (1 r)
  show ?case
  proof (cases "cr_stream r = []")
    case True
    with "1.prems" show ?thesis by (simp add: get_head.simps [of r] head_length_def unread_def)
  next
    case False
    from "1.prems"(1) False obtain bs es' where rd: "stream_read RESPONSE_BUFFER_CAPACITY (cr_stream r) = (Inr bs, es')"
      "bs \<noteq> []" "length bs \<le> RESPONSE_BUFFER_CAPACITY" "stream_bytes (cr_stream r) = bs @ stream_bytes es'"
      "list_all data_chunk es'" 
      by (rule stream_read_data [where capacity = RESPONSE_BUFFER_CAPACITY]) simp_all
    have fits: "\<not> length (cr_response_buf r) + length bs > RESPONSE_BUFFER_CAPACITY" using "1.prems"(3,4) rd(4) by simp
    let ?b = "length (cr_response_buf r) - 3" and ?buf = "cr_response_buf r @ bs"
    note tail = search_in_tail [OF "1.prems"(2), of bs]
    show ?thesis
    proof (cases "search_header_body_separator (drop ?b ?buf)")
      case None
      then have n: "first_separator_end ?buf = None" using tail by simp
      have "get_head r = get_head (r\<lparr>cr_stream := es', cr_response_buf := ?buf\<rparr>)"
        using rd(1,2) fits None by (simp add: get_head.simps [of r] Let_def)
      moreover have "\<exists>r'. get_head (r\<lparr>cr_stream := es', cr_response_buf := ?buf\<rparr>) = (Inr (take (head_length out) out), r') \<and>
          unread r' = drop (head_length out) out \<and> cr_response_head_length r' = Some (head_length out) \<and>
          head_length out \<le> length (cr_response_buf r') \<and> list_all data_chunk (cr_stream r')"
        by (rule "1.IH" [OF rd(1) [symmetric] refl rd(2) fits refl refl None])
          (use rd n "1.prems" in simp_all)
      ultimately show ?thesis by simp
    next
      case (Some p)
      then obtain i l where p: "p = (i, l)" by (cases p) simp
      have f: "first_separator_end ?buf = Some (?b + i + l)" using tail Some p by simp
      then have "first_separator_end (?buf @ stream_bytes es') = Some (?b + i + l)"
        by (rule first_separator_append)
      then have h: "head_length out = ?b + i + l" using "1.prems"(3) rd(4) by (simp add: head_length_def)
      have len: "?b + i + l \<le> length ?buf"
        using f separator_end_bounds [of ?buf] unfolding first_separator_end_Some_iff by blast
      have "get_head r = (Inr (take (?b + i + l) ?buf),
          r\<lparr>cr_stream := es', cr_response_buf := ?buf, cr_response_head_length := Some (?b + i + l)\<rparr>)"
        using rd(1,2) fits Some p by (simp add: get_head.simps [of r] Let_def)
      moreover have "out = ?buf @ stream_bytes es'" using "1.prems"(3) rd(4) by simp
      ultimately show ?thesis using h len rd(5) by (simp add: unread_def)
    qed
  qed
qed

text \<open>
  C33: However the output of a CGI program is cut into reads, as long as the whole output, head and body, fits the
  response buffer of 16384 bytes and no read fails, \<open>get_head\<close> returns exactly the bytes through the first separator (two equal line breaks or
  four alternating ones) of the whole output, or nothing when there is none, and the bytes after
  it are what \<open>poll_read\<close> will deliver.
\<close>

theorem get_head_splits_output:
  assumes "list_all data_chunk es" "length (stream_bytes es) \<le> RESPONSE_BUFFER_CAPACITY"
  shows "\<exists>r'. get_head (cgi_response_new es) = (Inr (take (head_length (stream_bytes es)) (stream_bytes es)), r') \<and>
    unread r' = drop (head_length (stream_bytes es)) (stream_bytes es)"
proof -
  have n: "first_separator_end [] = None"
    by (simp add: first_separator_end_None_iff separator_end_def pair_end_def four_end_def)
  show ?thesis using get_head_pre [of "cgi_response_new es" "stream_bytes es"] assms n
    by (auto simp: cgi_response_new_def)
qed

theorem get_head_splits_output_witness:
  "\<exists>r'. get_head (cgi_response_new [Chunk [65, 13, 10, 13], Chunk [10, 66], Chunk [67]]) = (Inr [65, 13, 10, 13, 10], r') \<and>
    unread r' = [66, 67]"
proof -
  have "head_length [65, 13, 10, 13, 10, 66, 67] = 5"
    by code_simp
  with get_head_splits_output [of "[Chunk [65, 13, 10, 13], Chunk [10, 66], Chunk [67]]"] show ?thesis by simp
qed

text \<open>
  Reading through \<open>poll_read\<close> once the head is known neither loses nor repeats a byte:
  what it delivers, followed by what is left, is what was unread before.
\<close>

theorem poll_read_conserves:
  assumes "cr_response_head_length r = Some h" "h \<le> length (cr_response_buf r)"
    "poll_read remaining r = (Inr bs, r')"
  shows "bs @ unread r' = unread r \<and> length bs \<le> remaining"
proof (cases "h < length (cr_response_buf r)")
  case True
  with assms have "bs = take remaining (drop h (cr_response_buf r))"
    "r' = r\<lparr>cr_response_head_length := Some (h + min (length (cr_response_buf r) - h) remaining)\<rparr>"
    by (auto simp: poll_read_def Let_def min_def)
  with True assms(1) show ?thesis
    by (simp add: unread_def min_def) (metis add.commute append_take_drop_id drop_drop)
next
  case False
  obtain res es' where rd: "stream_read remaining (cr_stream r) = (res, es')" by force
  with assms False have "res = Inr bs" "r' = r\<lparr>cr_stream := es'\<rparr>" by (auto simp: poll_read_def)
  with rd False assms(1) show ?thesis
    by (cases "(remaining, cr_stream r)" rule: stream_read.cases) (auto simp: unread_def split: if_splits)
qed

theorem poll_read_conserves_witness:
  "\<exists>r'. poll_read 1 \<lparr>cr_stream = [Chunk [67]], cr_response_buf = [65, 66], cr_response_head_length = Some 1\<rparr> = (Inr [66], r') \<and>
    [66] @ unread r' = [66, 67]"
proof -
  let ?r = "\<lparr>cr_stream = [Chunk [67]], cr_response_buf = [65, 66], cr_response_head_length = Some 1\<rparr>"
  have "poll_read 1 ?r = (Inr [66], ?r\<lparr>cr_response_head_length := Some 2\<rparr>)" by (simp add: poll_read_def Let_def)
  moreover from poll_read_conserves [OF _ _ this, of 1]
  have "[66] @ unread (?r\<lparr>cr_response_head_length := Some 2\<rparr>) = unread ?r" by simp
  ultimately show ?thesis by (simp add: unread_def)
qed

text \<open>
  When a read would overfill the response buffer, \<open>get_head\<close> returns an empty head and the
  bytes of that read are gone: they are neither in the head nor in what \<open>poll_read\<close> delivers.
\<close>

theorem get_head_overflow_drops_read:
  assumes "first_separator_end a = None" "a \<noteq> []" "b \<noteq> []" "length a \<le> RESPONSE_BUFFER_CAPACITY" "length b \<le> RESPONSE_BUFFER_CAPACITY"
    "length a + length b > RESPONSE_BUFFER_CAPACITY"
  shows "\<exists>r'. get_head (cgi_response_new (Chunk a # Chunk b # es)) = (Inr [], r') \<and> unread r' = a @ stream_bytes es"
proof -
  let ?r = "\<lparr>cr_stream = Chunk b # es, cr_response_buf = a, cr_response_head_length = None\<rparr>"
  have "search_header_body_separator a = None" using assms(1) by (simp add: search_first)
  then have "get_head (cgi_response_new (Chunk a # Chunk b # es)) = get_head ?r"
    unfolding get_head.simps [of "cgi_response_new _"] using assms(2,4) by (simp add: cgi_response_new_def)
  also have "\<dots> = (Inr [], ?r\<lparr>cr_stream := es, cr_response_head_length := Some 0\<rparr>)"
    using assms(3,5,6) by (simp add: get_head.simps [of ?r])
  finally show ?thesis by (simp add: unread_def)
qed

theorem get_head_overflow_drops_read_witness:
  "\<exists>r'. get_head (cgi_response_new [Chunk (replicate 16384 65), Chunk [10, 10], Chunk [66]]) = (Inr [], r') \<and>
    unread r' = replicate 16384 65 @ [66]"
proof -
  have "\<not> separator_end (replicate 16384 65) n" for n
  proof
    assume s: "separator_end (replicate 16384 65) n"
    then have "n - 1 < 16384" using separator_end_bounds [OF s] by auto
    with s show False by (auto simp: separator_end_def pair_end_def four_end_def is_newline_def)
  qed
  then have "first_separator_end (replicate 16384 65) = None" by (simp add: first_separator_end_None_iff)
  from get_head_overflow_drops_read [OF this, of "[10, 10]" "[Chunk [66]]"] show ?thesis by simp
qed

end
