(* ===== verification/Body_Replacer.thy ===== *)
theory Body_Replacer
  imports Http
begin

text \<open>
  Replacing text in a response body while it streams,
  \<open>ferron-modules-builtin/src/util/body_replacer.rs\<close>. The wrapped body is the list of the outcomes
  its \<open>poll_frame\<close> yields, one per call; once the list is used up it keeps yielding the end of the
  body. \<open>replace_loop\<close> is the inner \<open>while\<close> of \<open>poll_frame\<close>, \<open>find_sub\<close> is \<open>memmem\<close>. The specification
  is \<open>replace_all\<close> of the prelude on the whole body.
\<close>

section \<open>Definitions\<close>

datatype frame = Data bytes | Trailers header_map

type_synonym frame_poll = "(string + frame) option poll"

record BodyReplacer =
  br_searched :: bytes
  br_replacement :: bytes
  br_once :: bool

record ReplaceBody =
  rb_searched :: bytes
  rb_replacement :: bytes
  rb_once :: bool
  rb_replaced :: bool
  rb_buffer :: "bytes option"
  rb_inner :: "frame_poll list"

definition body_replacer_new :: "bytes \<Rightarrow> bytes \<Rightarrow> bool \<Rightarrow> BodyReplacer" where
  "body_replacer_new searched replacement once =
     \<lparr>br_searched = searched, br_replacement = replacement, br_once = once\<rparr>"

definition wrap_body :: "BodyReplacer \<Rightarrow> frame_poll list \<Rightarrow> ReplaceBody" where
  "wrap_body r body = \<lparr>rb_searched = br_searched r, rb_replacement = br_replacement r, rb_once = br_once r,
     rb_replaced = False, rb_buffer = None, rb_inner = body\<rparr>"

text \<open>
  The loop over the matches: the bytes to emit so far, the index after the last match and whether
  there was a match. It is entered with a non-empty search string only.
\<close>

function replace_loop :: "bytes \<Rightarrow> bytes \<Rightarrow> bool \<Rightarrow> bytes \<Rightarrow> nat \<Rightarrow> bytes \<Rightarrow> bool \<Rightarrow> bytes \<times> nat \<times> bool" where
  "replace_loop searched replacement once combined last_beg_index out replaced =
     (if searched = [] then (out, last_beg_index, replaced)
      else case find_sub searched (drop last_beg_index combined) of
        None \<Rightarrow> (out, last_beg_index, replaced)
      | Some index \<Rightarrow>
          let out' = out @ take index (drop last_beg_index combined) @ replacement;
              end_index = last_beg_index + (index + length searched)
          in if once then (out', end_index, True)
             else replace_loop searched replacement once combined end_index out' True)"
  by pat_completeness auto
termination
proof (relation "measure (\<lambda>(s, r, o1, c, i, out, d). length c - i)", goal_cases)
  case (2 searched replacement once combined last_beg_index out replaced index out' end_index)
  then show ?case using find_sub_bound [of searched "drop last_beg_index combined" index] by (cases searched) auto
qed simp

declare replace_loop.simps [simp del]

text \<open>The inner body: its next outcome and what is left of it.\<close>

fun poll_inner :: "frame_poll list \<Rightarrow> frame_poll \<times> frame_poll list" where
  "poll_inner [] = (Ready None, [])"
| "poll_inner (p # ps) = (p, ps)"

definition replace_data :: "ReplaceBody \<Rightarrow> bytes \<Rightarrow> bytes \<times> ReplaceBody" where
  "replace_data b data_bytes =
     (if rb_replaced b \<and> rb_once b \<or> rb_searched b = [] then (data_bytes, b)
      else let combined = (case rb_buffer b of Some buffer \<Rightarrow> buffer @ data_bytes | None \<Rightarrow> data_bytes);
               (out, last_beg_index, replaced) =
                 replace_loop (rb_searched b) (rb_replacement b) (rb_once b) combined 0 [] (rb_replaced b);
               n = length (rb_searched b)
           in if length combined - last_beg_index < n
              then (out, b\<lparr>rb_replaced := replaced, rb_buffer := Some (drop last_beg_index combined)\<rparr>)
              else (out @ drop last_beg_index (take (length combined - n) combined),
                    b\<lparr>rb_replaced := replaced, rb_buffer := Some (drop (length combined - n) combined)\<rparr>))"

definition poll_frame :: "ReplaceBody \<Rightarrow> frame_poll \<times> ReplaceBody" where
  "poll_frame b0 =
     (let (polled, inner') = poll_inner (rb_inner b0); b = b0\<lparr>rb_inner := inner'\<rparr>
      in case polled of
           Pending \<Rightarrow> (Pending, b)
         | Ready (Some (Inl err)) \<Rightarrow> (Ready (Some (Inl err)), b)
         | Ready None \<Rightarrow>
             (case rb_buffer b of
                Some buffer \<Rightarrow> (Ready (Some (Inr (Data buffer))), b\<lparr>rb_buffer := None\<rparr>)
              | None \<Rightarrow> (Ready None, b))
         | Ready (Some (Inr (Data data))) \<Rightarrow>
             (let (out, b') = replace_data b data in (Ready (Some (Inr (Data out))), b'))
         | Ready (Some (Inr (Trailers trailers))) \<Rightarrow> (Ready (Some (Inr (Trailers trailers))), b))"

section \<open>Replacing in a stream\<close>

text \<open>The frames of the first \<open>n\<close> polls, and the bytes of their data.\<close>

fun poll_frames :: "nat \<Rightarrow> ReplaceBody \<Rightarrow> frame list" where
  "poll_frames 0 b = []"
| "poll_frames (Suc n) b =
     (case poll_frame b of
        (Ready (Some (Inr f)), b') \<Rightarrow> f # poll_frames n b'
      | (_, b') \<Rightarrow> poll_frames n b')"

fun frame_data :: "frame \<Rightarrow> bytes" where
  "frame_data (Data d) = d"
| "frame_data (Trailers t) = []"

fun data_frames :: "frame_poll list \<Rightarrow> bytes" where
  "data_frames [] = []"
| "data_frames (Ready (Some (Inr (Data d))) # ps) = d @ data_frames ps"
| "data_frames (_ # ps) = data_frames ps"

text \<open>A body of data frames and pending polls.\<close>

fun data_poll :: "frame_poll \<Rightarrow> bool" where
  "data_poll (Ready (Some (Inr (Data d)))) \<longleftrightarrow> True"
| "data_poll Pending \<longleftrightarrow> True"
| "data_poll _ \<longleftrightarrow> False"

lemma replace_all_skip:
  assumes "\<And>i. i < length e \<Longrightarrow> \<not> starts_with p (drop i (e @ s))"
  shows "replace_all p r (e @ s) = e @ replace_all p r s"
  using assms
proof (induction e)
  case (Cons x e)
  have "\<not> starts_with p (x # e @ s)" using Cons.prems [of 0] by simp
  moreover have "replace_all p r (e @ s) = e @ replace_all p r s"
  proof (rule Cons.IH)
    show "\<not> starts_with p (drop i (e @ s))" if "i < length e" for i using Cons.prems [of "Suc i"] that by simp
  qed
  ultimately show ?case by simp
qed simp

lemma replace_all_match: "p \<noteq> [] \<Longrightarrow> replace_all p r (p @ s) = r @ replace_all p r s"
  by (cases p) (auto simp: starts_with_def)

lemma starts_with_drop_append:
  "i + length p \<le> length s \<Longrightarrow> starts_with p (drop i (s @ t)) \<longleftrightarrow> starts_with p (drop i s)"
  by (simp add: starts_with_def)

lemma no_match_inside:
  assumes "find_sub p s = None" "i + length p \<le> length s"
  shows "\<not> starts_with p (drop i (s @ t))"
proof
  assume "starts_with p (drop i (s @ t))"
  then have "starts_with p (drop i s)" using assms(2) by (simp only: starts_with_drop_append)
  then obtain u where "drop i s = p @ u" unfolding starts_with_iff by blast
  then have "s = take i s @ p @ u" by (metis append_take_drop_id)
  with assms(1) show False unfolding find_sub_None_iff by blast
qed

lemma find_sub_drop: "find_sub p s = None \<Longrightarrow> find_sub p (drop k s) = None"
  unfolding find_sub_None_iff by (metis append.assoc append_take_drop_id)

lemma replace_all_none: "p \<noteq> [] \<Longrightarrow> find_sub p s = None \<Longrightarrow> replace_all p r s = s"
proof -
  assume a: "p \<noteq> []" "find_sub p s = None"
  have "\<not> starts_with p (drop i (s @ []))" if "i < length s" for i
  proof
    assume sw: "starts_with p (drop i (s @ []))"
    then have "length p \<le> length (drop i s)" by (auto simp: starts_with_iff dest: arg_cong [of _ _ length])
    with that have "i + length p \<le> length s" by simp
    with no_match_inside [OF a(2), of i "[]"] sw show False by simp
  qed
  from replace_all_skip [of s p "[]" r, OF this] show "replace_all p r s = s" by simp
qed

text \<open>The first match of a prefix is where the whole text is cut.\<close>

lemma replace_all_first:
  assumes "p \<noteq> []" "find_sub p s = Some i"
  shows "replace_all p r (s @ t) = take i s @ r @ replace_all p r (drop (i + length p) s @ t)"
proof -
  obtain u where u: "s = take i s @ p @ u" using find_sub_Some [OF assms(2)] by blast
  have b: "i + length p \<le> length s" using find_sub_bound [OF assms(2)] .
  have "\<not> starts_with p (drop j (s @ t))" if "j < i" for j
    using find_sub_first [OF assms(2) that] starts_with_drop_append [of j p s t] that b by simp
  then have "\<not> starts_with p (drop j (take i s @ p @ u @ t))" if "j < length (take i s)" for j
    using that u by (metis append.assoc length_take min_less_iff_conj)
  from replace_all_skip [OF this] have "replace_all p r (take i s @ p @ u @ t) = take i s @ replace_all p r (p @ u @ t)" .
  also have "\<dots> = take i s @ r @ replace_all p r (u @ t)" by (simp add: replace_all_match [OF assms(1)])
  finally have e: "replace_all p r (take i s @ p @ u @ t) = take i s @ r @ replace_all p r (u @ t)" .
  have "drop (i + length p) s = u" using b by (subst u) simp
  moreover have "s @ t = take i s @ p @ u @ t" using u by (metis append.assoc)
  ultimately show ?thesis using e by (simp only:)
qed

lemma replace_loop_all:
  assumes "searched \<noteq> []" "replace_loop searched replacement False combined i out d = (out', j, d')" "i \<le> length combined"
  shows "\<exists>e. out' = out @ e \<and> j \<le> length combined \<and> find_sub searched (drop j combined) = None \<and>
    (\<forall>t. replace_all searched replacement (drop i combined @ t) = e @ replace_all searched replacement (drop j combined @ t))"
  using assms
proof (induction searched replacement "False" combined i out d arbitrary: out' j d' rule: replace_loop.induct)
  case (1 searched replacement combined i out d)
  show ?case
  proof (cases "find_sub searched (drop i combined)")
    case None
    with "1.prems" show ?thesis by (simp add: replace_loop.simps [of searched])
  next
    case (Some k)
    have b: "i + (k + length searched) \<le> length combined" using find_sub_bound [OF Some] "1.prems" by simp
    let ?out = "out @ take k (drop i combined) @ replacement" and ?i = "i + (k + length searched)"
    have "replace_loop searched replacement False combined ?i ?out True = (out', j, d')"
      using "1.prems" Some by (simp add: replace_loop.simps [of searched _ _ _ i])
    from "1.hyps" [OF "1.prems"(1) Some refl refl _ "1.prems"(1) this b]
    obtain e where e: "out' = ?out @ e" "j \<le> length combined" "find_sub searched (drop j combined) = None"
      "\<forall>t. replace_all searched replacement (drop ?i combined @ t) = e @ replace_all searched replacement (drop j combined @ t)"
      by auto
    have "replace_all searched replacement (drop i combined @ t) =
        (take k (drop i combined) @ replacement @ e) @ replace_all searched replacement (drop j combined @ t)" for t
      using replace_all_first [OF "1.prems"(1) Some, of replacement t] e(4) by (simp add: add.commute add.left_commute)
    with e show ?thesis by auto
  qed
qed

text \<open>What is kept between polls: at most a search string's length of bytes without a match.\<close>

definition pending_bytes :: "ReplaceBody \<Rightarrow> bytes" where
  "pending_bytes b = (case rb_buffer b of Some buffer \<Rightarrow> buffer | None \<Rightarrow> [])"

definition stream_ok :: "bytes \<Rightarrow> bytes \<Rightarrow> ReplaceBody \<Rightarrow> bool" where
  "stream_ok p r b \<longleftrightarrow> rb_searched b = p \<and> rb_replacement b = r \<and> \<not> rb_once b \<and> p \<noteq> [] \<and>
     find_sub p (pending_bytes b) = None \<and> length (pending_bytes b) \<le> length p"

lemma replace_data_step:
  assumes "stream_ok p r b" "replace_data b d = (out, b')"
  shows "stream_ok p r b' \<and> rb_inner b' = rb_inner b \<and>
    (\<forall>t. replace_all p r (pending_bytes b @ d @ t) = out @ replace_all p r (pending_bytes b' @ t))"
proof -
  define c where "c = pending_bytes b @ d"
  let ?n = "length p"
  have p: "p \<noteq> []" "rb_searched b = p" "rb_replacement b = r" "rb_once b = False"
    using assms(1) by (auto simp: stream_ok_def)
  have c: "(case rb_buffer b of Some buffer \<Rightarrow> buffer @ d | None \<Rightarrow> d) = c"
    by (simp add: c_def pending_bytes_def split: option.split)
  obtain e j rep where l: "replace_loop p r False c 0 [] (rb_replaced b) = (e, j, rep)" by (metis prod_cases3)
  from replace_loop_all [OF p(1) l] have j: "j \<le> length c" "find_sub p (drop j c) = None"
    "\<And>t. replace_all p r (c @ t) = e @ replace_all p r (drop j c @ t)" by auto
  have "stream_ok p r b' \<and> rb_inner b' = rb_inner b \<and>
    (\<forall>t. replace_all p r (c @ t) = out @ replace_all p r (pending_bytes b' @ t))"
  proof (cases "length c - j < ?n")
    case True
    then have "out = e" "b' = b\<lparr>rb_replaced := rep, rb_buffer := Some (drop j c)\<rparr>"
      using assms(2) p by (auto simp: replace_data_def c l Let_def)
    with True p j show ?thesis by (simp add: stream_ok_def pending_bytes_def)
  next
    case False
    let ?m = "length c - ?n"
    have m: "j \<le> ?m" "?n \<le> length c" using False p(1) j(1) by (auto simp: not_less)
    have res: "out = e @ drop j (take ?m c)" "b' = b\<lparr>rb_replaced := rep, rb_buffer := Some (drop ?m c)\<rparr>"
      using assms(2) p False by (auto simp: replace_data_def c l Let_def)
    have parts: "drop j (take ?m c) @ drop ?m c = drop j c"
      using m drop_append [of j "take ?m c" "drop ?m c"] by simp
    have no: "find_sub p (drop ?m c) = None" using find_sub_drop [OF j(2), of "?m - j"] m by simp
    have "replace_all p r (drop j (take ?m c) @ (drop ?m c @ t)) = drop j (take ?m c) @ replace_all p r (drop ?m c @ t)" for t
    proof (rule replace_all_skip)
      fix i assume "i < length (drop j (take ?m c))"
      then have "i + length p \<le> length (drop j c)" using m by simp
      from no_match_inside [OF j(2) this, of t] show "\<not> starts_with p (drop i (drop j (take ?m c) @ drop ?m c @ t))"
        by (metis append.assoc parts)
    qed
    then have "replace_all p r (c @ t) = out @ replace_all p r (drop ?m c @ t)" for t
      using j(3) [of t] parts res(1) by (metis append.assoc)
    with res no m p show ?thesis by (simp add: stream_ok_def pending_bytes_def)
  qed
  then show ?thesis by (simp add: c_def)
qed

lemma poll_frames_end:
  assumes "stream_ok p r b" "rb_inner b = []"
  shows "concat (map frame_data (poll_frames (Suc n) b)) = pending_bytes b"
proof -
  have idle: "poll_frames k b' = []" if "rb_inner b' = []" "rb_buffer b' = None" for k b'
    using that
    by (induction k arbitrary: b') (simp_all add: poll_frame_def)
  show ?thesis
    by (cases "rb_buffer b") (use assms idle in \<open>auto simp: poll_frame_def pending_bytes_def\<close>)
qed

lemma poll_frames_replace:
  assumes "stream_ok p r b" "list_all data_poll (rb_inner b)" "length (rb_inner b) < n"
  shows "concat (map frame_data (poll_frames n b)) = replace_all p r (pending_bytes b @ data_frames (rb_inner b))"
  using assms
proof (induction "rb_inner b" arbitrary: b n)
  case Nil
  then obtain k where "n = Suc k" by (cases n) auto
  with Nil poll_frames_end [of p r b k] show ?case by (simp add: stream_ok_def replace_all_none)
next
  case (Cons x xs)
  have "length (rb_inner b) = Suc (length xs)" by (simp flip: Cons.hyps(2))
  with Cons.prems(3) obtain k where k: "n = Suc k" "length xs < k" by (cases n) auto
  have data: "list_all data_poll xs" "data_poll x" using Cons.hyps(2) Cons.prems(2) by (auto simp flip: Cons.hyps(2))
  show ?case
  proof (cases x rule: data_poll.cases)
    case (1 d)
    obtain out b' where step: "replace_data (b\<lparr>rb_inner := xs\<rparr>) d = (out, b')" by force
    have ok: "stream_ok p r (b\<lparr>rb_inner := xs\<rparr>)" using Cons.prems(1) by (simp add: stream_ok_def pending_bytes_def)
    from replace_data_step [OF ok step] have ok': "stream_ok p r b'" and inner: "xs = rb_inner b'" and
      eq: "\<And>t. replace_all p r (pending_bytes b @ d @ t) = out @ replace_all p r (pending_bytes b' @ t)"
      by (simp_all add: pending_bytes_def)
    have "poll_frames n b = Data out # poll_frames k b'"
      using 1 k(1) step by (simp add: poll_frame_def flip: Cons.hyps(2))
    moreover have "concat (map frame_data (poll_frames k b')) = replace_all p r (pending_bytes b' @ data_frames (rb_inner b'))"
      by (rule Cons.hyps(1) [OF inner ok']) (use data k in \<open>simp_all flip: inner\<close>)
    ultimately show ?thesis using 1 by (simp add: eq flip: Cons.hyps(2) inner)
  next
    case 2
    have "poll_frames n b = poll_frames k (b\<lparr>rb_inner := xs\<rparr>)"
      using 2 k(1) by (simp add: poll_frame_def flip: Cons.hyps(2))
    moreover have "concat (map frame_data (poll_frames k (b\<lparr>rb_inner := xs\<rparr>))) =
        replace_all p r (pending_bytes (b\<lparr>rb_inner := xs\<rparr>) @ data_frames (rb_inner (b\<lparr>rb_inner := xs\<rparr>)))"
      by (rule Cons.hyps(1)) (use Cons.prems(1) data k in \<open>auto simp: stream_ok_def pending_bytes_def\<close>)
    ultimately show ?thesis using 2 by (simp add: pending_bytes_def flip: Cons.hyps(2))
  qed (use data in simp_all)
qed

text \<open>
  C13: Replacing all occurrences (\<open>once=#false\<close>) of a text that is not empty while the body streams gives the body in
  which all occurrences are replaced, however the body is cut into data frames and whenever it is not ready; without
  trailers and errors. Once polled past its end, the data delivered is
  \<open>replace_all\<close> of the concatenated frames, also for matches that straddle frames.
\<close>

theorem replace_body_streams:
  assumes "searched \<noteq> []" "list_all data_poll body" "length body < n"
  shows "concat (map frame_data (poll_frames n (wrap_body (body_replacer_new searched replacement False) body))) =
    replace_all searched replacement (data_frames body)"
proof -
  let ?b = "wrap_body (body_replacer_new searched replacement False) body"
  have "stream_ok searched replacement ?b" using assms(1)
    by (simp add: stream_ok_def wrap_body_def body_replacer_new_def pending_bytes_def)
  from poll_frames_replace [OF this, of n] assms show ?thesis
    by (simp add: wrap_body_def pending_bytes_def)
qed

theorem replace_body_streams_witness:
  "concat (map frame_data (poll_frames 4 (wrap_body (body_replacer_new [1, 2] [9] False)
     [Ready (Some (Inr (Data [0, 1]))), Pending, Ready (Some (Inr (Data [2, 1, 2])))]))) = [0, 9, 9]"
  by (subst replace_body_streams) (simp_all add: starts_with_def)

text \<open>
  With \<open>once\<close>, the bytes kept back after the replacement come out after all later frames: two
  frames, the first with a match and a short rest, are delivered as the replaced part, the second
  frame, and only then the rest of the first.
\<close>

theorem replace_once_reorders:
  assumes "searched \<noteq> []" "find_sub searched c = Some i" "length (drop (i + length searched) c) < length searched"
  shows "poll_frames 3 (wrap_body (body_replacer_new searched replacement True)
      [Ready (Some (Inr (Data c))), Ready (Some (Inr (Data d)))]) =
    [Data (take i c @ replacement), Data d, Data (drop (i + length searched) c)]"
  using assms by (simp add: numeral_3_eq_3 poll_frame_def wrap_body_def body_replacer_new_def replace_data_def
      replace_loop.simps [of searched] Let_def)

text \<open>Trailers overtake the bytes that are kept back, so data follows the trailers.\<close>

theorem trailers_overtake_buffer:
  assumes "searched \<noteq> []" "find_sub searched c = None" "length c < length searched"
  shows "poll_frames 3 (wrap_body (body_replacer_new searched replacement False)
      [Ready (Some (Inr (Data c))), Ready (Some (Inr (Trailers ts)))]) = [Data [], Trailers ts, Data c]"
  using assms by (simp add: numeral_3_eq_3 poll_frame_def wrap_body_def body_replacer_new_def replace_data_def
      replace_loop.simps [of searched] Let_def)

end
