(* ===== verification/Module_Api.thy ===== *)
theory Module_Api
  imports Module_Cache Ttl_Cache
begin

text \<open>
  What the modules of \<open>ferron-modules-builtin\<close> share. A \<open>validate_configuration\<close> is a sequence of blocks
  \<open>if let Some(entries) = get_entries_for_validation!(name, ..) { for entry in .. }\<close>, each of which ends
  the validation at its first error: here a list of property names with the check of one entry
  (\<open>validate_rules\<close>). The locale \<open>validated_loader\<close> is the contract between validating and loading that
  \<open>process_modules\<close> relies on: a configuration that passed validation loads.
\<close>

type_synonym entry_check = "ServerConfigurationEntry \<Rightarrow> string option"

fun check_entries :: "entry_check \<Rightarrow> entries \<Rightarrow> string option" where
  "check_entries chk [] = None"
| "check_entries chk (e # es) = (case chk e of Some err \<Rightarrow> Some err | None \<Rightarrow> check_entries chk es)"

fun validate_rules ::
  "(string \<times> entry_check) list \<Rightarrow> ('m, 'o) ServerConfiguration \<Rightarrow> string set \<Rightarrow> (string + unit) \<times> string set" where
  "validate_rules [] config used = (Inr (), used)"
| "validate_rules ((name, chk) # rules) config used =
     (let (entries, used') = get_entries_for_validation name config used
      in case Option.bind entries (check_entries chk) of
           Some err \<Rightarrow> (Inl err, used')
         | None \<Rightarrow> validate_rules rules config used')"

text \<open>The checks that recur: the first failing one of a list of conditions gives its message.\<close>

fun check_all :: "(bool \<times> string) list \<Rightarrow> string option" where
  "check_all [] = None"
| "check_all ((bad, msg) # cs) = (if bad then Some msg else check_all cs)"

text \<open>\<open>entry.props.get(p).is_none_or(f)\<close> and \<open>entry.values[i]\<close> behind a check of the length.\<close>

definition prop_is :: "(ServerConfigurationValue \<Rightarrow> bool) \<Rightarrow> string \<Rightarrow> ServerConfigurationEntry \<Rightarrow> bool" where
  "prop_is f p e = (case map_of (entry_props e) p of None \<Rightarrow> True | Some v \<Rightarrow> f v)"

definition value_is :: "(ServerConfigurationValue \<Rightarrow> bool) \<Rightarrow> nat \<Rightarrow> ServerConfigurationEntry \<Rightarrow> bool" where
  "value_is f i e \<longleftrightarrow> i < length (entry_values e) \<and> f (entry_values e ! i)"

definition prop_bool :: "string \<Rightarrow> bool \<Rightarrow> ServerConfigurationEntry \<Rightarrow> bool" where
  "prop_bool p dflt e = (case Option.bind (map_of (entry_props e) p) as_bool of Some b \<Rightarrow> b | None \<Rightarrow> dflt)"

definition option_value_bool :: "string \<Rightarrow> ('m, 'o) ServerConfiguration \<Rightarrow> bool" where
  "option_value_bool name config = (case Option.bind (get_value_m name config) as_bool of Some b \<Rightarrow> b | None \<Rightarrow> False)"

definition first_value_str :: "string \<Rightarrow> ('m, 'o) ServerConfiguration \<Rightarrow> string option" where
  "first_value_str name config =
     Option.bind (get_entry_m name config) (\<lambda>e. case entry_values e of [] \<Rightarrow> None | v # _ \<Rightarrow> as_str v)"

text \<open>The shapes most checks have: exactly one value, exactly two, or each value of all entries.\<close>

definition one_value :: "string \<Rightarrow> (ServerConfigurationValue \<Rightarrow> bool) \<Rightarrow> string \<Rightarrow> string \<times> entry_check" where
  "one_value name ok msg = (name, \<lambda>e. check_all
     [(length (entry_values e) \<noteq> 1, ''The `'' @ name @ ''` configuration property must have exactly one value''),
      (\<not> value_is ok 0 e, msg)])"

definition two_values ::
  "string \<Rightarrow> (ServerConfigurationValue \<Rightarrow> bool) \<Rightarrow> string \<Rightarrow> (ServerConfigurationValue \<Rightarrow> bool) \<Rightarrow> string \<Rightarrow> string \<times> entry_check" where
  "two_values name ok1 msg1 ok2 msg2 = (name, \<lambda>e. check_all
     [(length (entry_values e) \<noteq> 2, ''The `'' @ name @ ''` configuration property must have exactly two values''),
      (\<not> value_is ok1 0 e, msg1), (\<not> value_is ok2 1 e, msg2)])"

text \<open>Properties whose values are checked one by one, in all entries.\<close>

definition every_value :: "string \<Rightarrow> (ServerConfigurationValue \<Rightarrow> bool) \<Rightarrow> string \<Rightarrow> string \<times> entry_check" where
  "every_value name ok msg = (name, \<lambda>e. check_all [(\<not> list_all ok (entry_values e), msg)])"

definition or_null :: "(ServerConfigurationValue \<Rightarrow> bool) \<Rightarrow> ServerConfigurationValue \<Rightarrow> bool" where
  "or_null ok v \<longleftrightarrow> ok v \<or> is_null v"

fun int_in :: "(int \<Rightarrow> bool) \<Rightarrow> ServerConfigurationValue \<Rightarrow> bool" where
  "int_in ok (VInteger n) = ok n"
| "int_in ok _ = False"

subsection \<open>Early returns\<close>

text \<open>A step of a handler: an error (\<open>?\<close>), an early return, or a value to go on with.\<close>

datatype 'a flow = Fail string | Stop ResponseData | Go 'a

fun bind_flow :: "'a flow \<Rightarrow> ('a \<Rightarrow> 'b flow) \<Rightarrow> 'b flow" where
  "bind_flow (Fail e) f = Fail e"
| "bind_flow (Stop r) f = Stop r"
| "bind_flow (Go a) f = f a"

fun run_flow :: "ResponseData flow \<Rightarrow> string + ResponseData" where
  "run_flow (Fail e) = Inl e"
| "run_flow (Stop r) = Inr r"
| "run_flow (Go r) = Inr r"

fun lift_sum :: "string + 'a \<Rightarrow> 'a flow" where
  "lift_sum (Inl e) = Fail e"
| "lift_sum (Inr a) = Go a"

definition lift_header :: "string \<Rightarrow> string flow" where
  "lift_header v = (case header_to_str v of None \<Rightarrow> Fail ''failed to convert header to a str'' | Some s \<Rightarrow> Go s)"

lemma bind_flow_Stop_iff: "bind_flow m f = Stop r \<longleftrightarrow> m = Stop r \<or> (\<exists>a. m = Go a \<and> f a = Stop r)"
  by (cases m) auto

lemma bind_flow_Go_iff: "bind_flow m f = Go b \<longleftrightarrow> (\<exists>a. m = Go a \<and> f a = Go b)"
  by (cases m) auto

section \<open>Facts about validation\<close>

lemma check_entries_None_iff: "check_entries chk es = None \<longleftrightarrow> list_all (\<lambda>e. chk e = None) es"
  by (induction es) (auto split: option.splits)

lemma check_all_None_iff: "check_all cs = None \<longleftrightarrow> list_all (\<lambda>(bad, msg). \<not> bad) cs"
  by (induction cs rule: check_all.induct) simp_all

declare check_all.simps [simp del]

text \<open>Accepted: every entry of every listed property passes its check.\<close>

definition accepts :: "(string \<times> entry_check) list \<Rightarrow> ('m, 'o) ServerConfiguration \<Rightarrow> bool" where
  "accepts rules config \<longleftrightarrow>
     list_all (\<lambda>(name, chk). Option.bind (get_entries_m name config) (check_entries chk) = None) rules"

lemma accepts_entry:
  assumes "accepts rules config" "(name, chk) \<in> set rules" "get_entries_m name config = Some es" "e \<in> set es"
  shows "chk e = None"
proof -
  have "check_entries chk es = None" using assms(1-3) by (force simp: accepts_def list_all_iff)
  with assms(4) show ?thesis by (simp add: check_entries_None_iff list_all_iff)
qed

lemma first_of_entry:
  "Option.bind (get_entry_m name config) (\<lambda>e. case entry_values e of [] \<Rightarrow> None | v # _ \<Rightarrow> Some v) = get_value_m name config"
  by (cases "get_entries_m name config") (auto simp: get_entry_m_def get_value_m_def get_value_def get_entry_def split: list.splits)

lemma one_value_accepted:
  assumes "accepts rules config" "one_value name ok msg \<in> set rules" "get_value_m name config = Some v"
  shows "ok v"
proof -
  obtain es where es: "get_entries_m name config = Some es" "get_value es = Some v"
    using assms(3) by (auto simp: get_value_m_def bind_eq_Some_conv)
  then have l: "es \<noteq> []" "\<exists>vs. entry_values (last es) = v # vs" by (auto simp: get_value_def split: if_splits list.splits)
  have "snd (one_value name ok msg) (last es) = None"
    by (rule accepts_entry [OF assms(1) _ es(1)]) (use assms(2) l(1) in \<open>simp_all add: one_value_def\<close>)
  with l(2) show ?thesis by (auto simp: one_value_def check_all_None_iff value_is_def)
qed

lemma validate_rules_Cons:
  "validate_rules ((name, chk) # rules) config used =
     (let used' = snd (get_entries_for_validation name config used)
      in case Option.bind (get_entries_m name config) (check_entries chk) of
           Some err \<Rightarrow> (Inl err, used')
         | None \<Rightarrow> validate_rules rules config used')"
  by (simp add: get_entries_for_validation_def Let_def)

declare validate_rules.simps(2) [simp del]

lemma validate_rules_accepts:
  "fst (validate_rules rules config used) = Inr () \<longleftrightarrow> accepts rules config"
proof (induction rules arbitrary: used)
  case (Cons r rules)
  obtain name chk where r: "r = (name, chk)" by (cases r)
  show ?case
    by (cases "Option.bind (get_entries_m name config) (check_entries chk)")
      (use Cons.IH in \<open>simp_all add: r validate_rules_Cons accepts_def Let_def\<close>)
qed (simp add: accepts_def)

text \<open>Validation marks the properties it looked at, and only properties the configuration has.\<close>

lemma used_step:
  "snd (get_entries_for_validation name config used) = used \<union> ({name} \<inter> dom (map_of (sc_entries config)))"
  by (auto simp: get_entries_for_validation_def)

lemma validate_rules_used:
  "snd (validate_rules rules config used) \<subseteq> used \<union> (set (map fst rules) \<inter> dom (map_of (sc_entries config)))"
proof (induction rules arbitrary: used)
  case (Cons r rules)
  obtain name chk where r: "r = (name, chk)" by (cases r)
  show ?case
    using Cons.IH [of "used \<union> ({name} \<inter> dom (map_of (sc_entries config)))"]
    by (auto simp: r validate_rules_Cons used_step Let_def split: option.splits)
qed simp

lemma validate_rules_used_accepted:
  "accepts rules config \<Longrightarrow>
   snd (validate_rules rules config used) = used \<union> (set (map fst rules) \<inter> dom (map_of (sc_entries config)))"
proof (induction rules arbitrary: used)
  case (Cons r rules)
  obtain name chk where r: "r = (name, chk)" by (cases r)
  have "Option.bind (get_entries_m name config) (check_entries chk) = None" "accepts rules config"
    using Cons.prems by (simp_all add: r accepts_def)
  with Cons.IH [of "used \<union> ({name} \<inter> dom (map_of (sc_entries config)))"] show ?case
    by (simp add: r validate_rules_Cons used_step Int_insert_left Un_ac)
qed simp

section \<open>The contract of a loader\<close>

locale validated_loader =
  fixes rules :: "(string \<times> entry_check) list"
    and init :: "('m, 'o) ServerConfiguration \<Rightarrow> string + 'v"
  assumes init_total: "accepts rules config \<Longrightarrow> \<exists>v. init config = Inr v"
begin

text \<open>A validated configuration loads, whether the module is cached or made afresh.\<close>

lemma load_validated:
  assumes "fst (validate_rules rules config used) = Inr ()"
  shows "\<exists>v c'. cache_get_or_init init config c = (Inr v, c')"
proof -
  obtain v where "init config = Inr v" using init_total assms by (auto simp: validate_rules_accepts)
  then show ?thesis
    by (cases "cache_lookup (cache_key_new config (mc_properties c)) (mc_inner c)")
      (auto simp: cache_get_or_init_def Let_def)
qed

end

end
