(* ===== verification/Blocklist_Module.thy ===== *)
theory Blocklist_Module
  imports Module_Api
begin

text \<open>
  The module that blocks or allows clients by address, \<open>ferron-modules-builtin/src/blocklist.rs\<close>: loading,
  validation and the request handler over the block lists of \<open>Ip_Blocklist\<close>.
\<close>

record BlocklistModule =
  bm_allowlist :: "IpBlockList option"
  bm_blocklist :: "IpBlockList option"

definition list_of_values :: "('x) cidr_lib_scheme \<Rightarrow> ServerConfigurationValue list \<Rightarrow> IpBlockList option" where
  "list_of_values lib vs =
     (if vs \<noteq> [] then Some (load_from_vec lib (List.map_filter as_str vs) blocklist_new) else None)"

definition blocklist_init :: "('x) cidr_lib_scheme \<Rightarrow> ('m, 'o) ServerConfiguration \<Rightarrow> string + BlocklistModule" where
  "blocklist_init lib config =
     Inr \<lparr>bm_allowlist = list_of_values lib (get_values_m ''allow'' config),
          bm_blocklist = list_of_values lib (get_values_m ''block'' config)\<rparr>"

definition blocklist_loader_new :: "BlocklistModule ModuleCache" where
  "blocklist_loader_new = module_cache_new [''block'', ''allow'']"

definition blocklist_load_module ::
  "('x) cidr_lib_scheme \<Rightarrow> ('m, 'o) ServerConfiguration \<Rightarrow> BlocklistModule ModuleCache \<Rightarrow>
     (string + BlocklistModule) \<times> BlocklistModule ModuleCache" where
  "blocklist_load_module lib config c = cache_get_or_init (blocklist_init lib) config c"

definition blocklist_requirements :: "string list" where
  "blocklist_requirements = [''block'', ''allow'']"

definition valid_ip_value :: "('x) cidr_lib_scheme \<Rightarrow> ServerConfigurationValue \<Rightarrow> bool" where
  "valid_ip_value lib v \<longleftrightarrow>
     (case as_str v of Some s \<Rightarrow> parse_ip s \<noteq> None \<or> parse_cidr lib s \<noteq> None | None \<Rightarrow> False)"

definition check_ip_entry :: "('x) cidr_lib_scheme \<Rightarrow> string \<Rightarrow> string \<Rightarrow> entry_check" where
  "check_ip_entry lib null_msg ip_msg e =
     (case entry_values e of
        VNull # vs \<Rightarrow> if vs \<noteq> [] then Some null_msg else None
      | vs \<Rightarrow> if list_ex (\<lambda>v. \<not> valid_ip_value lib v) vs then Some ip_msg else None)"

definition blocklist_rules :: "('x) cidr_lib_scheme \<Rightarrow> (string \<times> entry_check) list" where
  "blocklist_rules lib =
     [(''block'', check_ip_entry lib
         ''The `block` configuration property must have exactly one value if the first value is \"#null\"''
         ''Invalid blocked IP address''),
      (''allow'', check_ip_entry lib
         ''The `allow` configuration property must have exactly one value if the first value is \"#null\"''
         ''Invalid allowed IP address'')]"

definition blocklist_validate_configuration ::
  "('x) cidr_lib_scheme \<Rightarrow> ('m, 'o) ServerConfiguration \<Rightarrow> string set \<Rightarrow> (string + unit) \<times> string set" where
  "blocklist_validate_configuration lib = validate_rules (blocklist_rules lib)"

definition client_blocked :: "('x) cidr_lib_scheme \<Rightarrow> BlocklistModule \<Rightarrow> IpAddr \<Rightarrow> bool" where
  "client_blocked lib m addr \<longleftrightarrow>
     (case bm_blocklist m of None \<Rightarrow> False | Some l \<Rightarrow> is_blocked lib l addr) \<or>
     \<not> (case bm_allowlist m of None \<Rightarrow> True | Some l \<Rightarrow> is_blocked lib l addr)"

definition blocklist_request_handler ::
  "('x) cidr_lib_scheme \<Rightarrow> BlocklistModule \<Rightarrow> request \<Rightarrow> SocketData \<Rightarrow> ResponseData" where
  "blocklist_request_handler lib m req socket =
     (if client_blocked lib m (sa_ip (remote_addr socket)) then with_status req 403 else pass_on req)"

section \<open>Properties\<close>

interpretation bl: validated_loader "blocklist_rules lib" "blocklist_init lib" for lib :: "('x) cidr_lib_scheme"
  by unfold_locales (simp add: blocklist_init_def)

text \<open>The strings a property lists.\<close>

definition listed :: "string \<Rightarrow> ('m, 'o) ServerConfiguration \<Rightarrow> string set" where
  "listed name config = set (List.map_filter as_str (get_values_m name config))"

lemma list_of_values_blocks:
  "(case list_of_values lib (get_values_m name config) of None \<Rightarrow> False | Some l \<Rightarrow> is_blocked lib l addr) \<longleftrightarrow>
     (\<exists>e \<in> listed name config. entry_matches lib e addr)"
  by (simp add: list_of_values_def is_blocked_load listed_def)

text \<open>
  A client gets the status 403 exactly when some entry of \<open>block\<close> matches its address, or \<open>allow\<close>
  has a value and no entry of it matches; otherwise the request goes on unchanged.
\<close>

theorem blocklist_decides:
  "\<exists>m. blocklist_init lib config = Inr m \<and>
     blocklist_request_handler lib m req socket =
       (if (\<exists>e \<in> listed ''block'' config. entry_matches lib e (sa_ip (remote_addr socket))) \<or>
           get_values_m ''allow'' config \<noteq> [] \<and>
             \<not> (\<exists>e \<in> listed ''allow'' config. entry_matches lib e (sa_ip (remote_addr socket)))
        then with_status req 403 else pass_on req)"
  using list_of_values_blocks [of lib _ "''block''" config] list_of_values_blocks [of lib _ "''allow''" config]
  by (auto simp: blocklist_init_def blocklist_request_handler_def client_blocked_def list_of_values_def)

text \<open>\<open>allow #null\<close> passes validation, and together with a \<open>block\<close> it turns everybody away.\<close>

theorem allow_null_blocks_everybody:
  "\<forall>lib :: cidr_lib. let config = \<lparr>sc_entries = [(''block'', [\<lparr>entry_values = [VNull], entry_props = []\<rparr>]), (''allow'', [\<lparr>entry_values = [VNull], entry_props = []\<rparr>])],
        sc_filters = f, sc_modules = ([] :: unit list), sc_observability = ()\<rparr>
     in fst (blocklist_validate_configuration lib config {}) = Inr () \<and>
        (\<exists>m. blocklist_init lib config = Inr m \<and> blocklist_request_handler lib m req socket = with_status req 403)"
proof -
  have "fst (blocklist_validate_configuration lib config {}) = Inr () \<and>
        (\<exists>m. blocklist_init lib config = Inr m \<and> blocklist_request_handler lib m req socket = with_status req 403)"
    if "config = \<lparr>sc_entries = [(''block'', [\<lparr>entry_values = [VNull], entry_props = []\<rparr>]), (''allow'', [\<lparr>entry_values = [VNull], entry_props = []\<rparr>])],
        sc_filters = f, sc_modules = ([] :: unit list), sc_observability = ()\<rparr>" for lib :: cidr_lib and config
    unfolding that
    by (simp add: blocklist_validate_configuration_def validate_rules_accepts accepts_def blocklist_rules_def
        check_ip_entry_def get_entries_m_def get_values_m_def get_value_def get_values_def blocklist_init_def
        blocklist_request_handler_def client_blocked_def list_of_values_def is_blocked_load List.map_filter_simps)
  then show ?thesis by (simp add: Let_def)
qed

text \<open>\<open>localhost\<close>, which a block list understands, is refused by validation when \<open>cidr\<close> cannot parse it.\<close>

theorem localhost_refused:
  assumes "parse_cidr lib ''localhost'' = None"
  shows "check_ip_entry lib nm im \<lparr>entry_values = [VString ''localhost''], entry_props = []\<rparr> = Some im \<and>
    entry_matches lib ''localhost'' (V6 1)"
proof -
  have "parse_ip ''localhost'' = None" "to_canonical (V6 1) = V6 1" by code_simp+
  with assms show ?thesis by (simp add: check_ip_entry_def valid_ip_value_def entry_matches_def)
qed

end
