(* ===== verification/Limit_Module.thy ===== *)
theory Limit_Module
  imports Module_Api
begin

text \<open>
  The rate limiting module, \<open>ferron-modules-builtin/src/optional/limit.rs\<close>. The token bucket of the crate
  \<open>tokenbucket\<close> is a parameter (\<open>token_lib\<close>): creation and acquisition at an explicit time. The buckets
  are shared cells (\<open>Arc<Mutex<TokenBucket>>\<close>): a heap of buckets, and a map from client addresses to
  cells. \<open>limit_request_handler\<close> is one request on its own; \<open>limit_step\<close> splits it at its lock operations
  for concurrent requests. The numbers are IEEE doubles by their bits; the conversion from an integer
  and the product with five are computed exactly and rounded to nearest, ties to even.
\<close>

section \<open>Doubles\<close>

function bit_length :: "int \<Rightarrow> int" where
  "bit_length n = (if n \<le> 0 then 0 else 1 + bit_length (n div 2))"
  by auto
termination by (relation "measure nat") auto

declare bit_length.simps [simp del]

definition round_half_even :: "int \<Rightarrow> nat \<Rightarrow> int" where
  "round_half_even n k =
     (let q = n div 2 ^ k; r = n mod 2 ^ k
      in if 2 * r > 2 ^ k \<or> 2 * r = 2 ^ k \<and> odd q then q + 1 else q)"

text \<open>The double nearest to \<open>m \<cdot> 2\<^sup>e\<close>: a significand of 53 bits, subnormal below \<open>2 ^ -1022\<close>, infinite above.\<close>

definition f64_encode :: "bool \<Rightarrow> int \<Rightarrow> int \<Rightarrow> f64" where
  "f64_encode neg m e =
     (let sign = (if neg then 0x8000000000000000 else 0);
          top = bit_length m - 1 + e;
          unit = max (top - 52) (- 1074);
          sig = (if e \<ge> unit then m * 2 ^ nat (e - unit) else round_half_even m (nat (unit - e)));
          mag = (if m = 0 then 0 else if top > 1023 then 0x7FF0000000000000
                 else if top \<ge> - 1022 then (top + 1023) * 2 ^ 52 + sig - 2 ^ 52 else sig)
      in of_int (sign + mag))"

definition f64_of_i128 :: "int \<Rightarrow> f64" where
  "f64_of_i128 i = f64_encode (i < 0) \<bar>i\<bar> 0"

definition f64_times_5 :: "f64 \<Rightarrow> f64" where
  "f64_times_5 x =
     (let mag = uint (f64_magnitude x); ex = mag div 2 ^ 52; frac = mag mod 2 ^ 52
      in if f64_is_nan x then f64_nan else if ex = 2047 then x
         else if ex = 0 then f64_encode (f64_magnitude x \<noteq> x) (5 * frac) (- 1074)
         else f64_encode (f64_magnitude x \<noteq> x) (5 * (frac + 2 ^ 52)) (ex - 1075))"

definition f64_25 :: f64 where "f64_25 = 0x4039000000000000"
definition f64_1 :: f64 where "f64_1 = 0x3FF0000000000000"

lemma f64_examples:
  "f64_of_i128 25 = f64_25" "f64_of_i128 1 = f64_1" "f64_times_5 f64_25 = f64_of_i128 125"
  "f64_of_i128 (- 9007199254740993) = 0xC340000000000000"
  by code_simp+

section \<open>The module\<close>

record 'tb token_lib =
  tb_new :: "nat \<Rightarrow> f64 \<Rightarrow> f64 \<Rightarrow> 'tb"
  tb_acquire :: "nat \<Rightarrow> f64 \<Rightarrow> 'tb \<Rightarrow> bool \<times> 'tb"

record 'tb LimitModule =
  token_buckets :: "IpAddr \<rightharpoonup> nat"
  bucket_heap :: "'tb list"
  lm_r :: f64
  lm_b :: f64

definition number_value :: "ServerConfigurationValue \<Rightarrow> f64 option" where
  "number_value v = (if is_float v then as_f64 v else if is_integer v then map_option f64_of_i128 (as_i128 v) else None)"

definition limit_number :: "string \<Rightarrow> f64 \<Rightarrow> ServerConfigurationEntry option \<Rightarrow> f64" where
  "limit_number p dflt e =
     (case Option.bind (Option.bind e (\<lambda>e. map_of (entry_props e) p)) number_value of Some x \<Rightarrow> x | None \<Rightarrow> dflt)"

definition limit_init :: "('m, 'o) ServerConfiguration \<Rightarrow> string + 'tb LimitModule" where
  "limit_init config =
     (let limit_entry = get_entry_m ''limit'' config;
          r = limit_number ''rate'' f64_25 limit_entry;
          b = limit_number ''burst'' (f64_times_5 r) limit_entry
      in Inr \<lparr>token_buckets = Map.empty, bucket_heap = [], lm_r = r, lm_b = b\<rparr>)"

definition limit_loader_new :: "'tb LimitModule ModuleCache" where
  "limit_loader_new = module_cache_new [''limit'']"

definition limit_load_module ::
  "('m, 'o) ServerConfiguration \<Rightarrow> 'tb LimitModule ModuleCache \<Rightarrow> (string + 'tb LimitModule) \<times> 'tb LimitModule ModuleCache" where
  "limit_load_module config c = cache_get_or_init limit_init config c"

definition limit_requirements :: "string list" where
  "limit_requirements = [''limit'']"

definition check_limit_entry :: entry_check where
  "check_limit_entry e = check_all
     [(length (entry_values e) \<noteq> 1, ''The `limit` configuration property must have exactly one value''),
      (\<not> value_is is_bool 0 e, ''Invalid rate limit enabling option''),
      (\<not> prop_is (\<lambda>v. is_integer v \<or> is_float v) ''rate'' e,
         ''The maximum average rate per second must be an integer or a float''),
      (\<not> prop_is (\<lambda>v. is_integer v \<or> is_float v) ''burst'' e,
         ''The maximum peak rate per second must be an integer or a float'')]"

definition limit_rules :: "(string \<times> entry_check) list" where
  "limit_rules = [(''limit'', check_limit_entry)]"

definition limit_validate_configuration ::
  "('m, 'o) ServerConfiguration \<Rightarrow> string set \<Rightarrow> (string + unit) \<times> string set" where
  "limit_validate_configuration = validate_rules limit_rules"

text \<open>The cell of a client, made on its first request.\<close>

definition new_bucket :: "'tb token_lib \<Rightarrow> nat \<Rightarrow> 'tb LimitModule \<Rightarrow> nat \<times> 'tb LimitModule" where
  "new_bucket lib now m = (length (bucket_heap m), m\<lparr>bucket_heap := bucket_heap m @ [tb_new lib now (lm_r m) (lm_b m)]\<rparr>)"

definition insert_bucket :: "IpAddr \<Rightarrow> nat \<Rightarrow> 'tb LimitModule \<Rightarrow> 'tb LimitModule" where
  "insert_bucket addr a m = m\<lparr>token_buckets := (token_buckets m)(addr \<mapsto> a)\<rparr>"

definition acquire_token :: "'tb token_lib \<Rightarrow> nat \<Rightarrow> nat \<Rightarrow> 'tb LimitModule \<Rightarrow> bool \<times> 'tb LimitModule" where
  "acquire_token lib now a m =
     (let (ok, tb) = tb_acquire lib now f64_1 (bucket_heap m ! a) in (ok, m\<lparr>bucket_heap := (bucket_heap m)[a := tb]\<rparr>))"

definition limit_request_handler ::
  "'tb token_lib \<Rightarrow> nat \<Rightarrow> 'tb LimitModule \<Rightarrow> request \<Rightarrow> SocketData \<Rightarrow> ResponseData \<times> 'tb LimitModule" where
  "limit_request_handler lib now m req socket =
     (let addr = sa_ip (remote_addr socket);
          (a, m1) = (case token_buckets m addr of
              Some a \<Rightarrow> (a, m)
            | None \<Rightarrow> (let (a, m') = new_bucket lib now m in (a, insert_bucket addr a m')));
          (ok, m2) = acquire_token lib now a m1
      in (if ok then pass_on req else with_status req 429, m2))"

interpretation ll: validated_loader limit_rules limit_init
  by unfold_locales (simp add: limit_init_def Let_def)

section \<open>Each client has its own bucket\<close>

definition limit_inv :: "'tb LimitModule \<Rightarrow> bool" where
  "limit_inv m \<longleftrightarrow> (\<forall>addr a. token_buckets m addr = Some a \<longrightarrow> a < length (bucket_heap m)) \<and>
     (\<forall>addr addr' a. token_buckets m addr = Some a \<longrightarrow> token_buckets m addr' = Some a \<longrightarrow> addr = addr')"

definition client_bucket :: "'tb LimitModule \<Rightarrow> IpAddr \<Rightarrow> 'tb option" where
  "client_bucket m addr = map_option (\<lambda>a. bucket_heap m ! a) (token_buckets m addr)"

text \<open>One bucket on its own: the answers to requests at the given times.\<close>

fun bucket_run :: "'tb token_lib \<Rightarrow> f64 \<Rightarrow> f64 \<Rightarrow> 'tb option \<Rightarrow> nat list \<Rightarrow> bool list" where
  "bucket_run lib r b tb [] = []"
| "bucket_run lib r b tb (t # ts) =
     (let (ok, tb') = tb_acquire lib t f64_1 (case tb of Some x \<Rightarrow> x | None \<Rightarrow> tb_new lib t r b)
      in ok # bucket_run lib r b (Some tb') ts)"

text \<open>Requests one after the other: the time, the client and whether the request was let through.\<close>

fun limit_run :: "'tb token_lib \<Rightarrow> 'tb LimitModule \<Rightarrow> (nat \<times> request \<times> SocketData) list \<Rightarrow> (IpAddr \<times> bool) list" where
  "limit_run lib m [] = []"
| "limit_run lib m ((t, req, socket) # rs) =
     (let (resp, m') = limit_request_handler lib t m req socket
      in (sa_ip (remote_addr socket), rd_response_status resp = None) # limit_run lib m' rs)"

lemma limit_handler_step:
  assumes "limit_inv m" "limit_request_handler lib t m req socket = (resp, m')"
    and "addr = sa_ip (remote_addr socket)"
    and "tb_acquire lib t f64_1 (case client_bucket m addr of Some x \<Rightarrow> x | None \<Rightarrow> tb_new lib t (lm_r m) (lm_b m)) = (ok, tb)"
  shows "limit_inv m' \<and> lm_r m' = lm_r m \<and> lm_b m' = lm_b m \<and> resp = (if ok then pass_on req else with_status req 429) \<and>
    client_bucket m' = (client_bucket m)(addr \<mapsto> tb)"
proof (cases "token_buckets m addr")
  case None
  then have m': "m' = m\<lparr>token_buckets := (token_buckets m)(addr \<mapsto> length (bucket_heap m)), bucket_heap := bucket_heap m @ [tb]\<rparr>"
    and r: "resp = (if ok then pass_on req else with_status req 429)"
    using assms by (simp_all add: limit_request_handler_def new_bucket_def insert_bucket_def acquire_token_def client_bucket_def)
  have "limit_inv m'" using assms(1) by (auto simp: m' limit_inv_def less_Suc_eq split: if_splits)
  moreover have "client_bucket m' a = ((client_bucket m)(addr \<mapsto> tb)) a" for a
    using assms(1) by (cases "token_buckets m a") (auto simp: m' limit_inv_def client_bucket_def nth_append)
  ultimately show ?thesis using r m' by auto
next
  case (Some c)
  then have m': "m' = m\<lparr>bucket_heap := (bucket_heap m)[c := tb]\<rparr>"
    and r: "resp = (if ok then pass_on req else with_status req 429)"
    using assms by (simp_all add: limit_request_handler_def acquire_token_def client_bucket_def)
  have "limit_inv m'" using assms(1) by (simp add: m' limit_inv_def)
  moreover have "client_bucket m' a = ((client_bucket m)(addr \<mapsto> tb)) a" for a
  proof (cases "a = addr")
    case True
    then show ?thesis using Some assms(1) by (simp add: m' client_bucket_def limit_inv_def)
  next
    case False
    then have "token_buckets m a \<noteq> Some c" using Some assms(1) by (auto simp: limit_inv_def)
    with False show ?thesis by (cases "token_buckets m a") (auto simp: m' client_bucket_def)
  qed
  ultimately show ?thesis using r m' by auto
qed

lemma limit_run_client:
  assumes "limit_inv m"
  shows "map snd (filter (\<lambda>(a, ok). a = addr) (limit_run lib m rs)) =
    bucket_run lib (lm_r m) (lm_b m) (client_bucket m addr)
      (map fst (filter (\<lambda>(t, req, socket). sa_ip (remote_addr socket) = addr) rs))"
  using assms
proof (induction rs arbitrary: m)
  case (Cons r rs)
  obtain t req socket where r: "r = (t, req, socket)" by (cases r)
  let ?a = "sa_ip (remote_addr socket)"
  obtain resp m' where h: "limit_request_handler lib t m req socket = (resp, m')" by force
  obtain ok tb where a: "tb_acquire lib t f64_1 (case client_bucket m ?a of Some x \<Rightarrow> x | None \<Rightarrow> tb_new lib t (lm_r m) (lm_b m)) = (ok, tb)"
    by force
  from limit_handler_step [OF Cons.prems h refl a] have s: "limit_inv m'" "lm_r m' = lm_r m" "lm_b m' = lm_b m"
    "(rd_response_status resp = None) = ok" "client_bucket m' = (client_bucket m)(?a \<mapsto> tb)" by auto
  from Cons.IH [OF s(1)] s show ?case by (cases "?a = addr") (use a in \<open>auto simp: r h\<close>)
qed simp

text \<open>
  Rate limiting treats clients independently: whatever requests of other clients come in
  between, the answers a client gets are those of a token bucket of its own, made at its first
  request with the configured rate and burst and asked for one token per request.
\<close>

theorem limit_clients_independent:
  assumes "limit_init config = Inr m"
  shows "map snd (filter (\<lambda>(a, ok). a = addr) (limit_run lib m rs)) =
    bucket_run lib (lm_r m) (lm_b m) None
      (map fst (filter (\<lambda>(t, req, socket). sa_ip (remote_addr socket) = addr) rs))"
proof -
  have "limit_inv m" "client_bucket m addr = None"
    using assms by (auto simp: limit_init_def Let_def limit_inv_def client_bucket_def)
  then show ?thesis using limit_run_client [of m addr lib rs] by simp
qed

definition counting_lib :: "nat token_lib" where
  "counting_lib = \<lparr>tb_new = \<lambda>now r b. 2, tb_acquire = \<lambda>now n tb. (0 < tb, tb - 1)\<rparr>"

theorem limit_clients_independent_witness:
  "\<exists>m. limit_init default_config = Inr m \<and>
     map snd (filter (\<lambda>(a, ok). a = V4 1) (limit_run counting_lib m
       (map (\<lambda>(t, a). (t, plain_request, client_socket (V4 a))) [(0, 1), (1, 2), (2, 1), (3, 1), (4, 2)]))) = [True, True, False]"
proof -
  obtain m :: "nat LimitModule" where m: "limit_init default_config = Inr m" by (simp add: limit_init_def Let_def)
  from limit_clients_independent [OF m, of "V4 1" counting_lib
      "map (\<lambda>(t, a). (t, plain_request, client_socket (V4 a))) [(0, 1), (1, 2), (2, 1), (3, 1), (4, 2)]"] m
  show ?thesis by (auto simp: client_socket_def counting_lib_def)
qed

section \<open>Concurrent requests\<close>

text \<open>
  The handler holds no lock between looking a client up and inserting its new bucket. A task is
  where a request stands: before the lookup, with a new bucket to insert, with the bucket to ask, or
  answered.
\<close>

datatype task = Lookup IpAddr | Insert IpAddr nat | Acquire nat | Answered bool

inductive limit_step :: "'tb token_lib \<Rightarrow> 'tb LimitModule \<times> task list \<Rightarrow> 'tb LimitModule \<times> task list \<Rightarrow> bool"
  for lib :: "'tb token_lib" where
  found: "i < length ts \<Longrightarrow> ts ! i = Lookup addr \<Longrightarrow> token_buckets m addr = Some a \<Longrightarrow>
    limit_step lib (m, ts) (m, ts[i := Acquire a])"
| absent: "i < length ts \<Longrightarrow> ts ! i = Lookup addr \<Longrightarrow> token_buckets m addr = None \<Longrightarrow> new_bucket lib now m = (a, m') \<Longrightarrow>
    limit_step lib (m, ts) (m', ts[i := Insert addr a])"
| inserted: "i < length ts \<Longrightarrow> ts ! i = Insert addr a \<Longrightarrow>
    limit_step lib (m, ts) (insert_bucket addr a m, ts[i := Acquire a])"
| acquired: "i < length ts \<Longrightarrow> ts ! i = Acquire a \<Longrightarrow> acquire_token lib now a m = (ok, m') \<Longrightarrow>
    limit_step lib (m, ts) (m', ts[i := Answered ok])"

inductive_cases limit_stepE: "limit_step lib s s'"

text \<open>Which client a cell belongs to: the one it is mapped from or about to be.\<close>

definition limit_conc_inv :: "'tb LimitModule \<times> task list \<Rightarrow> bool" where
  "limit_conc_inv s \<longleftrightarrow> (let (m, ts) = s in limit_inv m \<and>
     (\<forall>addr a. Insert addr a \<in> set ts \<longrightarrow> a < length (bucket_heap m) \<and> (\<forall>addr'. token_buckets m addr' = Some a \<longrightarrow> addr' = addr)) \<and>
     (\<forall>addr addr' a. Insert addr a \<in> set ts \<longrightarrow> Insert addr' a \<in> set ts \<longrightarrow> addr = addr') \<and>
     (\<forall>a. Acquire a \<in> set ts \<longrightarrow> a < length (bucket_heap m)))"

lemma set_update_cases: "x \<in> set (ts[i := y]) \<Longrightarrow> x = y \<or> x \<in> set ts"
  using set_update_subset_insert by fast

lemma limit_step_inv:
  assumes "limit_step lib s s'" "limit_conc_inv s"
  shows "limit_conc_inv s'"
  using assms(1)
proof (cases rule: limit_step.cases)
  case (found i ts addr m a)
  then have "a < length (bucket_heap m)" using assms(2) by (auto simp: limit_conc_inv_def limit_inv_def)
  with found assms(2) show ?thesis unfolding limit_conc_inv_def by (auto dest!: set_update_cases)
next
  case absent: (absent i ts addr m now b m')
  have fresh: "\<And>c. token_buckets m c \<noteq> Some (length (bucket_heap m))" "\<And>c. Insert c (length (bucket_heap m)) \<notin> set ts"
    using absent assms(2) by (auto simp: limit_conc_inv_def limit_inv_def)
  have "limit_inv m'" using absent assms(2) by (auto simp: limit_conc_inv_def limit_inv_def new_bucket_def less_SucI)
  with absent assms(2) fresh show ?thesis unfolding limit_conc_inv_def
    by (auto simp: new_bucket_def less_SucI dest!: set_update_cases)
next
  case (inserted i ts addr a m)
  have ins: "Insert addr a \<in> set ts" using inserted by (metis nth_mem)
  then have a: "a < length (bucket_heap m)" "\<And>c. token_buckets m c = Some a \<Longrightarrow> c = addr"
    "\<And>c. Insert c a \<in> set ts \<Longrightarrow> c = addr"
    using inserted assms(2) unfolding limit_conc_inv_def by auto
  have "limit_inv (insert_bucket addr a m)"
    using inserted assms(2) a by (auto simp: limit_conc_inv_def limit_inv_def insert_bucket_def split: if_splits)
  with inserted assms(2) a show ?thesis unfolding limit_conc_inv_def
    by (auto simp: insert_bucket_def split: if_splits dest!: set_update_cases)
next
  case (acquired i ts a now m ok m')
  then have "token_buckets m' = token_buckets m" "length (bucket_heap m') = length (bucket_heap m)"
    by (auto simp: acquire_token_def split: prod.splits)
  with acquired assms(2) show ?thesis unfolding limit_conc_inv_def limit_inv_def by (auto dest!: set_update_cases)
qed

text \<open>
  However requests interleave, no two clients ever share a token bucket, and every bucket a
  request is about to use exists.
\<close>

theorem limit_concurrent_isolation:
  assumes "limit_init config = Inr m" "(limit_step lib)\<^sup>*\<^sup>* (m, map Lookup addrs) (m', ts)"
  shows "limit_inv m' \<and> (\<forall>a. Acquire a \<in> set ts \<longrightarrow> a < length (bucket_heap m'))"
proof -
  have "limit_conc_inv (m, map Lookup addrs)"
    using assms(1) by (auto simp: limit_init_def Let_def limit_conc_inv_def limit_inv_def)
  with assms(2) have "limit_conc_inv (m', ts)"
    by (induction rule: rtranclp_induct) (auto intro: limit_step_inv)
  then show ?thesis by (simp add: limit_conc_inv_def)
qed

text \<open>
  Two first requests of one client that are looked up before either bucket is inserted both get a
  fresh bucket: both are let through even when a fresh bucket holds a single token.
\<close>

theorem limit_first_requests_race:
  assumes "limit_init config = Inr m" "tb_acquire lib now f64_1 (tb_new lib now (lm_r m) (lm_b m)) = (True, tb)"
  shows "\<exists>m'. (limit_step lib)\<^sup>*\<^sup>* (m, [Lookup addr, Lookup addr]) (m', [Answered True, Answered True])"
proof -
  have m: "token_buckets m = Map.empty" "bucket_heap m = []" using assms(1) by (auto simp: limit_init_def Let_def)
  let ?nb = "tb_new lib now (lm_r m) (lm_b m)"
  let ?m1 = "m\<lparr>bucket_heap := [?nb]\<rparr>" and ?m2 = "m\<lparr>bucket_heap := [?nb, ?nb]\<rparr>"
  let ?m3 = "insert_bucket addr 0 ?m2"
  let ?m4 = "insert_bucket addr 1 ?m3"
  let ?m5 = "?m4\<lparr>bucket_heap := [tb, ?nb]\<rparr>" and ?m6 = "?m4\<lparr>bucket_heap := [tb, tb]\<rparr>"
  have "limit_step lib (m, [Lookup addr, Lookup addr]) (?m1, [Insert addr 0, Lookup addr])"
    using limit_step.absent [of 0 "[Lookup addr, Lookup addr]" addr m lib now 0 ?m1] m by (simp add: new_bucket_def)
  moreover have "limit_step lib (?m1, [Insert addr 0, Lookup addr]) (?m2, [Insert addr 0, Insert addr 1])"
    using limit_step.absent [of 1 "[Insert addr 0, Lookup addr]" addr ?m1 lib now 1 ?m2] m by (simp add: new_bucket_def)
  moreover have "limit_step lib (?m2, [Insert addr 0, Insert addr 1]) (?m3, [Acquire 0, Insert addr 1])"
    using limit_step.inserted [of 0 "[Insert addr 0, Insert addr 1]" addr 0 lib ?m2] by simp
  moreover have "limit_step lib (?m3, [Acquire 0, Insert addr 1]) (?m4, [Acquire 0, Acquire 1])"
    using limit_step.inserted [of 1 "[Acquire 0, Insert addr 1]" addr 1 lib ?m3] by simp
  moreover have "limit_step lib (?m4, [Acquire 0, Acquire 1]) (?m5, [Answered True, Acquire 1])"
    using limit_step.acquired [of 0 "[Acquire 0, Acquire 1]" 0 lib now ?m4 True ?m5] assms(2)
    by (simp add: acquire_token_def insert_bucket_def)
  moreover have "limit_step lib (?m5, [Answered True, Acquire 1]) (?m6, [Answered True, Answered True])"
    using limit_step.acquired [of 1 "[Answered True, Acquire 1]" 1 lib now ?m5 True ?m6] assms(2)
    by (simp add: acquire_token_def insert_bucket_def)
  ultimately show ?thesis by (meson rtranclp.rtrancl_refl rtranclp.rtrancl_into_rtrancl)
qed

theorem limit_concurrent_isolation_witness:
  "\<exists>m m'. limit_init default_config = Inr m \<and>
     (limit_step counting_lib)\<^sup>*\<^sup>* (m, map Lookup [V4 1, V4 1]) (m', [Answered True, Answered True]) \<and> limit_inv m'"
proof -
  obtain m :: "nat LimitModule" where m: "limit_init default_config = Inr m" by (simp add: limit_init_def Let_def)
  have "tb_acquire counting_lib 0 f64_1 (tb_new counting_lib 0 (lm_r m) (lm_b m)) = (True, 1)" by (simp add: counting_lib_def)
  from limit_first_requests_race [OF m this, of "V4 1"] obtain m' where
    r: "(limit_step counting_lib)\<^sup>*\<^sup>* (m, map Lookup [V4 1, V4 1]) (m', [Answered True, Answered True])" by auto
  from limit_concurrent_isolation [OF m r] m r show ?thesis by blast
qed

end
