(* ===== verification/Trailing_Module.thy ===== *)
theory Trailing_Module
  imports Module_Api
begin

text \<open>
  The module that redirects a directory's path to the path with a trailing slash,
  \<open>ferron-modules-builtin/src/trailing.rs\<close>. The file system and the crate \<open>urlencoding\<close> are parameters:
  whether a path is a directory at a time (milliseconds), and the percent-decoder. The answers of the
  file system are kept in a TTL cache that all configurations share; the lemmas about it come
  from the locale \<open>ttl_store\<close>. The specification is \<open>trailing_uncached\<close>, the same decision without a cache.
\<close>

section \<open>Definitions\<close>

record trailing_env =
  url_decode :: "string \<Rightarrow> string option"
  is_dir_at :: "nat \<Rightarrow> string \<Rightarrow> bool"

text \<open>\<open>Path::join\<close>: an absolute path replaces the base.\<close>

definition path_join :: "string \<Rightarrow> string \<Rightarrow> string" where
  "path_join base p =
     (if starts_with ''/'' p then p
      else if base = [] \<or> last base = CHR ''/'' then base @ p
      else base @ ''/'' @ p)"

text \<open>What \<open>HeaderValue\<close> accepts: no control characters but the tab.\<close>

definition header_value_ok :: "string \<Rightarrow> bool" where
  "header_value_ok v \<longleftrightarrow> list_all (\<lambda>c. of_char c = (9::nat) \<or> 32 \<le> (of_char c :: nat) \<and> (of_char c :: nat) \<noteq> 127) v"

type_synonym dir_cache = "(string, bool) TtlCache"

definition trailing_cache_new :: dir_cache where
  "trailing_cache_new = ttl_new 100"

definition trailing_loader_new :: "dir_cache ModuleCache" where
  "trailing_loader_new = module_cache_new []"

text \<open>Every module is the handle of the loader's one cache.\<close>

definition trailing_load_module ::
  "'c \<Rightarrow> ('m, 'o) ServerConfiguration \<Rightarrow> 'c ModuleCache \<Rightarrow> (string + 'c) \<times> 'c ModuleCache" where
  "trailing_load_module shared config c = cache_get_or_init (\<lambda>_. Inr shared) config c"

definition trailing_requirements :: "string list" where
  "trailing_requirements = [''root'']"

definition trailing_rules :: "(string \<times> entry_check) list" where
  "trailing_rules = [(''no_trailing_redirect'', \<lambda>e. check_all
     [(length (entry_values e) \<noteq> 1, ''The `no_trailing_redirect` configuration property must have exactly one value''),
      (\<not> value_is is_bool 0 e, ''Invalid trailing slashes redirect disabling option'')])]"

definition trailing_validate_configuration ::
  "('m, 'o) ServerConfiguration \<Rightarrow> string set \<Rightarrow> (string + unit) \<times> string set" where
  "trailing_validate_configuration = validate_rules trailing_rules"

definition cache_prefix :: "ServerConfigurationFilters \<Rightarrow> string" where
  "cache_prefix f =
     (case ip f of Some a \<Rightarrow> ip_to_string a @ ''-'' | None \<Rightarrow> []) @
     (case hostname f of Some domain \<Rightarrow> domain @ ''-'' | None \<Rightarrow> [])"

definition trailing_cache_key :: "ServerConfigurationFilters \<Rightarrow> string \<Rightarrow> string" where
  "trailing_cache_key f request_path = cache_prefix f @ request_path"

definition redirect_to_directory :: "request \<Rightarrow> string + ResponseData" where
  "redirect_to_directory req =
     (let u = rp_uri (req_parts req); new_request_uri = uri_path u @ ''/'' @ query_suffix u
      in if header_value_ok new_request_uri
         then Inr (with_response req \<lparr>resp_status = 301, resp_headers = [(''location'', new_request_uri)], resp_body = []\<rparr>)
         else Inl ''failed to parse header value'')"

definition redirect_if :: "bool \<Rightarrow> request \<Rightarrow> string + ResponseData" where
  "redirect_if is_directory req = (if is_directory then redirect_to_directory req else Inr (pass_on req))"

definition relative_of :: "string \<Rightarrow> string" where
  "relative_of request_path = dropWhile (\<lambda>c. c = CHR ''/'') (drop 1 request_path)"

definition trailing_request_handler ::
  "('x) trailing_env_scheme \<Rightarrow> nat \<Rightarrow> dir_cache \<Rightarrow> request \<Rightarrow> ('m, 'o) ServerConfiguration \<Rightarrow> (string + ResponseData) \<times> dir_cache" where
  "trailing_request_handler env now c req config =
     (if option_value_bool ''no_trailing_redirect'' config then (Inr (pass_on req), c)
      else case first_value_str ''root'' config of
        None \<Rightarrow> (Inr (pass_on req), c)
      | Some wwwroot \<Rightarrow>
          (let request_path = uri_path (rp_uri (req_parts req))
           in if \<not> starts_with ''/'' request_path then (Inr (with_status req 400), c)
              else if length request_path = 1 \<or> last request_path = CHR ''/'' then (Inr (pass_on req), c)
              else let cache_key = trailing_cache_key (sc_filters config) request_path
                   in case ttl_get now cache_key c of
                        Some is_directory \<Rightarrow> (redirect_if is_directory req, c)
                      | None \<Rightarrow>
                          (case url_decode env (relative_of request_path) of
                             None \<Rightarrow> (Inr (with_status req 400), c)
                           | Some decoded_relative_path \<Rightarrow>
                               (let is_directory = is_dir_at env now (path_join wwwroot decoded_relative_path)
                                in (redirect_if is_directory req,
                                    ttl_insert now cache_key is_directory (ttl_cleanup now c))))))"

section \<open>The cache is transparent up to its lifetime\<close>

definition trailing_uncached ::
  "(string \<Rightarrow> string option) \<Rightarrow> (string \<Rightarrow> bool) \<Rightarrow> request \<Rightarrow> ('m, 'o) ServerConfiguration \<Rightarrow> string + ResponseData" where
  "trailing_uncached decode is_dir req config =
     (let p = uri_path (rp_uri (req_parts req))
      in if option_value_bool ''no_trailing_redirect'' config then Inr (pass_on req)
         else case first_value_str ''root'' config of
           None \<Rightarrow> Inr (pass_on req)
         | Some root \<Rightarrow>
             if \<not> starts_with ''/'' p then Inr (with_status req 400)
             else if length p = 1 \<or> last p = CHR ''/'' then Inr (pass_on req)
             else case decode (relative_of p) of
               None \<Rightarrow> Inr (with_status req 400)
             | Some d \<Rightarrow> redirect_if (is_dir (path_join root d)) req)"

text \<open>The question one configuration asks under a cache key.\<close>

definition dir_probe :: "('x) trailing_env_scheme \<Rightarrow> ('m, 'o) ServerConfiguration \<Rightarrow> nat \<Rightarrow> string \<Rightarrow> bool option" where
  "dir_probe env config t key =
     (let p = drop (length (cache_prefix (sc_filters config))) key
      in case (first_value_str ''root'' config, url_decode env (relative_of p)) of
           (Some root, Some d) \<Rightarrow> Some (is_dir_at env t (path_join root d))
         | _ \<Rightarrow> None)"

definition answers_fresh :: "('x) trailing_env_scheme \<Rightarrow> ('m, 'o) ServerConfiguration \<Rightarrow> nat \<Rightarrow> dir_cache \<Rightarrow> bool" where
  "answers_fresh env config T c \<longleftrightarrow> ttl c = 100 \<and> (\<forall>now k v. T \<le> now \<longrightarrow> ttl_get now k c = Some v \<longrightarrow>
     (\<exists>t \<le> now. now - t < 100 \<and> dir_probe env config t k = Some v))"

lemma dir_probe_key:
  "first_value_str ''root'' config = Some root \<Longrightarrow>
   dir_probe env config t (trailing_cache_key (sc_filters config) p) =
     map_option (\<lambda>d. is_dir_at env t (path_join root d)) (url_decode env (relative_of p))"
  by (simp add: dir_probe_def trailing_cache_key_def split: option.split)

lemma trailing_step:
  assumes "answers_fresh env config T c" "T \<le> now" "trailing_request_handler env now c req config = (r, c')"
  shows "answers_fresh env config now c' \<and>
    (\<exists>t \<le> now. now - t < 100 \<and> r = trailing_uncached (url_decode env) (is_dir_at env t) req config)"
proof -
  let ?p = "uri_path (rp_uri (req_parts req))"
  let ?k = "trailing_cache_key (sc_filters config) ?p"
  have later: "answers_fresh env config now c" using assms(1,2) by (auto simp: answers_fresh_def)
  have now: "\<exists>t \<le> now. now - t < 100 \<and> P t" if "P now" for P :: "nat \<Rightarrow> bool" using that by (intro exI [of _ now]) simp
  show ?thesis
  proof (cases "\<exists>root. first_value_str ''root'' config = Some root \<and> \<not> option_value_bool ''no_trailing_redirect'' config \<and>
      starts_with ''/'' ?p \<and> \<not> (length ?p = 1 \<or> last ?p = CHR ''/'')")
    case False
    then have "c' = c" "r = trailing_uncached (url_decode env) (is_dir_at env now) req config"
      using assms(3) by (auto simp: trailing_request_handler_def trailing_uncached_def Let_def split: option.splits if_splits)
    with later now show ?thesis by simp
  next
    case True
    then obtain root where root: "first_value_str ''root'' config = Some root" and g: "\<not> option_value_bool ''no_trailing_redirect'' config"
      "starts_with ''/'' ?p" "\<not> (length ?p = 1 \<or> last ?p = CHR ''/'')" by blast
    have spec: "trailing_uncached (url_decode env) is_dir req config = (case url_decode env (relative_of ?p) of
        None \<Rightarrow> Inr (with_status req 400) | Some d \<Rightarrow> redirect_if (is_dir (path_join root d)) req)" for is_dir
      using root g by (simp add: trailing_uncached_def)
    show ?thesis
    proof (cases "ttl_get now ?k c")
      case (Some v)
      then have h: "c' = c" "r = redirect_if v req"
        using assms(3) root g by (auto simp: trailing_request_handler_def)
      obtain t where t: "t \<le> now" "now - t < 100" "dir_probe env config t ?k = Some v"
        using assms(1,2) Some unfolding answers_fresh_def by blast
      then obtain d where "url_decode env (relative_of ?p) = Some d" "v = is_dir_at env t (path_join root d)"
        by (auto simp: dir_probe_key [OF root])
      with h t later show ?thesis by (auto simp: spec)
    next
      case None
      show ?thesis
      proof (cases "url_decode env (relative_of ?p)")
        case none: None
        then have "c' = c" "r = Inr (with_status req 400)"
          using assms(3) root g None by (simp_all add: trailing_request_handler_def)
        with later now [of "\<lambda>_. True"] none show ?thesis by (simp add: spec)
      next
        case (Some d)
        let ?v = "is_dir_at env now (path_join root d)"
        have h: "c' = ttl_insert now ?k ?v (ttl_cleanup now c)" "r = redirect_if ?v req"
          using assms(3) root g None Some by (simp_all add: trailing_request_handler_def Let_def)
        have "answers_fresh env config now c'" unfolding answers_fresh_def
        proof (intro conjI allI impI)
          show "ttl c' = 100" using assms(1) by (simp add: h answers_fresh_def)
          fix now' k v assume n: "now \<le> now'" "ttl_get now' k c' = Some v"
          show "\<exists>t \<le> now'. now' - t < 100 \<and> dir_probe env config t k = Some v"
          proof (cases "k = ?k")
            case True
            then have "now' - now < 100" "v = ?v"
              using n assms(1) by (auto simp: h tc.get_ins answers_fresh_def split: if_splits)
            then show ?thesis using True n Some by (intro exI [of _ now]) (simp add: dir_probe_key [OF root])
          next
            case False
            then show ?thesis using n later by (simp add: h tc.get_ins tc.get_clean answers_fresh_def)
          qed
        qed
        with h now Some show ?thesis by (simp add: spec)
      qed
    qed
  qed
qed

fun trailing_run ::
  "('x) trailing_env_scheme \<Rightarrow> ('m, 'o) ServerConfiguration \<Rightarrow> dir_cache \<Rightarrow> (nat \<times> request) list \<Rightarrow> (string + ResponseData) list" where
  "trailing_run env config c [] = []"
| "trailing_run env config c ((now, req) # rs) =
     (let (r, c') = trailing_request_handler env now c req config in r # trailing_run env config c' rs)"

lemma trailing_run_fresh:
  assumes "answers_fresh env config T c" "sorted (T # map fst rs)" "i < length rs" "rs ! i = (now, req)"
  shows "\<exists>t \<le> now. now - t < 100 \<and>
    trailing_run env config c rs ! i = trailing_uncached (url_decode env) (is_dir_at env t) req config"
  using assms
proof (induction rs arbitrary: T c i)
  case (Cons x rs)
  obtain n q where x: "x = (n, q)" by (cases x)
  obtain r c' where h: "trailing_request_handler env n c q config = (r, c')" by force
  have st: "answers_fresh env config n c' \<and>
    (\<exists>t \<le> n. n - t < 100 \<and> r = trailing_uncached (url_decode env) (is_dir_at env t) q config)"
    by (rule trailing_step [OF Cons.prems(1) _ h]) (use Cons.prems(2) x in simp)
  show ?case
  proof (cases i)
    case 0
    then show ?thesis using st Cons.prems(4) x h by simp
  next
    case (Suc j)
    have "\<exists>t \<le> now. now - t < 100 \<and>
        trailing_run env config c' rs ! j = trailing_uncached (url_decode env) (is_dir_at env t) req config"
      by (rule Cons.IH [of n]) (use st Cons.prems x Suc in auto)
    then show ?thesis using x h Suc by simp
  qed
qed simp

text \<open>
  For requests to one configuration, in time order, every answer is the one the uncached module
  would have given on the file system as it was at some moment of the last 100 milliseconds.
\<close>

theorem trailing_answers_fresh:
  assumes "sorted (map fst rs)" "i < length rs" "rs ! i = (now, req)"
  shows "\<exists>t \<le> now. now - t < 100 \<and>
    trailing_run env config trailing_cache_new rs ! i = trailing_uncached (url_decode env) (is_dir_at env t) req config"
proof (rule trailing_run_fresh [OF _ _ assms(2,3)])
  show "answers_fresh env config 0 trailing_cache_new" by (simp add: answers_fresh_def trailing_cache_new_def)
  show "sorted (0 # map fst rs)" using assms(1) by simp
qed

definition example_env :: trailing_env where
  "example_env = \<lparr>url_decode = Some, is_dir_at = \<lambda>t p. p = ''/srv/dir''\<rparr>"

definition root_config :: "u16 option \<Rightarrow> string \<Rightarrow> (unit, unit) ServerConfiguration" where
  "root_config pt root = default_config\<lparr>sc_entries := [(''root'', [\<lparr>entry_values = [VString root], entry_props = []\<rparr>])],
     sc_filters := (sc_filters default_config)\<lparr>port := pt\<rparr>\<rparr>"

definition path_request :: "string \<Rightarrow> request" where
  "path_request p = plain_request\<lparr>req_parts := (req_parts plain_request)\<lparr>rp_uri := \<lparr>uri_path = p, uri_query = None,
     uri_path_and_query = Some p, uri_host = None, uri_text = p\<rparr>\<rparr>\<rparr>"

theorem trailing_answers_fresh_witness:
  "\<exists>r. trailing_run example_env (root_config None ''/srv'') trailing_cache_new [(0, path_request ''/dir''), (50, path_request ''/dir'')] ! 1 = r \<and>
     r = trailing_uncached Some (\<lambda>p. p = ''/srv/dir'') (path_request ''/dir'') (root_config None ''/srv'')"
  using trailing_answers_fresh [of "[(0, path_request ''/dir''), (50, path_request ''/dir'')]" 1 50 "path_request ''/dir''"
      example_env "root_config None ''/srv''"] by (auto simp: example_env_def)

text \<open>
  The cache key leaves out the port and the root: two hosts that differ only in their port answer
  from each other's file system.
\<close>

theorem trailing_cache_crosses_ports:
  "let (r1, c1) = trailing_request_handler example_env 0 trailing_cache_new (path_request ''/dir'') (root_config (Some 80) ''/srv'');
       (r2, c2) = trailing_request_handler example_env 1 c1 (path_request ''/dir'') (root_config (Some 81) ''/other'')
   in r2 = redirect_to_directory (path_request ''/dir'') \<and>
      trailing_uncached (url_decode example_env) (is_dir_at example_env 1) (path_request ''/dir'') (root_config (Some 81) ''/other'') =
        Inr (pass_on (path_request ''/dir''))"
  by code_simp

end
