(* ===== verification/Rewrite_Module.thy ===== *)
theory Rewrite_Module
  imports Trailing_Module Matching
begin

text \<open>
  The URL rewriting module, \<open>ferron-modules-builtin/src/rewrite.rs\<close>. Parameters: the crate \<open>fancy_regex\<close>
  (compilation and replacement of the first match), the file system, and the URI constructors of the
  crate \<open>http\<close>. File metadata is kept in a TTL cache under the joined path, shared by all
  configurations; the time of a request is read once. The specification \<open>rewrite_spec\<close> applies the rules
  without a cache, each with the metadata of a moment of its own.
\<close>

section \<open>Definitions\<close>

record 'rx rewrite_env =
  rx_compile :: "string \<Rightarrow> bool \<Rightarrow> string + 'rx"
  rx_replace :: "'rx \<Rightarrow> string \<Rightarrow> string \<Rightarrow> string"
  metadata_at :: "nat \<Rightarrow> string \<Rightarrow> (bool \<times> bool) option"
  set_path_and_query :: "string \<Rightarrow> uri \<Rightarrow> string + uri"
  on_windows :: bool

record 'rx UrlRewriteRule =
  rr_regex :: 'rx
  rr_replacement :: string
  rr_is_not_directory :: bool
  rr_is_not_file :: bool
  rr_last :: bool
  rr_allow_double_slashes :: bool

type_synonym metadata_cache = "(string, bool \<times> bool) TtlCache"

definition metadata_cache_new :: metadata_cache where
  "metadata_cache_new = ttl_new 100"

definition rewrite_loader_new :: "'rx UrlRewriteRule list ModuleCache" where
  "rewrite_loader_new = module_cache_new [''rewrite'']"

definition rewrite_rule_of :: "('rx, 'x) rewrite_env_scheme \<Rightarrow> ServerConfigurationEntry \<Rightarrow> string + 'rx UrlRewriteRule" where
  "rewrite_rule_of env e =
     (case Option.bind (case entry_values e of [] \<Rightarrow> None | v # _ \<Rightarrow> Some v) as_str of
        None \<Rightarrow> Inl ''Invalid URL rewrite regular expression''
      | Some regex_str \<Rightarrow>
          (case rx_compile env regex_str (on_windows env) of
             Inl err \<Rightarrow> Inl (''Invalid URL rewrite regular expression: '' @ err)
           | Inr regex \<Rightarrow>
               (case Option.bind (case drop 1 (entry_values e) of [] \<Rightarrow> None | v # _ \<Rightarrow> Some v) as_str of
                  None \<Rightarrow> Inl ''Invalid URL rewrite replacement''
                | Some replacement \<Rightarrow>
                    Inr \<lparr>rr_regex = regex, rr_replacement = replacement, rr_is_not_directory = \<not> prop_bool ''directory'' True e,
                         rr_is_not_file = \<not> prop_bool ''file'' True e, rr_last = prop_bool ''last'' False e,
                         rr_allow_double_slashes = prop_bool ''allow_double_slashes'' False e\<rparr>)))"

fun rewrite_rules_of :: "('rx, 'x) rewrite_env_scheme \<Rightarrow> entries \<Rightarrow> string + 'rx UrlRewriteRule list" where
  "rewrite_rules_of env [] = Inr []"
| "rewrite_rules_of env (e # es) =
     (case rewrite_rule_of env e of
        Inl err \<Rightarrow> Inl err
      | Inr rule \<Rightarrow> map_sum id (\<lambda>rules. rule # rules) (rewrite_rules_of env es))"

definition rewrite_init :: "('rx, 'x) rewrite_env_scheme \<Rightarrow> ('m, 'o) ServerConfiguration \<Rightarrow> string + 'rx UrlRewriteRule list" where
  "rewrite_init env config = (case get_entries_m ''rewrite'' config of None \<Rightarrow> Inr [] | Some es \<Rightarrow> rewrite_rules_of env es)"

definition rewrite_load_module ::
  "('rx, 'x) rewrite_env_scheme \<Rightarrow> ('m, 'o) ServerConfiguration \<Rightarrow> 'rx UrlRewriteRule list ModuleCache \<Rightarrow>
     (string + 'rx UrlRewriteRule list) \<times> 'rx UrlRewriteRule list ModuleCache" where
  "rewrite_load_module env config c = cache_get_or_init (rewrite_init env) config c"

definition check_rewrite_entry :: entry_check where
  "check_rewrite_entry e = check_all
     [(length (entry_values e) \<noteq> 2, ''The `rewrite` configuration property must have exactly two values''),
      (\<not> value_is is_string 0 e, ''The URL rewrite regular expression must be a string''),
      (\<not> value_is is_string 1 e, ''The URL rewrite replacement must be a string''),
      (\<not> prop_is is_bool ''directory'' e, ''The URL rewrite disabling when it's a directory option must be boolean''),
      (\<not> prop_is is_bool ''file'' e, ''The URL rewrite disabling when it's a file option must be boolean''),
      (\<not> prop_is is_bool ''last'' e, ''The URL rewrite last rule option must be boolean''),
      (\<not> prop_is is_bool ''allow_double_slashes'' e, ''The URL rewrite double slashes allowing option must be boolean'')]"

definition rewrite_rules :: "(string \<times> entry_check) list" where
  "rewrite_rules =
     [(''rewrite'', check_rewrite_entry),
      (''rewrite_log'', \<lambda>e. check_all
         [(length (entry_values e) \<noteq> 1, ''The `rewrite_log` configuration property must have exactly one value''),
          (\<not> value_is is_bool 0 e, ''Invalid URL rewrite log enabling option'')])]"

definition rewrite_validate_configuration ::
  "('m, 'o) ServerConfiguration \<Rightarrow> string set \<Rightarrow> (string + unit) \<times> string set" where
  "rewrite_validate_configuration = validate_rules rewrite_rules"

text \<open>File metadata, from the cache or from the file system.\<close>

definition metadata_probe :: "('rx, 'x) rewrite_env_scheme \<Rightarrow> nat \<Rightarrow> string \<Rightarrow> bool \<times> bool" where
  "metadata_probe env t p = (case metadata_at env t p of Some d \<Rightarrow> d | None \<Rightarrow> (False, False))"

definition cached_metadata ::
  "('rx, 'x) rewrite_env_scheme \<Rightarrow> nat \<Rightarrow> string \<Rightarrow> metadata_cache \<Rightarrow> (bool \<times> bool) \<times> metadata_cache" where
  "cached_metadata env now joined c =
     (case ttl_get now joined c of
        Some data \<Rightarrow> (data, c)
      | None \<Rightarrow> (let data = metadata_probe env now joined in (data, ttl_insert now joined data (ttl_cleanup now c))))"

definition rewrite_path :: "string \<Rightarrow> string \<Rightarrow> string" where
  "rewrite_path wwwroot url = path_join wwwroot (hd (split_on CHR ''?'' (relative_of url)))"

definition rule_excluded :: "'rx UrlRewriteRule \<Rightarrow> bool \<times> bool \<Rightarrow> bool" where
  "rule_excluded rule d \<longleftrightarrow> rr_is_not_file rule \<and> fst d \<or> rr_is_not_directory rule \<and> snd d"

definition apply_rule :: "('rx, 'x) rewrite_env_scheme \<Rightarrow> 'rx UrlRewriteRule \<Rightarrow> string \<Rightarrow> string \<times> string" where
  "apply_rule env rule url =
     (let old = (if rr_allow_double_slashes rule then url else collapse_slashes url)
      in (old, rx_replace env (rr_regex rule) old (rr_replacement rule)))"

text \<open>The loop over the rules: \<open>None\<close> when a rewritten URL does not begin with a slash.\<close>

fun rewrite_loop ::
  "('rx, 'x) rewrite_env_scheme \<Rightarrow> nat \<Rightarrow> string option \<Rightarrow> 'rx UrlRewriteRule list \<Rightarrow> string \<Rightarrow> metadata_cache \<Rightarrow>
     string option \<times> metadata_cache" where
  "rewrite_loop env now root [] url c = (Some url, c)"
| "rewrite_loop env now root (rule # rules) url c =
     (let (skip, c') =
        (if rr_is_not_directory rule \<or> rr_is_not_file rule
         then (case root of
             Some wwwroot \<Rightarrow> (let (d, c1) = cached_metadata env now (rewrite_path wwwroot url) c in (rule_excluded rule d, c1))
           | None \<Rightarrow> (False, c))
         else (False, c))
      in if skip then rewrite_loop env now root rules url c'
         else let (old, new) = apply_rule env rule url
              in if \<not> starts_with ''/'' new then (None, c')
                 else if rr_last rule \<and> old \<noteq> new then (Some new, c')
                 else rewrite_loop env now root rules new c')"

text \<open>The handler: its result, the messages it logs and the cache.\<close>

definition replace_url :: "('rx, 'x) rewrite_env_scheme \<Rightarrow> string \<Rightarrow> request \<Rightarrow> string + request" where
  "replace_url env rewritten_url req =
     (case req_data req of
        Some d \<Rightarrow>
          if original_url d = None
          then map_sum id (\<lambda>u. req\<lparr>req_parts := (req_parts req)\<lparr>rp_uri := u\<rparr>\<rparr>) (set_path_and_query env rewritten_url (rp_uri (req_parts req)))
          else Inr req
      | None \<Rightarrow> Inr req)"

definition rewrite_request_handler ::
  "('rx, 'x) rewrite_env_scheme \<Rightarrow> nat \<Rightarrow> 'rx UrlRewriteRule list \<Rightarrow> metadata_cache \<Rightarrow> request \<Rightarrow> ('m, 'o) ServerConfiguration \<Rightarrow>
     (string + ResponseData) \<times> string list \<times> metadata_cache" where
  "rewrite_request_handler env now rules c req config =
     (let u = rp_uri (req_parts req); original = uri_path u @ query_suffix u
      in if \<not> starts_with ''/'' original then (Inr (with_status req 400), [], c)
         else case rewrite_loop env now (first_value_str ''root'' config) rules original c of
           (None, c') \<Rightarrow> (Inr (with_status req 400), [], c')
         | (Some rewritten, c') \<Rightarrow>
             if rewritten \<noteq> original
             then let logged = (if option_value_bool ''rewrite_log'' config
                      then [''URL rewritten from \"'' @ original @ ''\" to \"'' @ rewritten @ ''\"''] else [])
                  in (map_sum id pass_on (replace_url env rewritten req), logged, c')
             else (Inr (pass_on req), [], c'))"

section \<open>Validated rules load\<close>

lemma check_rewrite_entry_values:
  assumes "check_rewrite_entry e = None"
  obtains s t where "entry_values e = [VString s, VString t]"
proof -
  have l: "length (entry_values e) = 2" "is_string (entry_values e ! 0)" "is_string (entry_values e ! 1)"
    using assms unfolding check_rewrite_entry_def check_all_None_iff by (simp_all add: value_is_def)
  then obtain v w where "entry_values e = [v, w]" by (auto simp: length_Suc_conv numeral_2_eq_2)
  with l that show ?thesis by (cases v; cases w) simp_all
qed

text \<open>After validation, loading can only fail on a regular expression that does not compile.\<close>

lemma rewrite_loads:
  assumes "\<And>s. \<exists>rx. rx_compile env s (on_windows env) = Inr rx"
  shows "validated_loader rewrite_rules (rewrite_init env)"
proof
  fix config :: "('m, 'o) ServerConfiguration"
  assume acc: "accepts rewrite_rules config"
  have "\<exists>rules. rewrite_rules_of env es = Inr rules" if "\<And>e. e \<in> set es \<Longrightarrow> check_rewrite_entry e = None" for es
    using that
  proof (induction es)
    case (Cons e es)
    have "check_rewrite_entry e = None" by (simp add: Cons.prems)
    then obtain s t where e: "entry_values e = [VString s, VString t]" by (rule check_rewrite_entry_values)
    obtain rx where rx: "rx_compile env s (on_windows env) = Inr rx" using assms by blast
    have "\<exists>rules. rewrite_rules_of env es = Inr rules" by (rule Cons.IH) (simp add: Cons.prems)
    with e rx show ?case by (auto simp: rewrite_rule_of_def)
  qed simp
  moreover have "check_rewrite_entry e = None" if "get_entries_m ''rewrite'' config = Some es" "e \<in> set es" for es e
    by (rule accepts_entry [OF acc _ that]) (simp add: rewrite_rules_def)
  ultimately show "\<exists>v. rewrite_init env config = Inr v" by (simp add: rewrite_init_def split: option.split)
qed

section \<open>The rules without a cache\<close>

fun rewrite_spec :: "('rx, 'x) rewrite_env_scheme \<Rightarrow> string option \<Rightarrow> ('rx UrlRewriteRule \<times> nat) list \<Rightarrow> string \<Rightarrow> string option" where
  "rewrite_spec env root [] url = Some url"
| "rewrite_spec env root ((rule, t) # rules) url =
     (if (case root of None \<Rightarrow> False | Some wwwroot \<Rightarrow> rule_excluded rule (metadata_probe env t (rewrite_path wwwroot url)))
      then rewrite_spec env root rules url
      else let (old, new) = apply_rule env rule url
           in if \<not> starts_with ''/'' new then None
              else if rr_last rule \<and> old \<noteq> new then Some new
              else rewrite_spec env root rules new)"

lemma cached_metadata_cached: "cached_metadata env now p c = tc.cached (metadata_probe env) now p c"
  by (simp add: cached_metadata_def tc.cached_def Let_def split: option.split)

lemma ttl_cached_metadata [simp]: "ttl (snd (cached_metadata env now p c)) = ttl c"
  by (simp add: cached_metadata_def Let_def split: option.split)

lemma rewrite_loop_spec:
  assumes "tc.fresh (metadata_probe env) now c" "ttl c = 100" "rewrite_loop env now root rules url c = (res, c')"
  shows "tc.fresh (metadata_probe env) now c' \<and> ttl c' = 100 \<and>
    (\<exists>ts. length ts = length rules \<and> list_all (\<lambda>t. t \<le> now \<and> now - t < 100) ts \<and>
       res = rewrite_spec env root (zip rules ts) url)"
  using assms
proof (induction rules arbitrary: url c)
  case (Cons rule rules)
  define d where "d = cached_metadata env now (rewrite_path (the root) url) c"
  let ?asks = "(rr_is_not_directory rule \<or> rr_is_not_file rule) \<and> root \<noteq> None"
  define c1 where "c1 = (if ?asks then snd d else c)"
  have c1: "tc.fresh (metadata_probe env) now c1" "ttl c1 = 100"
    using tc.cached_fresh [OF Cons.prems(1)] Cons.prems(1,2) by (auto simp: c1_def d_def cached_metadata_cached [symmetric])
  obtain t where t: "t \<le> now" "now - t < 100" "fst d = metadata_probe env t (rewrite_path (the root) url)"
    using tc.cached_result [OF Cons.prems(1) order_refl, of "rewrite_path (the root) url"] Cons.prems(2)
    by (auto simp: d_def cached_metadata_cached)
  obtain old new where a: "apply_rule env rule url = (old, new)" by force
  have times: "\<exists>ts. length ts = length (rule # rules) \<and> list_all (\<lambda>t. t \<le> now \<and> now - t < 100) ts \<and> P ts"
    if "\<exists>ts. length ts = length rules \<and> list_all (\<lambda>t. t \<le> now \<and> now - t < 100) ts \<and> P (t # ts)" for P :: "nat list \<Rightarrow> bool"
  proof -
    from that obtain ts where "length ts = length rules" "list_all (\<lambda>t. t \<le> now \<and> now - t < 100) ts" "P (t # ts)" by blast
    with t(1,2) show ?thesis by (intro exI [of _ "t # ts"]) simp
  qed
  have some: "\<exists>ts. length ts = length rules \<and> list_all (\<lambda>t. t \<le> now \<and> now - t < 100) ts \<and> P ts" if "\<And>ts. P ts" for P :: "nat list \<Rightarrow> bool"
    using that by (intro exI [of _ "replicate (length rules) now"]) (simp add: list_all_iff)
  have ex: "(case root of None \<Rightarrow> False | Some w \<Rightarrow> rule_excluded rule (metadata_probe env t (rewrite_path w url))) \<longleftrightarrow>
      ?asks \<and> rule_excluded rule (fst d)"
    using t(3) by (cases root) (auto simp: rule_excluded_def)
  have loop: "rewrite_loop env now root (rule # rules) url c =
      (if ?asks \<and> rule_excluded rule (fst d) then rewrite_loop env now root rules url c1
       else if \<not> starts_with ''/'' new then (None, c1)
       else if rr_last rule \<and> old \<noteq> new then (Some new, c1)
       else rewrite_loop env now root rules new c1)"
    by (cases root) (auto simp: a c1_def d_def split: prod.splits)
  show ?case
  proof (cases "?asks \<and> rule_excluded rule (fst d)")
    case True
    then have "rewrite_loop env now root rules url c1 = (res, c')" using Cons.prems(3) loop by simp
    note ih = Cons.IH [OF c1 this]
    have "\<exists>ts. length ts = length rules \<and> list_all (\<lambda>t. t \<le> now \<and> now - t < 100) ts \<and>
        res = rewrite_spec env root (zip (rule # rules) (t # ts)) url" using ih ex True by simp
    from times [of "\<lambda>ts. res = rewrite_spec env root (zip (rule # rules) ts) url", OF this] ih show ?thesis by blast
  next
    case False
    show ?thesis
    proof (cases "\<not> starts_with ''/'' new \<or> rr_last rule \<and> old \<noteq> new")
      case True
      then have "c' = c1" "res = (if starts_with ''/'' new then Some new else None)"
        using Cons.prems(3) loop False by (auto split: if_splits)
      moreover from this have "res = rewrite_spec env root (zip (rule # rules) (t # ts)) url" for ts
        using True False ex a by auto
      from times [of "\<lambda>ts. res = rewrite_spec env root (zip (rule # rules) ts) url", OF some [OF this]]
      have "\<exists>ts. length ts = length (rule # rules) \<and> list_all (\<lambda>t. t \<le> now \<and> now - t < 100) ts \<and>
          res = rewrite_spec env root (zip (rule # rules) ts) url" .
      ultimately show ?thesis using c1 by blast
    next
      case go_on: False
      then have "rewrite_loop env now root rules new c1 = (res, c')" using Cons.prems(3) loop False by auto
      note ih = Cons.IH [OF c1 this]
      have "\<exists>ts. length ts = length rules \<and> list_all (\<lambda>t. t \<le> now \<and> now - t < 100) ts \<and>
          res = rewrite_spec env root (zip (rule # rules) (t # ts)) url" using ih ex go_on False a by auto
      from times [of "\<lambda>ts. res = rewrite_spec env root (zip (rule # rules) ts) url", OF this] ih show ?thesis by blast
    qed
  qed
qed simp

text \<open>
  Rewriting follows the rules in order: on a fresh cache, or any cache the module itself has
  filled, the outcome is that of the uncached rules, where each rule that looks at the file system
  sees it as it was at some moment of the last 100 milliseconds; a rule is skipped exactly
  when it excludes files or directories and the URL names one, a \<open>last\<close> rule that changed the URL ends
  the rewriting, and a URL that no longer begins with a slash makes the request bad.
\<close>

theorem rewrite_follows_rules:
  assumes "tc.fresh (metadata_probe env) now c" "ttl c = 100" "starts_with ''/'' (uri_path (rp_uri (req_parts req)))"
  shows "\<exists>ts. length ts = length rules \<and> list_all (\<lambda>t. t \<le> now \<and> now - t < 100) ts \<and>
    fst (rewrite_request_handler env now rules c req config) =
      (let original = uri_path (rp_uri (req_parts req)) @ query_suffix (rp_uri (req_parts req))
       in case rewrite_spec env (first_value_str ''root'' config) (zip rules ts) original of
            None \<Rightarrow> Inr (with_status req 400)
          | Some url \<Rightarrow> if url = original then Inr (pass_on req) else map_sum id pass_on (replace_url env url req))"
proof -
  let ?orig = "uri_path (rp_uri (req_parts req)) @ query_suffix (rp_uri (req_parts req))"
  obtain res c' where l: "rewrite_loop env now (first_value_str ''root'' config) rules ?orig c = (res, c')" by force
  have sl: "starts_with ''/'' ?orig" using assms(3) by (auto simp: starts_with_iff)
  have "fst (rewrite_request_handler env now rules c req config) =
      (case res of None \<Rightarrow> Inr (with_status req 400)
       | Some url \<Rightarrow> if url = ?orig then Inr (pass_on req) else map_sum id pass_on (replace_url env url req))"
    using l sl by (cases res) (auto simp: rewrite_request_handler_def Let_def)
  moreover from rewrite_loop_spec [OF assms(1,2) l] obtain ts where
    "length ts = length rules" "list_all (\<lambda>t. t \<le> now \<and> now - t < 100) ts"
    "res = rewrite_spec env (first_value_str ''root'' config) (zip rules ts) ?orig" by blast
  ultimately show ?thesis by (intro exI [of _ ts] conjI) (simp_all only: Let_def)
qed

definition example_rewrite_env :: "string rewrite_env" where
  "example_rewrite_env = \<lparr>rx_compile = \<lambda>s w. Inr s, rx_replace = \<lambda>rx s r. if s = rx then r else s,
     metadata_at = \<lambda>t p. if p = ''/srv/file'' then Some (True, False) else None,
     set_path_and_query = \<lambda>s u. Inr (u\<lparr>uri_path := s, uri_query := None\<rparr>), on_windows = False\<rparr>"

definition example_rule :: "string \<Rightarrow> string \<Rightarrow> bool \<Rightarrow> string UrlRewriteRule" where
  "example_rule rx r nf = \<lparr>rr_regex = rx, rr_replacement = r, rr_is_not_directory = False, rr_is_not_file = nf,
     rr_last = True, rr_allow_double_slashes = False\<rparr>"

definition tracked_request :: "string \<Rightarrow> uri option \<Rightarrow> request" where
  "tracked_request p u = (path_request p)\<lparr>req_data := Some \<lparr>auth_user = None, original_url = u, error_status_code = None\<rparr>\<rparr>"

theorem rewrite_follows_rules_witness:
  "fst (rewrite_request_handler example_rewrite_env 5 [example_rule ''/file'' ''/x'' True, example_rule ''/file'' ''/y'' False]
      metadata_cache_new (tracked_request ''/file'' None) (root_config None ''/srv'')) = Inr (pass_on (tracked_request ''/file'' None)
        \<lparr>rd_request := Some ((tracked_request ''/file'' None)\<lparr>req_parts := (req_parts (tracked_request ''/file'' None))
          \<lparr>rp_uri := \<lparr>uri_path = ''/y'', uri_query = None, uri_path_and_query = Some ''/file'', uri_host = None, uri_text = ''/file''\<rparr>\<rparr>\<rparr>)\<rparr>)"
proof -
  let ?rules = "[example_rule ''/file'' ''/x'' True, example_rule ''/file'' ''/y'' False]"
  have f: "tc.fresh (metadata_probe example_rewrite_env) 5 metadata_cache_new" "ttl metadata_cache_new = 100"
    by (simp_all add: metadata_cache_new_def fresh_ttl_new)
  have p: "starts_with ''/'' (uri_path (rp_uri (req_parts (tracked_request ''/file'' None))))" by code_simp
  have spec: "rewrite_spec example_rewrite_env (first_value_str ''root'' (root_config None ''/srv'')) [(?rules ! 0, t), (?rules ! 1, u)]
      (uri_path (rp_uri (req_parts (tracked_request ''/file'' None))) @ query_suffix (rp_uri (req_parts (tracked_request ''/file'' None)))) =
      Some ''/y''" for t u by code_simp
  from rewrite_follows_rules [OF f p, of ?rules "root_config None ''/srv''"] obtain t u where
    "fst (rewrite_request_handler example_rewrite_env 5 ?rules metadata_cache_new (tracked_request ''/file'' None) (root_config None ''/srv'')) =
      (let original = uri_path (rp_uri (req_parts (tracked_request ''/file'' None))) @ query_suffix (rp_uri (req_parts (tracked_request ''/file'' None)))
       in case rewrite_spec example_rewrite_env (first_value_str ''root'' (root_config None ''/srv'')) [(?rules ! 0, t), (?rules ! 1, u)] original of
            None \<Rightarrow> Inr (with_status (tracked_request ''/file'' None) 400)
          | Some url \<Rightarrow> if url = original then Inr (pass_on (tracked_request ''/file'' None))
              else map_sum id pass_on (replace_url example_rewrite_env url (tracked_request ''/file'' None)))"
    by (auto simp: length_Suc_conv numeral_2_eq_2)
  then show ?thesis unfolding Let_def spec
    by (simp add: replace_url_def example_rewrite_env_def tracked_request_def path_request_def plain_request_def query_suffix_def)
qed

text \<open>
  Once the original URL is recorded, as the core module does when it removes a location prefix, the
  rules run and are logged but the request keeps its URL.
\<close>

theorem rewrite_ignored_after_prefix_removal:
  assumes "req_data req = Some d" "original_url d = Some u" "fst (rewrite_request_handler env now rules c req config) = Inr r"
  shows "rd_request r = Some req"
  using assms by (auto simp: rewrite_request_handler_def Let_def replace_url_def split: if_splits option.splits prod.splits)

end
