(* ===== verification/Load_Balancer.thy ===== *)
theory Load_Balancer
  imports Module_Api
begin

text \<open>
  Choosing a backend in the reverse proxy, \<open>ferron-modules-builtin/src/optional/rproxy.rs\<close>: the load
  balancing algorithms, passive health checks and the retry loop over backends. The random number
  generator is a parameter \<open>rr\<close>: \<open>rr n g\<close> is the documented \<open>random_range(..n)\<close>, a number below \<open>n\<close>, with the
  next generator state. A tracked connection is a strong reference to a counter cell; the tracker
  maps a backend to the number of references beyond the tracker's own. \<open>Vec::remove\<close> panics out of
  range: panics are \<open>None\<close> here and shown not to happen.
\<close>

section \<open>Definitions\<close>

type_synonym backend_key = "string \<times> string option"
type_synonym backend = "string \<times> string option \<times> nat option \<times> nat option"
type_synonym connection_track = "backend_key \<rightharpoonup> nat"

datatype LoadBalancerAlgorithm =
    Random
  | RoundRobin u64
  | LeastConnections connection_track
  | TwoRandomChoices connection_track

definition backend_key_of :: "backend \<Rightarrow> backend_key" where
  "backend_key_of b = (fst b, fst (snd b))"

text \<open>Reading a count; a backend that is not tracked yet is entered with no connections.\<close>

definition tracked_count :: "backend_key \<Rightarrow> connection_track \<Rightarrow> nat" where
  "tracked_count k track = (case track k of Some n \<Rightarrow> n | None \<Rightarrow> 0)"

definition track_backend :: "backend_key \<Rightarrow> connection_track \<Rightarrow> connection_track" where
  "track_backend k track = (case track k of Some n \<Rightarrow> track | None \<Rightarrow> track(k \<mapsto> 0))"

fun least_loop ::
  "nat \<Rightarrow> backend list \<Rightarrow> nat list \<Rightarrow> nat option \<Rightarrow> connection_track \<Rightarrow> nat list \<times> connection_track" where
  "least_loop index [] min_indexes min_connections track = (min_indexes, track)"
| "least_loop index (b # bs) min_indexes min_connections track =
     (let connection_count = tracked_count (backend_key_of b) track;
          track' = track_backend (backend_key_of b) track
      in if (case min_connections of None \<Rightarrow> True | Some m \<Rightarrow> connection_count < m)
         then least_loop (Suc index) bs [index] (Some connection_count) track'
         else least_loop (Suc index) bs (min_indexes @ [index]) min_connections track')"

definition second_choice :: "nat \<Rightarrow> nat \<Rightarrow> nat \<Rightarrow> nat" where
  "second_choice n random_choice1 random_choice2 =
     (if n > 1 \<and> random_choice2 \<ge> random_choice1 then random_choice2 + 1 else random_choice2)"

definition select_backend_index ::
  "(nat \<Rightarrow> 'g \<Rightarrow> nat \<times> 'g) \<Rightarrow> LoadBalancerAlgorithm \<Rightarrow> backend list \<Rightarrow> 'g \<Rightarrow> nat \<times> LoadBalancerAlgorithm \<times> 'g" where
  "select_backend_index rr algorithm backends g =
     (case algorithm of
        TwoRandomChoices track \<Rightarrow>
          (let n = length backends;
               (random_choice1, g1) = rr n g;
               (r2, g2) = (if n > 1 then rr (n - 1) g1 else (0, g1));
               random_choice2 = second_choice n random_choice1 r2;
               key1 = backend_key_of (backends ! random_choice1);
               key2 = backend_key_of (backends ! random_choice2)
           in (if tracked_count key2 track \<ge> tracked_count key1 track then random_choice1 else random_choice2,
               TwoRandomChoices (track_backend key2 (track_backend key1 track)), g2))
      | LeastConnections track \<Rightarrow>
          (let (min_indexes, track') = least_loop 0 backends [] None track
           in case min_indexes of
                [] \<Rightarrow> (0, LeastConnections track', g)
              | [i] \<Rightarrow> (i, LeastConnections track', g)
              | _ \<Rightarrow> (let (r, g') = rr (length min_indexes) g in (min_indexes ! r, LeastConnections track', g')))
      | RoundRobin round_robin_index \<Rightarrow>
          (unat round_robin_index mod length backends, RoundRobin (round_robin_index + 1), g)
      | Random \<Rightarrow> (let (r, g') = rr (length backends) g in (r, Random, g')))"

text \<open>\<open>Vec::remove\<close>.\<close>

definition vec_remove :: "nat \<Rightarrow> 'a list \<Rightarrow> ('a \<times> 'a list) option" where
  "vec_remove i xs = (if i < length xs then Some (xs ! i, take i xs @ drop (Suc i) xs) else None)"

type_synonym failed_backends = "(backend_key, u64) TtlCache"

definition backend_healthy :: "nat \<Rightarrow> failed_backends \<Rightarrow> u64 \<Rightarrow> backend \<Rightarrow> bool" where
  "backend_healthy now failed max_fails b =
     (case ttl_get now (backend_key_of b) failed of Some fails \<Rightarrow> fails \<le> max_fails | None \<Rightarrow> True)"

function healthy_loop ::
  "(nat \<Rightarrow> 'g \<Rightarrow> nat \<times> 'g) \<Rightarrow> nat \<Rightarrow> failed_backends \<Rightarrow> u64 \<Rightarrow> backend option \<Rightarrow> backend list \<Rightarrow> LoadBalancerAlgorithm \<Rightarrow> 'g \<Rightarrow>
     (backend option \<times> backend list \<times> LoadBalancerAlgorithm \<times> 'g) option" where
  "healthy_loop rr now failed max_fails proxy_to vec algorithm g =
     (if vec = [] then Some (proxy_to, vec, algorithm, g)
      else let (index, algorithm', g') = select_backend_index rr algorithm vec g
           in case vec_remove index vec of
                None \<Rightarrow> None
              | Some (b, vec') \<Rightarrow>
                  if backend_healthy now failed max_fails b then Some (Some b, vec', algorithm', g')
                  else healthy_loop rr now failed max_fails (Some b) vec' algorithm' g')"
  by pat_completeness auto
termination
  by (relation "measure (\<lambda>(rr, now, failed, max_fails, proxy_to, vec, algorithm, g). length vec)")
    (auto simp: vec_remove_def split: if_splits)

declare healthy_loop.simps [simp del]

definition determine_proxy_to ::
  "(nat \<Rightarrow> 'g \<Rightarrow> nat \<times> 'g) \<Rightarrow> nat \<Rightarrow> failed_backends \<Rightarrow> bool \<Rightarrow> u64 \<Rightarrow> backend list \<Rightarrow> LoadBalancerAlgorithm \<Rightarrow> 'g \<Rightarrow>
     (backend option \<times> backend list \<times> LoadBalancerAlgorithm \<times> 'g) option" where
  "determine_proxy_to rr now failed enable_health_check max_fails vec algorithm g =
     (if vec = [] then Some (None, vec, algorithm, g)
      else if length vec = 1 then Some (Some (hd vec), [], algorithm, g)
      else if enable_health_check then healthy_loop rr now failed max_fails None vec algorithm g
      else let (index, algorithm', g') = select_backend_index rr algorithm vec g
           in case vec_remove index vec of None \<Rightarrow> None | Some (b, vec') \<Rightarrow> Some (Some b, vec', algorithm', g'))"

text \<open>What every failed attempt does when health checks are enabled.\<close>

definition record_failure :: "nat \<Rightarrow> backend_key \<Rightarrow> failed_backends \<Rightarrow> failed_backends" where
  "record_failure now key failed =
     ttl_insert now key (case ttl_get now key failed of None \<Rightarrow> 1 | Some x \<Rightarrow> x + 1) failed"

section \<open>Every choice is in range\<close>

definition rng_ok :: "(nat \<Rightarrow> 'g \<Rightarrow> nat \<times> 'g) \<Rightarrow> bool" where
  "rng_ok rr \<longleftrightarrow> (\<forall>n g. 0 < n \<longrightarrow> fst (rr n g) < n)"

lemma rng_okD: "rng_ok rr \<Longrightarrow> 0 < n \<Longrightarrow> rr n g = (r, g') \<Longrightarrow> r < n"
  unfolding rng_ok_def by (metis fst_conv)

lemma least_loop_indexes:
  "least_loop index bs mins mc track = (mins', track') \<Longrightarrow> (\<forall>i \<in> set mins. i < index) \<Longrightarrow>
   (\<forall>i \<in> set mins'. i < index + length bs) \<and> (bs \<noteq> [] \<or> mins \<noteq> [] \<longrightarrow> mins' \<noteq> [])"
proof (induction bs arbitrary: index mins mc track)
  case (Cons b bs)
  let ?c = "tracked_count (backend_key_of b) track"
  define mins1 where "mins1 = (if (case mc of None \<Rightarrow> True | Some m \<Rightarrow> ?c < m) then [index] else mins @ [index])"
  define mc1 where "mc1 = (if (case mc of None \<Rightarrow> True | Some m \<Rightarrow> ?c < m) then Some ?c else mc)"
  have "least_loop (Suc index) bs mins1 mc1 (track_backend (backend_key_of b) track) = (mins', track')"
    using Cons.prems(1) by (auto simp: mins1_def mc1_def Let_def split: if_splits)
  moreover have "\<forall>i \<in> set mins1. i < Suc index" using Cons.prems(2) by (auto simp: mins1_def)
  ultimately have "(\<forall>i \<in> set mins'. i < Suc index + length bs) \<and> (bs \<noteq> [] \<or> mins1 \<noteq> [] \<longrightarrow> mins' \<noteq> [])"
    by (rule Cons.IH)
  moreover have "mins1 \<noteq> []" by (simp add: mins1_def)
  ultimately show ?case by simp
qed simp

lemma select_in_range_pre:
  assumes "rng_ok rr" "backends \<noteq> []" "select_backend_index rr algorithm backends g = (i, algorithm', g')"
  shows "i < length backends"
proof (cases algorithm)
  case Random
  with assms show ?thesis by (auto simp: select_backend_index_def rng_okD split: prod.splits)
next
  case (RoundRobin w)
  with assms show ?thesis by (auto simp: select_backend_index_def)
next
  case (LeastConnections track)
  obtain mins track' where l: "least_loop 0 backends [] None track = (mins, track')" by force
  from least_loop_indexes [OF l] assms(2) have m: "\<forall>j \<in> set mins. j < length backends" "mins \<noteq> []" by auto
  obtain r g1 where r: "rr (length mins) g = (r, g1)" by force
  have "r < length mins" using rng_okD [OF assms(1) _ r] m(2) by simp
  then have "mins ! r \<in> set mins" by simp
  then have "i \<in> set mins" using assms(3) LeastConnections l r m(2)
    by (auto simp: select_backend_index_def split: list.splits)
  with m show ?thesis by blast
next
  case (TwoRandomChoices track)
  let ?n = "length backends"
  obtain c1 g1 where c1: "rr ?n g = (c1, g1)" by force
  obtain c2 g2 where c2: "(if ?n > 1 then rr (?n - 1) g1 else (0, g1)) = (c2, g2)" by force
  have "c1 < ?n" using rng_okD [OF assms(1) _ c1] assms(2) by simp
  moreover have "second_choice ?n c1 c2 < ?n"
  proof (cases "?n > 1")
    case True
    then have "c2 < ?n - 1" using rng_okD [OF assms(1), of "?n - 1" g1] c2 by simp
    then show ?thesis by (auto simp: second_choice_def)
  next
    case False
    then show ?thesis using c2 assms(2) by (auto simp: second_choice_def)
  qed
  ultimately show ?thesis
    using assms(3) TwoRandomChoices c1 c2 by (auto simp: select_backend_index_def Let_def split: if_splits prod.splits)
qed

text \<open>
  C38: Every load balancing algorithm selects an index of the backend list, whatever the random numbers
  and whatever the counters hold, the round-robin counter wrapping around included.
\<close>

theorem select_backend_index_in_range:
  assumes "rng_ok rr" "backends \<noteq> []"
  shows "fst (select_backend_index rr algorithm backends g) < length backends"
  using select_in_range_pre [OF assms] by (metis prod.collapse)

text \<open>A generator for the examples: it yields its state modulo the bound.\<close>

definition mod_rng :: "nat \<Rightarrow> nat \<Rightarrow> nat \<times> nat" where
  "mod_rng n g = (g mod n, g + 1)"

lemma rng_ok_mod_rng: "rng_ok mod_rng"
  by (simp add: rng_ok_def mod_rng_def)

theorem select_backend_index_in_range_witness:
  "fst (select_backend_index mod_rng (RoundRobin (- 1)) [(''a'', None, None, None), (''b'', None, None, None), (''c'', None, None, None)] 5) < 3"
  using select_backend_index_in_range [OF rng_ok_mod_rng,
      of "[(''a'', None, None, None), (''b'', None, None, None), (''c'', None, None, None)]" "RoundRobin (- 1)" 5]
  by simp

section \<open>What the algorithms choose\<close>

text \<open>Round robin: consecutive requests take the backends in turn.\<close>

fun select_run :: "(nat \<Rightarrow> 'g \<Rightarrow> nat \<times> 'g) \<Rightarrow> nat \<Rightarrow> LoadBalancerAlgorithm \<Rightarrow> backend list \<Rightarrow> 'g \<Rightarrow> nat list" where
  "select_run rr 0 algorithm backends g = []"
| "select_run rr (Suc k) algorithm backends g =
     (let (i, algorithm', g') = select_backend_index rr algorithm backends g in i # select_run rr k algorithm' backends g')"

lemma unat_succ: "unat (w :: u64) + 1 < 2 ^ 64 \<Longrightarrow> unat (w + 1) = unat w + 1"
  by (simp add: unat_word_ariths)

lemma round_robin_run:
  "unat w + k \<le> 2 ^ 64 \<Longrightarrow> select_run rr k (RoundRobin w) backends g = map (\<lambda>j. (unat w + j) mod length backends) [0..<k]"
proof (induction k arbitrary: w)
  case (Suc k)
  show ?case
  proof (cases "k = 0")
    case True
    then show ?thesis by (simp add: select_backend_index_def)
  next
    case False
    then have u: "unat (w + 1) = unat w + 1" using Suc.prems by (intro unat_succ) simp
    have "select_run rr k (RoundRobin (w + 1)) backends g = map (\<lambda>j. (unat w + Suc j) mod length backends) [0..<k]"
      using Suc.IH [of "w + 1"] Suc.prems u by simp
    then have "select_run rr (Suc k) (RoundRobin w) backends g =
        unat w mod length backends # map (\<lambda>j. (unat w + Suc j) mod length backends) [0..<k]"
      by (simp add: select_backend_index_def)
    also have "\<dots> = map (\<lambda>j. (unat w + j) mod length backends) [0..<Suc k]"
      by (simp add: upt_conv_Cons map_Suc_upt [symmetric] del: upt_Suc)
    finally show ?thesis .
  qed
qed simp

lemma mod_window: "0 < n \<Longrightarrow> (\<lambda>j. (a + j) mod n) ` {0..<n} = {0..<(n::nat)}"
proof -
  assume n: "0 < n"
  have "inj_on (\<lambda>j. (a + j) mod n) {0..<n}"
  proof (rule inj_onI)
    have le: "x = y" if "x \<le> y" "y < n" "(a + x) mod n = (a + y) mod n" for x y
    proof -
      have "n dvd y - x" using mod_eq_dvd_iff_nat [of "a + x" "a + y" n] that by simp
      moreover have "y - x < n" using that by simp
      ultimately have "y - x = 0" using nat_dvd_not_less by blast
      then show ?thesis using that by simp
    qed
    fix x y assume "x \<in> {0..<n}" "y \<in> {0..<n}" "(a + x) mod n = (a + y) mod n"
    then show "x = y" using le [of x y] le [of y x] by (cases "x \<le> y") auto
  qed
  moreover have "(\<lambda>j. (a + j) mod n) ` {0..<n} \<subseteq> {0..<n}" using n by auto
  ultimately show ?thesis by (simp add: card_image card_subset_eq)
qed

text \<open>
  C40: Round robin is fair: any run of as many requests as there are backends selects every backend
  exactly once, until the 64-bit counter wraps around.
\<close>

theorem round_robin_fair:
  assumes "backends \<noteq> []" "unat w + length backends \<le> 2 ^ 64"
  shows "mset (select_run rr (length backends) (RoundRobin w) backends g) = mset [0..<length backends]"
proof -
  let ?n = "length backends" and ?xs = "select_run rr (length backends) (RoundRobin w) backends g"
  have xs: "?xs = map (\<lambda>j. (unat w + j) mod ?n) [0..<?n]" by (rule round_robin_run [OF assms(2)])
  have "set ?xs = set [0..<?n]" unfolding xs using mod_window [of ?n "unat w"] assms(1) by simp
  moreover from this have "distinct ?xs" by (intro card_distinct) (simp add: xs)
  ultimately show ?thesis by (metis distinct_upt mset_set_set)
qed

theorem round_robin_fair_witness:
  "mset (select_run mod_rng 3 (RoundRobin 7) [(''a'', None, None, None), (''b'', None, None, None), (''c'', None, None, None)] 0) = {#0, 1, 2#}"
proof -
  let ?bs = "[(''a'', None, None, None), (''b'', None, None, None), (''c'', None, None, None)] :: backend list"
  have l: "length ?bs = 3" "[0..<3] = [0, 1, 2 :: nat]" by code_simp+
  have "mset (select_run mod_rng (length ?bs) (RoundRobin 7) ?bs 0) = mset [0..<length ?bs]"
    by (rule round_robin_fair) simp_all
  then show ?thesis unfolding l by simp
qed

text \<open>Two random choices: one of two different backends, and never the busier one.\<close>

lemma two_random_prefers_idle:
  assumes "rng_ok rr" "length backends > 1"
    "select_backend_index rr (TwoRandomChoices track) backends g = (i, algorithm', g')"
  shows "\<exists>j < length backends. j \<noteq> i \<and>
    tracked_count (backend_key_of (backends ! i)) track \<le> tracked_count (backend_key_of (backends ! j)) track"
proof -
  let ?n = "length backends"
  obtain c1 g1 where c1: "rr ?n g = (c1, g1)" by force
  obtain c2 g2 where c2: "rr (?n - 1) g1 = (c2, g2)" by force
  have "0 < ?n" "0 < ?n - 1" using assms(2) by linarith+
  then have b: "c1 < ?n" "c2 < ?n - 1" using rng_okD [OF assms(1) _ c1] rng_okD [OF assms(1) _ c2] by blast+
  let ?d = "second_choice ?n c1 c2"
  have d: "?d < ?n" "?d \<noteq> c1" using b assms(2) by (auto simp: second_choice_def)
  have "i = (if tracked_count (backend_key_of (backends ! ?d)) track \<ge> tracked_count (backend_key_of (backends ! c1)) track then c1 else ?d)"
    using assms(2,3) c1 c2 by (simp add: select_backend_index_def Let_def)
  then show ?thesis using b d by (cases "i = c1") (auto split: if_splits)
qed

text \<open>
  Least connections: an index joins the candidates whenever it is not a new minimum, also when
  its backend is busier than the minimum. Of an idle and a busy backend the busy one may be taken.
\<close>

theorem least_connections_takes_busy:
  assumes "backend_key_of idle \<noteq> backend_key_of busy" "track (backend_key_of idle) = Some 0" "track (backend_key_of busy) = Some n"
    "rr 2 g = (1, g')"
  shows "fst (select_backend_index rr (LeastConnections track) [idle, busy] g) = 1"
  using assms by (simp add: select_backend_index_def tracked_count_def track_backend_def numeral_2_eq_2)

section \<open>Choosing among healthy backends\<close>

lemma vec_remove_Some:
  assumes "vec_remove i xs = Some (x, ys)"
  shows "x \<in> set xs" "mset xs = add_mset x (mset ys)" "length ys < length xs"
proof -
  have i: "i < length xs" "x = xs ! i" "ys = take i xs @ drop (Suc i) xs" using assms by (auto simp: vec_remove_def split: if_splits)
  have "mset xs = mset (take i xs @ x # drop (Suc i) xs)" using i id_take_nth_drop by metis
  with i show "x \<in> set xs" "mset xs = add_mset x (mset ys)" "length ys < length xs" by auto
qed

lemma healthy_loop_result:
  assumes "rng_ok rr" "vec \<noteq> []"
  shows "\<exists>b vec' algorithm' g'. healthy_loop rr now failed max_fails prev vec algorithm g = Some (Some b, vec', algorithm', g') \<and>
    b \<in> set vec \<and> mset vec' + {#b#} \<subseteq># mset vec \<and>
    (backend_healthy now failed max_fails b \<or> vec' = [] \<and> (\<forall>x \<in> set vec. \<not> backend_healthy now failed max_fails x))"
  using assms
proof (induction rr now failed max_fails prev vec algorithm g rule: healthy_loop.induct)
  case (1 rr now failed max_fails prev vec algorithm g)
  obtain i algorithm' g' where s: "select_backend_index rr algorithm vec g = (i, algorithm', g')" by (metis prod_cases3)
  have "i < length vec" by (rule select_in_range_pre [OF "1.prems" s])
  then obtain b vec' where r: "vec_remove i vec = Some (b, vec')" by (simp add: vec_remove_def)
  note m = vec_remove_Some [OF r]
  show ?case
  proof (cases "backend_healthy now failed max_fails b")
    case True
    then have "healthy_loop rr now failed max_fails prev vec algorithm g = Some (Some b, vec', algorithm', g')"
      using s r "1.prems"(2) by (simp add: healthy_loop.simps [of rr _ _ _ _ vec])
    with True m show ?thesis by auto
  next
    case False
    then have l: "healthy_loop rr now failed max_fails prev vec algorithm g =
        healthy_loop rr now failed max_fails (Some b) vec' algorithm' g'"
      using s r "1.prems"(2) by (simp add: healthy_loop.simps [of rr _ _ _ _ vec])
    have sv: "set vec = insert b (set vec')" using m(2) by (metis set_mset_add_mset_insert set_mset_mset)
    show ?thesis
    proof (cases "vec' = []")
      case True
      then show ?thesis using l m False sv by (auto simp: healthy_loop.simps [of rr _ _ _ _ "[]"])
    next
      case more: False
      from "1.IH" [OF "1.prems"(2) s [symmetric] refl refl r refl False "1.prems"(1) more]
      obtain c vec2 a2 g2 where c: "healthy_loop rr now failed max_fails (Some b) vec' algorithm' g' = Some (Some c, vec2, a2, g2)"
        "c \<in> set vec'" "mset vec2 + {#c#} \<subseteq># mset vec'"
        "backend_healthy now failed max_fails c \<or> vec2 = [] \<and> (\<forall>x \<in> set vec'. \<not> backend_healthy now failed max_fails x)"
        by blast
      have "mset vec2 + {#c#} \<subseteq># mset vec" using c(3)
        by (rule subset_mset.order_trans) (simp add: m(2))
      then show ?thesis using c False l sv by auto
    qed
  qed
qed

text \<open>
  A backend is found whenever there is one, without a panic; it is taken out of the list of
  candidates. With health checks and several candidates, a backend with too many recent failures
  is chosen only when every candidate has too many, and then no candidate is left for a retry.
\<close>

theorem determine_proxy_to_healthy:
  assumes "rng_ok rr" "vec \<noteq> []"
  shows "\<exists>b vec' algorithm' g'. determine_proxy_to rr now failed enable max_fails vec algorithm g = Some (Some b, vec', algorithm', g') \<and>
    b \<in> set vec \<and> mset vec' + {#b#} \<subseteq># mset vec \<and>
    (enable \<and> length vec > 1 \<and> (\<exists>x \<in> set vec. backend_healthy now failed max_fails x) \<longrightarrow> backend_healthy now failed max_fails b)"
proof (cases "length vec > 1 \<and> enable")
  case True
  then have d: "determine_proxy_to rr now failed enable max_fails vec algorithm g = healthy_loop rr now failed max_fails None vec algorithm g"
    using assms(2) by (simp add: determine_proxy_to_def)
  from healthy_loop_result [OF assms, of now failed max_fails None algorithm g] show ?thesis unfolding d by blast
next
  case False
  show ?thesis
  proof (cases "length vec = 1")
    case True
    then obtain x where "vec = [x]" by (auto simp: length_Suc_conv)
    then show ?thesis by (simp add: determine_proxy_to_def)
  next
    case several: False
    then have several: "length vec > 1" using assms(2) by (cases vec; cases "tl vec") auto
    obtain i algorithm' g' where s: "select_backend_index rr algorithm vec g = (i, algorithm', g')" by (metis prod_cases3)
    have "i < length vec" by (rule select_in_range_pre [OF assms s])
    then obtain b vec' where r: "vec_remove i vec = Some (b, vec')" by (simp add: vec_remove_def)
    have "determine_proxy_to rr now failed enable max_fails vec algorithm g = Some (Some b, vec', algorithm', g')"
      using False several s r assms(2) by (simp add: determine_proxy_to_def)
    with vec_remove_Some [OF r] False several show ?thesis by auto
  qed
qed

theorem determine_proxy_to_healthy_witness:
  "\<exists>vec' algorithm' g'. determine_proxy_to mod_rng 7 (record_failure 6 (''a'', None) (record_failure 5 (''a'', None) (ttl_new 100))) True 1
      [(''a'', None, None, None), (''b'', None, None, None)] Random 0 =
      Some (Some (''b'', None, None, None), vec', algorithm', g')"
proof -
  let ?failed = "record_failure 6 (''a'', None) (record_failure 5 (''a'', None) (ttl_new 100))"
  let ?vec = "[(''a'', None, None, None), (''b'', None, None, None)] :: backend list"
  have a: "\<not> backend_healthy 7 ?failed 1 (''a'', None, None, None)" "backend_healthy 7 ?failed 1 (''b'', None, None, None)"
    by code_simp+
  from determine_proxy_to_healthy [OF rng_ok_mod_rng, of ?vec 7 ?failed True 1 Random 0] obtain b vec' algorithm' g' where
    d: "determine_proxy_to mod_rng 7 ?failed True 1 ?vec Random 0 = Some (Some b, vec', algorithm', g')" "b \<in> set ?vec"
    "backend_healthy 7 ?failed 1 b" using a by auto
  then have "b = (''b'', None, None, None)" using a by auto
  with d show ?thesis by blast
qed

end
