(* ===== verification/Core_Module.thy ===== *)
theory Core_Module
  imports Trailing_Module Matching
begin

text \<open>
  The core module, \<open>ferron-modules-builtin/src/core.rs\<close>: loading (which switches the shared flag
  \<open>has_https\<close>), validation of its properties, and the request handler (removal of a location prefix,
  \<open>X-Forwarded-For\<close>, redirects to HTTPS and to \<open>www.\<close>), with the metrics it reports. Parameters: the
  URI constructors of the crate \<open>http\<close> (\<open>core_env\<close>) and the clock. A handler that returns early or fails
  is a \<open>flow\<close>.
\<close>

section \<open>Definitions\<close>

subsection \<open>Loading\<close>

record CoreModule =
  default_http_port :: "u16 option"
  default_https_port :: "u16 option"

definition core_loader_new :: "CoreModule ModuleCache \<times> bool" where
  "core_loader_new = (module_cache_new [], False)"

text \<open>\<open>unwrap_or\<close> on \<open>auto_tls\<close>: the value given, or what host and address suggest.\<close>

definition auto_tls_or :: "bool \<Rightarrow> ('m, 'o) ServerConfiguration \<Rightarrow> bool" where
  "auto_tls_or extra config =
     (let f = sc_filters config
      in case Option.bind (get_value_m ''auto_tls'' config) as_bool of
           Some b \<Rightarrow> b
         | None \<Rightarrow> (hostname f \<noteq> None \<or> ip f \<noteq> None \<or> option_value_bool ''auto_tls_on_demand'' config) \<and> extra \<and>
             \<not> is_localhost (ip f) (hostname f))"

definition default_port :: "string \<Rightarrow> u16 \<Rightarrow> ('m, 'o) ServerConfiguration option \<Rightarrow> u16 option" where
  "default_port name dflt global_config =
     (case Option.bind (Option.bind global_config (get_entry_m name)) (\<lambda>e. case entry_values e of [] \<Rightarrow> None | v # _ \<Rightarrow> Some v) of
        None \<Rightarrow> Some dflt
      | Some v \<Rightarrow> if is_null v then None else Some (case as_i128 v of Some n \<Rightarrow> word_of_int n | None \<Rightarrow> dflt))"

definition core_init :: "('m, 'o) ServerConfiguration option \<Rightarrow> ('m, 'o) ServerConfiguration \<Rightarrow> string + CoreModule" where
  "core_init global_config config =
     Inr \<lparr>default_http_port = default_port ''default_http_port'' 80 global_config,
       default_https_port = default_port ''default_https_port'' 443 global_config\<rparr>"

definition has_https_after :: "('m, 'o) ServerConfiguration \<Rightarrow> bool \<Rightarrow> bool" where
  "has_https_after config has_https =
     (has_https \<or> \<not> is_global_non_host (sc_filters config) \<and>
        (auto_tls_or (port (sc_filters config) = None) config \<or> map_of (sc_entries config) ''tls'' \<noteq> None))"

definition core_load_module ::
  "('m, 'o) ServerConfiguration option \<Rightarrow> ('m, 'o) ServerConfiguration \<Rightarrow> CoreModule ModuleCache \<times> bool \<Rightarrow>
     (string + CoreModule) \<times> CoreModule ModuleCache \<times> bool" where
  "core_load_module global_config config = (\<lambda>(c, has_https).
     let (r, c') = cache_get_or_init (core_init global_config) config c
     in (r, c', has_https_after config has_https))"

definition core_requirements :: "string list" where
  "core_requirements = []"

subsection \<open>Validation\<close>

fun ip_text :: "ServerConfigurationValue \<Rightarrow> bool" where
  "ip_text (VString s) = (parse_ip s \<noteq> None)"
| "ip_text _ = False"

definition core_rules_tls :: "(string \<times> entry_check) list" where
  "core_rules_tls =
     [two_values ''tls'' is_string ''The path to the TLS certificate must be a string'' is_string ''The path to the TLS private key must be a string'',
      every_value ''tls_cipher_suite'' is_string ''Invalid TLS cipher suite'',
      every_value ''tls_ecdh_curve'' is_string ''Invalid ECDH curve'',
      one_value ''tls_min_version'' is_string ''The minimum TLS version must be a string'',
      one_value ''tls_max_version'' is_string ''The maximum TLS version must be a string'',
      one_value ''auto_tls'' is_bool ''Invalid automatic TLS enabling option'',
      one_value ''default_http_port'' (or_null (int_in (\<lambda>n. 0 \<le> n \<and> n \<le> 65535))) ''Invalid default HTTP port'',
      one_value ''default_https_port'' (or_null (int_in (\<lambda>n. 0 \<le> n \<and> n < 65536))) ''Invalid default HTTPS port'']"

definition core_rules_http :: "(string \<times> entry_check) list" where
  "core_rules_http =
     [one_value ''h2_initial_window_size'' is_integer ''Invalid HTTP/2 initial window size'',
      one_value ''h2_max_frame_size'' is_integer ''Invalid HTTP/2 maximum frame size'',
      one_value ''h2_max_concurrent_streams'' is_integer ''Invalid HTTP/2 maximum concurrent streams amount'',
      one_value ''h2_max_header_list_size'' is_integer ''Invalid HTTP/2 maximum header list size'',
      one_value ''h2_enable_connect_protocol'' is_bool ''Invalid HTTP/2 CONNECT protocol enabling option'',
      every_value ''protocols'' is_string ''Invalid protocol specification'',
      two_values ''header'' is_string ''The header name must be a string'' is_string ''The header value must be a string'',
      one_value ''timeout'' (or_null (int_in (\<lambda>n. 0 \<le> n))) ''Invalid HTTP server processing timeout'',
      one_value ''allow_double_slashes'' is_bool ''Invalid double slashes allowing option'',
      one_value ''server_administrator_email'' is_string ''Invalid server administrator's email address'',
      two_values ''error_page'' is_integer ''Invalid status code for an error page'' is_string ''Invalid path for an error page'']"

definition core_rules_server :: "(string \<times> entry_check) list" where
  "core_rules_server =
     [one_value ''ocsp_stapling'' is_bool ''Invalid OCSP stapling enabling option'',
      one_value ''trust_x_forwarded_for'' is_bool ''Invalid X-Forwarded-For header handling enabling option'',
      one_value ''no_redirect_to_https'' is_bool ''Invalid redirect to HTTPS disabling option'',
      one_value ''wwwredirect'' is_bool ''Invalid redirect to \"www.\" URL enabling option'',
      one_value ''listen_ip'' ip_text ''Invalid IP address to listen to'',
      one_value ''io_uring'' is_bool ''Invalid io_uring enabling option'',
      one_value ''auto_tls_contact'' (or_null is_string) ''Invalid ACME contact email address'',
      one_value ''auto_tls_cache'' (or_null is_string) ''Invalid ACME cache path'',
      one_value ''auto_tls_letsencrypt_production'' is_bool ''Invalid automatic TLS Let's Encrypt production directory enabling option'',
      one_value ''auto_tls_challenge'' is_string ''Invalid ACME challenge type'',
      one_value ''root'' (or_null is_string) ''Invalid webroot'',
      one_value ''tcp_send_buffer'' (int_in (\<lambda>n. 0 \<le> n)) ''Invalid TCP listener send buffer size'',
      one_value ''tcp_recv_buffer'' (int_in (\<lambda>n. 0 \<le> n)) ''Invalid TCP listener receive buffer size'']"

definition check_eab_entry :: entry_check where
  "check_eab_entry e = check_all
     [(\<not> (1 \<le> length (entry_values e) \<and> length (entry_values e) \<le> 2), ''The `auto_tls_eab` configuration property must have one (if disabled) or two values''),
      (\<not> value_is is_null 0 e \<and> length (entry_values e) \<noteq> 2, ''The `auto_tls_eab` configuration property must have exactly two values if enabled''),
      (\<not> value_is is_null 0 e \<and> \<not> value_is is_string 0 e, ''Invalid ACME EAB key ID''),
      (\<not> value_is is_null 0 e \<and> \<not> value_is is_string 1 e, ''Invalid ACME EAB key'')]"

text \<open>The check of \<open>log_format\<close> names \<open>log_date_format\<close> in its message, as the source does.\<close>

definition core_rules_acme :: "(string \<times> entry_check) list" where
  "core_rules_acme =
     [one_value ''header_remove'' is_string ''The header name must be a string'',
      one_value ''auto_tls_directory'' is_string ''Invalid ACME directory URL'',
      one_value ''auto_tls_no_verification'' is_bool ''Invalid ACME server TLS certificate verification disabling option'',
      one_value ''auto_tls_profile'' (or_null is_string) ''Invalid ACME profile name'',
      two_values ''header_replace'' is_string ''The header name must be a string'' is_string ''The header value must be a string'',
      one_value ''protocol_proxy'' is_bool ''Invalid PROXY protocol enabling option'',
      one_value ''auto_tls_on_demand'' is_bool ''Invalid on-demand automatic TLS enabling option'',
      one_value ''auto_tls_on_demand_ask'' (or_null is_string) ''Invalid automatic TLS on demand ask endpoint URL'',
      one_value ''auto_tls_on_demand_ask_no_verification'' is_bool
        ''Invalid automatic TLS on demand ask endpoint certificate verification disabling option'',
      (''auto_tls_eab'', check_eab_entry),
      one_value ''log_date_format'' is_string ''The date format for access logs must be a string'',
      (''log_format'', snd (one_value ''log_date_format'' is_string ''The access log format must be a string'')),
      one_value ''tls_client_certificate'' (\<lambda>v. is_bool v \<or> is_string v) ''Invalid TLS client certificate enabling option'',
      one_value ''disable_url_sanitizer'' is_bool ''Invalid URL sanitizer disabling option'']"

definition core_validate_configuration ::
  "('m, 'o) ServerConfiguration \<Rightarrow> string set \<Rightarrow> (string + unit) \<times> string set" where
  "core_validate_configuration = validate_rules (core_rules_tls @ core_rules_http @ core_rules_server @ core_rules_acme)"

subsection \<open>The request handler\<close>

record core_env =
  pq_parse :: "string \<Rightarrow> string + string"
  from_parts :: "uri \<Rightarrow> string option \<Rightarrow> string + uri"
  build_uri :: "string \<Rightarrow> string \<Rightarrow> string \<Rightarrow> string + uri"
  core_windows :: bool

record CoreModuleHandlers =
  ch_default_http_port :: "u16 option"
  ch_default_https_port :: "u16 option"
  ch_has_https :: bool

definition core_get_module_handlers :: "CoreModule \<Rightarrow> bool \<Rightarrow> CoreModuleHandlers" where
  "core_get_module_handlers m has_https =
     \<lparr>ch_default_http_port = default_http_port m, ch_default_https_port = default_https_port m, ch_has_https = has_https\<rparr>"

definition is_proxy_request :: "request \<Rightarrow> bool" where
  "is_proxy_request req =
     (let p = req_parts req
      in if rp_version p = HTTP_2 \<or> rp_version p = HTTP_3 then rp_method p = ''CONNECT'' \<and> uri_host (rp_uri p) \<noteq> None
         else uri_host (rp_uri p) \<noteq> None)"

definition path_prepared :: "bool \<Rightarrow> string \<Rightarrow> string" where
  "path_prepared windows path =
     (let p = collapse_slashes (trim_end_matches CHR ''/'' path) in if windows then to_lowercase p else p)"

definition new_path_of :: "string \<Rightarrow> string \<Rightarrow> string option" where
  "new_path_of prepared request_path =
     (if request_path = prepared then Some ''/''
      else if starts_with (prepared @ ''/'') request_path then strip_prefix prepared request_path
      else None)"

definition remember_url :: "uri \<Rightarrow> RequestData \<Rightarrow> RequestData" where
  "remember_url u d = (if original_url d = None then d\<lparr>original_url := Some u\<rparr> else d)"

definition remove_path_prefix :: "core_env \<Rightarrow> string \<Rightarrow> request \<Rightarrow> request flow" where
  "remove_path_prefix env path req =
     (let u = rp_uri (req_parts req)
      in bind_flow
           (case new_path_of (path_prepared (core_windows env) path) (uri_path u) of
              None \<Rightarrow> Go (uri_path_and_query u)
            | Some new_path \<Rightarrow> lift_sum (map_sum id Some (pq_parse env
                (case uri_path_and_query u of Some _ \<Rightarrow> new_path @ query_suffix u | None \<Rightarrow> new_path))))
         (\<lambda>pq. bind_flow (lift_sum (from_parts env u pq))
         (\<lambda>u'. Go (req\<lparr>req_parts := (req_parts req)\<lparr>rp_uri := u'\<rparr>, req_data := map_option (remember_url u) (req_data req)\<rparr>))))"

definition forwarded_address ::
  "request \<Rightarrow> ('m, 'o) ServerConfiguration \<Rightarrow> SocketData \<Rightarrow> SocketAddr option flow" where
  "forwarded_address req config socket =
     (if option_value_bool ''trust_x_forwarded_for'' config
      then case header_get ''x-forwarded-for'' (rp_headers (req_parts req)) of
          None \<Rightarrow> Go None
        | Some v \<Rightarrow> bind_flow (lift_header v) (\<lambda>x_forwarded_for.
            case split_on CHR '','' x_forwarded_for of
              [] \<Rightarrow> Stop (with_status req 400)
            | s # _ \<Rightarrow>
                (case parse_ip (replace_all '' '' [] s) of
                   None \<Rightarrow> Stop (with_status req 400)
                 | Some a \<Rightarrow> Go (Some \<lparr>sa_ip = a, sa_port = sa_port (remote_addr socket)\<rparr>)))
      else Go None)"

text \<open>The host and the port of a \<open>Host\<close> header: the last part after a colon, unless the header is a bracketed address.\<close>

definition split_host :: "string \<Rightarrow> string \<times> string option" where
  "split_host host_header =
     (let parts = split_on CHR '':'' host_header
      in if length parts > 1 \<and> \<not> (starts_with ''['' (hd parts) \<and> ends_with '']'' (last parts))
         then (join_with '':'' (butlast parts), Some (last parts))
         else (join_with '':'' parts, None))"

definition moved_permanently :: "uri \<Rightarrow> request \<Rightarrow> SocketAddr option \<Rightarrow> 'a flow" where
  "moved_permanently new_uri req new_remote_address =
     (if header_value_ok (uri_text new_uri)
      then Stop \<lparr>rd_request = Some req,
             rd_response = Some \<lparr>resp_status = 301, resp_headers = [(''location'', uri_text new_uri)], resp_body = []\<rparr>,
             rd_response_status = None, rd_response_headers = None, rd_new_remote_address = new_remote_address\<rparr>
      else Fail ''failed to parse header value'')"

definition https_wanted :: "CoreModuleHandlers \<Rightarrow> ('m, 'o) ServerConfiguration \<Rightarrow> SocketData \<Rightarrow> u16 option" where
  "https_wanted h config socket =
     (if \<not> option_value_bool ''no_redirect_to_https'' config \<and> ch_has_https h \<and> port (sc_filters config) = None \<and>
         (auto_tls_or True config \<or> map_of (sc_entries config) ''tls'' \<noteq> None)
      then case (ch_default_http_port h, ch_default_https_port h) of
          (Some http_port, Some https_port) \<Rightarrow>
            if \<not> encrypted socket \<and> sa_port (local_addr socket) = http_port then Some https_port else None
        | _ \<Rightarrow> None
      else None)"

definition redirect_to_https ::
  "core_env \<Rightarrow> CoreModuleHandlers \<Rightarrow> request \<Rightarrow> ('m, 'o) ServerConfiguration \<Rightarrow> SocketData \<Rightarrow> SocketAddr option \<Rightarrow> unit flow" where
  "redirect_to_https env h req config socket new_remote_address =
     (case https_wanted h config socket of
        None \<Rightarrow> Go ()
      | Some https_port \<Rightarrow>
          (case header_get ''host'' (rp_headers (req_parts req)) of
             None \<Rightarrow> Stop (with_status req 400)
           | Some v \<Rightarrow> bind_flow (lift_header v) (\<lambda>host_header.
               case uri_path_and_query (rp_uri (req_parts req)) of
                 None \<Rightarrow> Stop (with_status req 400)
               | Some path_and_query \<Rightarrow>
                   (let host_name = fst (split_host host_header)
                    in bind_flow (lift_sum (build_uri env ''https''
                           (if https_port = 443 then host_name else host_name @ '':'' @ dec_str (uint https_port)) path_and_query))
                         (\<lambda>new_uri. moved_permanently new_uri req new_remote_address)))))"

definition host_is_ours ::
  "CoreModuleHandlers \<Rightarrow> string \<Rightarrow> string \<times> string option \<Rightarrow> ('m, 'o) ServerConfiguration \<Rightarrow> SocketData \<Rightarrow> bool" where
  "host_is_ours h domain hp config socket =
     (case hp of (host_name, host_port) \<Rightarrow>
        host_name = domain \<and>
        (case host_port of
           None \<Rightarrow> True
         | Some p \<Rightarrow>
             (case parse_unsigned 65535 p of
                None \<Rightarrow> False
              | Some n \<Rightarrow> Some (word_of_int n) =
                  (case port (sc_filters config) of
                     Some q \<Rightarrow> Some q
                   | None \<Rightarrow> if encrypted socket then ch_default_https_port h else ch_default_http_port h))) \<and>
        \<not> starts_with ''www.'' host_name)"

definition redirect_to_www ::
  "core_env \<Rightarrow> CoreModuleHandlers \<Rightarrow> request \<Rightarrow> ('m, 'o) ServerConfiguration \<Rightarrow> SocketData \<Rightarrow> SocketAddr option \<Rightarrow> unit flow" where
  "redirect_to_www env h req config socket new_remote_address =
     (case (hostname (sc_filters config), option_value_bool ''wwwredirect'' config, header_get ''host'' (rp_headers (req_parts req))) of
        (Some domain, True, Some v) \<Rightarrow>
          bind_flow (lift_header v) (\<lambda>host_header.
            case uri_path_and_query (rp_uri (req_parts req)) of
              None \<Rightarrow> Stop (with_status req 400)
            | Some path_and_query \<Rightarrow>
                (let (host_name, host_port) = split_host host_header
                 in if host_is_ours h domain (host_name, host_port) config socket
                    then bind_flow (lift_sum (build_uri env (if encrypted socket then ''https'' else ''http'')
                             (case host_port of Some p \<Rightarrow> ''www.'' @ host_name @ '':'' @ p | None \<Rightarrow> host_name) path_and_query))
                           (\<lambda>new_uri. moved_permanently new_uri req new_remote_address)
                    else Go ()))
      | _ \<Rightarrow> Go ())"

definition core_request_handler ::
  "core_env \<Rightarrow> CoreModuleHandlers \<Rightarrow> request \<Rightarrow> ('m, 'o) ServerConfiguration \<Rightarrow> SocketData \<Rightarrow> string + ResponseData" where
  "core_request_handler env h req config socket =
     (if is_proxy_request req then Inr (pass_on req)
      else run_flow
        (bind_flow (case Option.bind (get_value_m ''UNDOCUMENTED_REMOVE_PATH_PREFIX'' config) as_str of
             None \<Rightarrow> Go req | Some path \<Rightarrow> remove_path_prefix env path req) (\<lambda>req.
         bind_flow (forwarded_address req config socket) (\<lambda>new_remote_address.
         bind_flow (redirect_to_https env h req config socket new_remote_address) (\<lambda>_.
         bind_flow (redirect_to_www env h req config socket new_remote_address) (\<lambda>_.
         Go ((pass_on req)\<lparr>rd_new_remote_address := new_remote_address\<rparr>)))))))"

subsection \<open>Metrics\<close>

text \<open>
  The messages of \<open>ferron-common/src/observability.rs\<close>. Floating-point values are their IEEE 754 bits;
  a sender receives the messages in the order they are sent, so a handler returns the list of them.
\<close>

datatype MetricType = MCounter | MGauge | MUpDownCounter | MHistogram "f64 list option"

datatype MetricValue = MF64 f64 | MU64 u64 | MI64 int

datatype MetricAttributeValue = AString string | ABool bool | AI64 int | AF64 f64

record Metric =
  metric_name :: string
  metric_attributes :: "(string \<times> MetricAttributeValue) list"
  metric_ty :: MetricType
  metric_value :: MetricValue
  metric_unit :: "string option"
  metric_description :: "string option"

record 't metric_state =
  ms_request_timer :: "'t option"
  ms_metrics_attributes :: "(string \<times> MetricAttributeValue) list option"
  ms_response_status :: "nat option"

definition metric_state_new :: "'t metric_state" where
  "metric_state_new = \<lparr>ms_request_timer = None, ms_metrics_attributes = None, ms_response_status = None\<rparr>"

definition core_response_modifying_handler :: "response \<Rightarrow> 't metric_state \<Rightarrow> response \<times> 't metric_state" where
  "core_response_modifying_handler response st = (response, st\<lparr>ms_response_status := Some (resp_status response)\<rparr>)"

fun protocol_version :: "http_version \<Rightarrow> string option" where
  "protocol_version HTTP_09 = Some ''0.9''"
| "protocol_version HTTP_10 = Some ''1.0''"
| "protocol_version HTTP_11 = Some ''1.1''"
| "protocol_version HTTP_2 = Some ''2''"
| "protocol_version HTTP_3 = Some ''3''"
| "protocol_version HTTP_other = None"

definition active_requests :: "(string \<times> MetricAttributeValue) list \<Rightarrow> int \<Rightarrow> Metric" where
  "active_requests attributes n = \<lparr>metric_name = ''http.server.active_requests'', metric_attributes = attributes,
     metric_ty = MUpDownCounter, metric_value = MI64 n, metric_unit = Some ''{request}'',
     metric_description = Some ''Number of active HTTP server requests.''\<rparr>"

definition request_attributes :: "request \<Rightarrow> SocketData \<Rightarrow> (string \<times> MetricAttributeValue) list" where
  "request_attributes req socket =
     [(''http.request.method'', AString (rp_method (req_parts req))),
      (''url.scheme'', AString (if encrypted socket then ''https'' else ''http''))] @
     (case protocol_version (rp_version (req_parts req)) of
        Some v \<Rightarrow> [(''network.protocol.name'', AString ''http''), (''network.protocol.version'', AString v)] | None \<Rightarrow> []) @
     (case Option.bind (req_data req) error_status_code of
        Some st \<Rightarrow> [(''ferron.http.request.error_status_code'', AI64 (int st))] | None \<Rightarrow> [])"

definition metric_data_before_handler ::
  "'t \<Rightarrow> request \<Rightarrow> SocketData \<Rightarrow> 't metric_state \<Rightarrow> Metric list \<times> 't metric_state" where
  "metric_data_before_handler now req socket st =
     (let attributes = request_attributes req socket
      in ([active_requests attributes 1], st\<lparr>ms_metrics_attributes := Some attributes, ms_request_timer := Some now\<rparr>))"

definition duration_buckets :: "f64 list" where
  "duration_buckets = [0x3F747AE147AE147B, 0x3F847AE147AE147B, 0x3F9999999999999A, 0x3FA999999999999A, 0x3FB3333333333333, 0x3FB999999999999A, 0x3FD0000000000000, 0x3FE0000000000000, 0x3FE8000000000000, 0x3FF0000000000000, 0x4004000000000000, 0x4014000000000000, 0x401E000000000000, 0x4024000000000000]"

definition status_attributes :: "nat \<Rightarrow> (string \<times> MetricAttributeValue) list" where
  "status_attributes st = [(''http.response.status_code'', AI64 (int st))] @
     (if 400 \<le> st \<and> st < 600 then [(''error.type'', AString (dec_str (int st)))] else [])"

definition metric_data_after_handler ::
  "('t \<Rightarrow> f64) \<Rightarrow> 't metric_state \<Rightarrow> Metric list \<times> 't metric_state" where
  "metric_data_after_handler elapsed st =
     (let attributes = (case ms_metrics_attributes st of Some a \<Rightarrow> a | None \<Rightarrow> []);
          count_attributes = attributes @ (case ms_response_status st of Some s \<Rightarrow> status_attributes s | None \<Rightarrow> [])
      in ([active_requests attributes (-1)] @
          (case ms_request_timer st of
             None \<Rightarrow> []
           | Some timer \<Rightarrow> [\<lparr>metric_name = ''http.server.request.duration'', metric_attributes = attributes,
               metric_ty = MHistogram (Some duration_buckets), metric_value = MF64 (elapsed timer), metric_unit = Some ''s'',
               metric_description = Some ''Duration of HTTP server requests.''\<rparr>]) @
          [\<lparr>metric_name = ''ferron.http.server.request_count'', metric_attributes = count_attributes, metric_ty = MCounter,
             metric_value = MU64 1, metric_unit = Some ''{request}'', metric_description = Some ''Number of HTTP server requests.''\<rparr>],
          \<lparr>ms_request_timer = None, ms_metrics_attributes = None, ms_response_status = None\<rparr>))"

section \<open>Location prefixes\<close>

text \<open>
  C28: For a request path without double slashes, and on systems other than Windows, the prefix of a location is removed
  exactly when the location matches the path; what remains is the rest of the path, or \<open>/\<close> when nothing
  remains.
\<close>

theorem prefix_removed_iff_location_matches:
  assumes "\<not> contains_sub ''//'' p"
  shows "new_path_of (path_prepared False loc) p =
    (if match_location False loc p = Some True
     then let rest = drop (length (path_prepared False loc)) p in Some (if rest = [] then ''/'' else rest)
     else None)"
proof -
  let ?q = "path_prepared False loc"
  have m: "match_location False loc p = Some (?q = p \<or> starts_with (?q @ ''/'') p)"
    using assms by (simp add: match_location_eq path_prepared_def Let_def)
  have "strip_prefix ?q p = Some (drop (length ?q) p) \<and> drop (length ?q) p \<noteq> []" if "starts_with (?q @ ''/'') p"
    using that by (auto simp: starts_with_iff strip_prefix_def)
  then show ?thesis by (auto simp: new_path_of_def m Let_def)
qed

theorem prefix_removed_iff_location_matches_witness:
  "new_path_of (path_prepared False ''/api/'') ''/api/v1'' = Some ''/v1''"
proof -
  have n: "\<not> contains_sub ''//'' ''/api/v1''" by code_simp
  have "match_location False ''/api/'' ''/api/v1'' = Some True" "path_prepared False ''/api/'' = ''/api''"
    by (simp add: match_location_eq, code_simp) code_simp
  with prefix_removed_iff_location_matches [OF n, of "''/api/''"] show ?thesis by (simp add: Let_def)
qed

text \<open>On Windows only the location is put in lower case, so a matching location is not removed.\<close>

lemma prefix_kept_on_windows:
  "match_location True ''/Api'' ''/Api/v1'' = Some True \<and> new_path_of (path_prepared True ''/Api'') ''/Api/v1'' = None"
  by (simp add: match_location_eq, code_simp)

section \<open>Redirects\<close>

text \<open>The host header of a client: the name of a host, and a port behind a colon unless it is the default one.\<close>

definition host_text :: "string \<Rightarrow> string option \<Rightarrow> string" where
  "host_text name p = name @ (case p of None \<Rightarrow> [] | Some p \<Rightarrow> '':'' @ p)"

definition plain_host :: "string \<Rightarrow> bool" where
  "plain_host name \<longleftrightarrow> CHR '':'' \<notin> set name \<or> starts_with ''['' name \<and> ends_with '']'' name"

lemma split_on_hd: "x \<noteq> c \<Longrightarrow> starts_with [x] (hd (split_on c (x # s)))"
  by (simp split: list.split)

lemma split_on_last: "x \<noteq> c \<Longrightarrow> ends_with [x] (last (split_on c (s @ [x])))"
proof (induction s)
  case (Cons a s)
  then show ?case by (cases "split_on c (s @ [x])") (auto simp: ends_with_iff split: list.splits)
qed (simp add: ends_with_iff)

lemma split_host_text:
  assumes "plain_host name" "\<And>q. p = Some q \<Longrightarrow> CHR '':'' \<notin> set q \<and> \<not> ends_with '']'' q"
  shows "split_host (host_text name p) = (name, p)"
proof (cases p)
  case None
  show ?thesis
  proof (cases "CHR '':'' \<in> set name")
    case True
    then have "starts_with ''['' name" "ends_with '']'' name" using assms(1) by (auto simp: plain_host_def)
    moreover from this(1) obtain t where "name = CHR ''['' # t" by (auto simp: starts_with_iff)
    moreover from \<open>ends_with '']'' name\<close> obtain u where "name = u @ '']''" by (auto simp: ends_with_iff)
    ultimately have "starts_with ''['' (hd (split_on CHR '':'' name))" "ends_with '']'' (last (split_on CHR '':'' name))"
      using split_on_hd [of "CHR ''[''" "CHR '':''" t] split_on_last [of "CHR '']''" "CHR '':''" u] by auto
    then show ?thesis using None by (simp add: split_host_def host_text_def join_split_on)
  qed (use None in \<open>simp add: split_host_def host_text_def split_on_single\<close>)
next
  case (Some q)
  then have "CHR '':'' \<notin> set q" "\<not> ends_with '']'' q" using assms(2) by auto
  then show ?thesis
    using Some by (simp add: split_host_def host_text_def split_on_append_sep split_on_single join_split_on Let_def
      flip: length_greater_0_conv)
qed

text \<open>
  The display of a built URI is its parts put together (crate \<open>http\<close>, for a path that starts with a
  slash).
\<close>

definition displays_parts :: "core_env \<Rightarrow> bool" where
  "displays_parts env \<longleftrightarrow> (\<forall>scheme authority pq u. starts_with ''/'' pq \<longrightarrow> build_uri env scheme authority pq = Inr u \<longrightarrow>
     uri_text u = scheme @ ''://'' @ authority @ pq)"

definition moved_to :: "string \<Rightarrow> request \<Rightarrow> ResponseData" where
  "moved_to url req = with_response req \<lparr>resp_status = 301, resp_headers = [(''location'', url)], resp_body = []\<rparr>"

text \<open>A request for which the handler has nothing to do before the redirects.\<close>

definition plain_target ::
  "request \<Rightarrow> ('m, 'o) ServerConfiguration \<Rightarrow> string \<Rightarrow> string option \<Rightarrow> string \<Rightarrow> bool" where
  "plain_target req config name p pq \<longleftrightarrow>
     \<not> is_proxy_request req \<and> get_value_m ''UNDOCUMENTED_REMOVE_PATH_PREFIX'' config = None \<and>
     \<not> option_value_bool ''trust_x_forwarded_for'' config \<and>
     header_get ''host'' (rp_headers (req_parts req)) = Some (host_text name p) \<and>
     header_to_str (host_text name p) = Some (host_text name p) \<and> plain_host name \<and>
     (case p of None \<Rightarrow> True | Some q \<Rightarrow> CHR '':'' \<notin> set q \<and> \<not> ends_with '']'' q) \<and>
     uri_path_and_query (rp_uri (req_parts req)) = Some pq \<and> starts_with ''/'' pq"

lemma plain_target_split: "plain_target req config name p pq \<Longrightarrow> split_host (host_text name p) = (name, p)"
  by (rule split_host_text) (auto simp: plain_target_def)

lemma moved_permanently_eq:
  assumes "displays_parts env" "starts_with ''/'' pq" "build_uri env scheme authority pq = Inr u"
    "header_value_ok (scheme @ ''://'' @ authority @ pq)"
  shows "bind_flow (lift_sum (build_uri env scheme authority pq)) (\<lambda>new_uri. moved_permanently new_uri req None) =
    Stop (moved_to (scheme @ ''://'' @ authority @ pq) req)"
proof -
  have "uri_text u = scheme @ ''://'' @ authority @ pq" using assms(1-3) by (simp add: displays_parts_def)
  with assms(3,4) show ?thesis by (simp add: moved_permanently_def moved_to_def)
qed

text \<open>A server for the examples: a URI library that puts the parts together, and the host \<open>example.org\<close>.\<close>

definition example_core_env :: core_env where
  "example_core_env = \<lparr>pq_parse = Inr, from_parts = \<lambda>u pq. Inr (u\<lparr>uri_path_and_query := pq\<rparr>),
     build_uri = \<lambda>scheme authority pq. Inr \<lparr>uri_path = takeWhile (\<lambda>c. c \<noteq> CHR ''?'') pq, uri_query = None,
       uri_path_and_query = Some pq, uri_host = Some authority, uri_text = scheme @ ''://'' @ authority @ pq\<rparr>,
     core_windows = False\<rparr>"

lemma example_displays_parts: "displays_parts example_core_env"
  by (auto simp: displays_parts_def example_core_env_def)

definition example_host :: "bool \<Rightarrow> (unit, unit) ServerConfiguration" where
  "example_host www = default_config\<lparr>sc_entries := [(''wwwredirect'', [\<lparr>entry_values = [VBool www], entry_props = []\<rparr>])],
     sc_filters := (sc_filters default_config)\<lparr>hostname := Some ''example.org''\<rparr>\<rparr>"

definition host_request :: "string \<Rightarrow> request" where
  "host_request host = plain_request\<lparr>req_parts := (req_parts plain_request)\<lparr>rp_headers := [(''host'', host)]\<rparr>\<rparr>"

definition example_handlers :: "bool \<Rightarrow> CoreModuleHandlers" where
  "example_handlers https = \<lparr>ch_default_http_port = Some 80, ch_default_https_port = Some 8443, ch_has_https = https\<rparr>"

text \<open>
  C30: An unencrypted request that arrives on the default HTTP port of a server that has HTTPS, for a site without a port
  of its own that uses TLS and does not turn the redirect off, is answered with a permanent redirect to the same host,
  path and query over HTTPS; the port of the request is dropped and the HTTPS port is given unless it is 443.
  This is for requests with a Host header (bracketed IPv6 addresses stay whole) that are not proxy requests, where the
  location does not remove its prefix from the path and \<open>trust_x_forwarded_for\<close> is off.
\<close>

theorem https_redirect_target:
  assumes "displays_parts env" "plain_target req config name p pq"
    "ch_has_https h" "ch_default_http_port h = Some http_port" "ch_default_https_port h = Some https_port"
    "\<not> encrypted socket" "sa_port (local_addr socket) = http_port"
    "\<not> option_value_bool ''no_redirect_to_https'' config" "port (sc_filters config) = None"
    "auto_tls_or True config \<or> map_of (sc_entries config) ''tls'' \<noteq> None"
    "authority = name @ (if https_port = 443 then [] else '':'' @ dec_str (uint https_port))"
    "build_uri env ''https'' authority pq = Inr u" "header_value_ok (''https://'' @ authority @ pq)"
  shows "core_request_handler env h req config socket = Inr (moved_to (''https://'' @ authority @ pq) req)"
proof -
  have a: "(if https_port = 443 then name else name @ '':'' @ dec_str (uint https_port)) = authority"
    using assms(11) by simp
  have w: "https_wanted h config socket = Some https_port" using assms(3-10) by (simp add: https_wanted_def)
  have "redirect_to_https env h req config socket None = Stop (moved_to (''https://'' @ authority @ pq) req)"
    using moved_permanently_eq [OF assms(1) _ assms(12)] assms(2,13) w plain_target_split [OF assms(2)]
    by (simp add: redirect_to_https_def plain_target_def lift_header_def a [simplified])
  with assms(2) show ?thesis by (simp add: core_request_handler_def plain_target_def forwarded_address_def)
qed

theorem https_redirect_target_witness:
  "core_request_handler example_core_env (example_handlers True) (host_request ''example.org:80'') (example_host False) (client_socket (V4 1)) =
     Inr (moved_to ''https://example.org:8443/'' (host_request ''example.org:80''))"
proof -
  have p: "plain_target (host_request ''example.org:80'') (example_host False) ''example.org'' (Some ''80'') ''/''" by code_simp
  have w: "ch_has_https (example_handlers True)" "ch_default_http_port (example_handlers True) = Some 80"
    "ch_default_https_port (example_handlers True) = Some 8443" "\<not> encrypted (client_socket (V4 1))" "sa_port (local_addr (client_socket (V4 1))) = 80"
    "\<not> option_value_bool ''no_redirect_to_https'' (example_host False)" "port (sc_filters (example_host False)) = None"
    "auto_tls_or True (example_host False) \<or> map_of (sc_entries (example_host False)) ''tls'' \<noteq> None" by code_simp+
  have a: "''example.org:8443'' = ''example.org'' @ (if (8443 :: u16) = 443 then [] else '':'' @ dec_str (uint (8443 :: u16)))"
    by code_simp
  have b: "build_uri example_core_env ''https'' ''example.org:8443'' ''/'' = Inr \<lparr>uri_path = ''/'', uri_query = None,
      uri_path_and_query = Some ''/'', uri_host = Some ''example.org:8443'', uri_text = ''https://example.org:8443/''\<rparr>" by code_simp
  have h: "header_value_ok (''https://'' @ ''example.org:8443'' @ ''/'')" by code_simp
  show ?thesis using https_redirect_target [OF example_displays_parts p w a b h] by simp
qed

text \<open>
  With \<open>wwwredirect\<close>, a request to the configured host whose \<open>Host\<close> header has no port is
  redirected to the very URL it asked for, without \<open>www.\<close>: a client that follows the redirect sends
  the same request again.
\<close>

theorem www_redirect_to_itself:
  assumes "displays_parts env" "plain_target req config domain None pq" "https_wanted h config socket = None"
    "hostname (sc_filters config) = Some domain" "option_value_bool ''wwwredirect'' config" "\<not> starts_with ''www.'' domain"
    "scheme = (if encrypted socket then ''https'' else ''http'')"
    "build_uri env scheme domain pq = Inr u" "header_value_ok (scheme @ ''://'' @ domain @ pq)"
  shows "core_request_handler env h req config socket =
    Inr (moved_to (scheme @ ''://'' @ host_text domain None @ pq) req)"
proof -
  have "redirect_to_www env h req config socket None = Stop (moved_to (scheme @ ''://'' @ domain @ pq) req)"
    using moved_permanently_eq [OF assms(1) _ assms(8,9)] assms(2,4-6) plain_target_split [OF assms(2)]
    by (simp only: redirect_to_www_def assms(7) [symmetric]) (simp add: plain_target_def lift_header_def host_is_ours_def)
  with assms(2,3) show ?thesis
    by (simp add: core_request_handler_def plain_target_def forwarded_address_def redirect_to_https_def host_text_def)
qed

theorem www_redirect_to_itself_witness:
  "core_request_handler example_core_env (example_handlers False) (host_request ''example.org'') (example_host True) (client_socket (V4 1)) =
     Inr (moved_to ''http://example.org/'' (host_request ''example.org''))"
proof -
  have p: "plain_target (host_request ''example.org'') (example_host True) ''example.org'' None ''/''" by code_simp
  have w: "https_wanted (example_handlers False) (example_host True) (client_socket (V4 1)) = None" by code_simp
  have c: "hostname (sc_filters (example_host True)) = Some ''example.org''" "option_value_bool ''wwwredirect'' (example_host True)"
    "\<not> starts_with ''www.'' ''example.org''" by code_simp+
  have s: "''http'' = (if encrypted (client_socket (V4 1)) then ''https'' else ''http'')" by code_simp
  have b: "build_uri example_core_env ''http'' ''example.org'' ''/'' = Inr \<lparr>uri_path = ''/'', uri_query = None,
      uri_path_and_query = Some ''/'', uri_host = Some ''example.org'', uri_text = ''http://example.org/''\<rparr>" by code_simp
  have h: "header_value_ok (''http'' @ ''://'' @ ''example.org'' @ ''/'')" by code_simp
  show ?thesis using www_redirect_to_itself [OF example_displays_parts p w c s b h] by (simp add: host_text_def)
qed

section \<open>Ports and the HTTPS flag\<close>

interpretation core_loader: validated_loader "core_rules_tls @ core_rules_http @ core_rules_server @ core_rules_acme" "core_init global"
  for global :: "('m, 'o) ServerConfiguration option"
  by unfold_locales (simp add: core_init_def)

lemma core_loads:
  "fst (core_validate_configuration config used) = Inr () \<Longrightarrow> \<exists>v c'. cache_get_or_init (core_init global) config c = (Inr v, c')"
  by (simp add: core_validate_configuration_def core_loader.load_validated)

text \<open>
  The ports the module uses are the ones the validated global configuration gives, none for a
  null, and 80 and 443 where it gives none.
\<close>

theorem core_ports_as_configured:
  assumes "fst (core_validate_configuration global {}) = Inr ()"
    "name = ''default_http_port'' \<and> dflt = 80 \<or> name = ''default_https_port'' \<and> dflt = 443"
  shows "map_option uint (default_port name dflt (Some global)) =
    (case get_value_m name global of
       None \<Rightarrow> Some (uint dflt)
     | Some v \<Rightarrow> as_i128 v)"
proof -
  let ?ok = "or_null (int_in (\<lambda>n. 0 \<le> n \<and> n \<le> 65535))"
  have acc: "accepts (core_rules_tls @ core_rules_http @ core_rules_server @ core_rules_acme) global"
    using assms(1) by (simp add: core_validate_configuration_def validate_rules_accepts)
  have same: "(\<lambda>n. 0 \<le> n \<and> n < 65536) = (\<lambda>n::int. 0 \<le> n \<and> n \<le> 65535)" by auto
  obtain msg where m: "one_value name ?ok msg \<in> set core_rules_tls"
    using assms(2) by (auto simp: core_rules_tls_def same)
  have ok: "?ok v" if "get_value_m name global = Some v" for v
    using one_value_accepted [OF acc _ that, of ?ok msg] m by simp
  have d: "default_port name dflt (Some global) = (case get_value_m name global of None \<Rightarrow> Some dflt
      | Some v \<Rightarrow> if is_null v then None else Some (case as_i128 v of Some n \<Rightarrow> word_of_int n | None \<Rightarrow> dflt))"
    by (simp add: default_port_def first_of_entry)
  show ?thesis
  proof (cases "get_value_m name global")
    case (Some v)
    with ok show ?thesis by (cases v) (auto simp: d or_null_def uint_word_of_int)
  qed (simp add: d)
qed

theorem core_ports_as_configured_witness:
  "map_option uint (default_port ''default_http_port'' 80 (Some (default_config\<lparr>sc_entries :=
     [(''default_http_port'', [\<lparr>entry_values = [VInteger 8080], entry_props = []\<rparr>])]\<rparr>))) = Some 8080"
proof -
  let ?g = "default_config\<lparr>sc_entries := [(''default_http_port'', [\<lparr>entry_values = [VInteger 8080], entry_props = []\<rparr>])]\<rparr>"
  have v: "fst (core_validate_configuration ?g {}) = Inr ()" by code_simp
  have "get_value_m ''default_http_port'' ?g = Some (VInteger 8080)" by code_simp
  with core_ports_as_configured [OF v, of "''default_http_port''" 80] show ?thesis by simp
qed

text \<open>
  After any sequence of loads, the flag \<open>has_https\<close> all handlers read is set exactly when one of
  the loaded host configurations uses TLS.
\<close>

theorem has_https_iff:
  "snd (foldl (\<lambda>st config. snd (core_load_module global config st)) core_loader_new configs) =
     (\<exists>config \<in> set configs. has_https_after config False)"
proof -
  have "snd (foldl (\<lambda>st config. snd (core_load_module global config st)) st configs) =
      (snd st \<or> (\<exists>config \<in> set configs. has_https_after config False))" for st
  proof (induction configs arbitrary: st)
    case (Cons config configs)
    have "snd (snd (core_load_module global config st)) = (snd st \<or> has_https_after config False)"
      by (cases st) (auto simp: core_load_module_def has_https_after_def split: prod.split)
    with Cons.IH [of "snd (core_load_module global config st)"] show ?case by auto
  qed simp
  then show ?thesis by (simp add: core_loader_new_def)
qed

section \<open>Metrics\<close>

text \<open>The value of an up-down counter for one set of attributes: the sum of the numbers sent.\<close>

fun counter_value :: "Metric \<Rightarrow> string \<Rightarrow> (string \<times> MetricAttributeValue) list \<Rightarrow> int" where
  "counter_value m name attributes =
     (if metric_name m = name \<and> metric_attributes m = attributes
      then case metric_value m of MI64 n \<Rightarrow> n | MU64 n \<Rightarrow> uint n | MF64 _ \<Rightarrow> 0 else 0)"

definition counter_total :: "string \<Rightarrow> (string \<times> MetricAttributeValue) list \<Rightarrow> Metric list \<Rightarrow> int" where
  "counter_total name attributes ms = sum_list (map (\<lambda>m. counter_value m name attributes) ms)"

text \<open>
  For every request that runs through the handlers, with or without a response, the counter of
  active requests goes back to its value before, for every set of attributes, and one request is
  counted, under the attributes of the request and of its response.
\<close>

theorem metrics_balance:
  "let count_attributes = request_attributes req socket @
        (case response of None \<Rightarrow> [] | Some r \<Rightarrow> status_attributes (resp_status r));
      (ms1, st1) = metric_data_before_handler now req socket metric_state_new;
      st2 = (case response of None \<Rightarrow> st1 | Some r \<Rightarrow> snd (core_response_modifying_handler r st1));
      (ms2, st3) = metric_data_after_handler elapsed st2
    in counter_total ''http.server.active_requests'' attributes (ms1 @ ms2) = 0 \<and>
       counter_total ''ferron.http.server.request_count'' attributes (ms1 @ ms2) = (if attributes = count_attributes then 1 else 0) \<and>
       st3 = metric_state_new"
  by (cases response)
    (auto simp: metric_data_before_handler_def metric_data_after_handler_def core_response_modifying_handler_def
      metric_state_new_def counter_total_def active_requests_def Let_def)

end
