(* ===== verification/File_Stream.thy ===== *)
theory File_Stream
  imports Prelude
begin

text \<open>
  Streaming a part of a file: \<open>monoio_file_stream_no_spawn.rs\<close> and the reading task of
  \<open>monoio_file_stream.rs\<close> in \<open>ferron-common/src/util\<close>. The operating system is a list of the outcomes of
  the polled reads: not ready yet, an error, or a number of bytes it is willing to deliver, which
  may be less than asked for. Positions are 64-bit words as in the source. The channel between the
  task of \<open>MonoioFileStream\<close> and its reader keeps the order of its items, so the task is the list of
  the items it sends; its cancellation is not modelled.
\<close>

section \<open>Definitions\<close>

abbreviation "MAX_BUFFER_SIZE \<equiv> 16384 :: nat"

datatype read_outcome = Not_Ready | Read_Error string | Read_Bytes nat

record MonoioFileStreamNoSpawn =
  fs_file :: bytes
  fs_current_pos :: u64
  fs_end :: "u64 option"
  fs_finished :: bool
  fs_read_future :: "u64 option"

definition file_stream_new :: "bytes \<Rightarrow> u64 option \<Rightarrow> u64 option \<Rightarrow> MonoioFileStreamNoSpawn" where
  "file_stream_new file start end' = \<lparr>fs_file = file, fs_current_pos = (case start of Some s \<Rightarrow> s | None \<Rightarrow> 0),
     fs_end = end', fs_finished = False, fs_read_future = None\<rparr>"

definition buffer_size :: "u64 option \<Rightarrow> u64 \<Rightarrow> nat" where
  "buffer_size end' pos = (case end' of None \<Rightarrow> MAX_BUFFER_SIZE | Some n \<Rightarrow> min (unat (n - pos)) MAX_BUFFER_SIZE)"

text \<open>\<open>None\<close> is a read that is not ready.\<close>

definition read_chunk :: "bytes \<Rightarrow> u64 \<Rightarrow> u64 option \<Rightarrow> read_outcome \<Rightarrow> (string + bytes) option poll" where
  "read_chunk file pos end' outcome =
     (let size = buffer_size end' pos
      in if size = 0 then Ready None
         else case outcome of
           Not_Ready \<Rightarrow> Pending
         | Read_Error e \<Rightarrow> Ready (Some (Inl e))
         | Read_Bytes k \<Rightarrow>
             (let chunk = take (min size k) (drop (unat pos) file)
              in Ready (if chunk = [] then None else Some (Inr chunk))))"

definition file_poll_next ::
  "MonoioFileStreamNoSpawn \<Rightarrow> read_outcome \<Rightarrow> (string + bytes) option poll \<times> MonoioFileStreamNoSpawn" where
  "file_poll_next s outcome =
     (if fs_finished s then (Ready None, s)
      else let pos = (case fs_read_future s of None \<Rightarrow> fs_current_pos s | Some p \<Rightarrow> p);
               taken = s\<lparr>fs_read_future := None\<rparr>
        in case read_chunk (fs_file s) pos (fs_end s) outcome of
             Pending \<Rightarrow> (Pending, s\<lparr>fs_read_future := Some pos\<rparr>)
           | Ready (Some (Inr chunk)) \<Rightarrow>
               (let current_pos = fs_current_pos s + of_nat (length chunk)
                in (Ready (Some (Inr chunk)), taken\<lparr>fs_current_pos := current_pos,
                      fs_finished := (case fs_end s of Some n \<Rightarrow> current_pos \<ge> n | None \<Rightarrow> False)\<rparr>))
           | Ready (Some (Inl e)) \<Rightarrow> (Ready (Some (Inl e)), taken)
           | Ready None \<Rightarrow> (Ready None, taken\<lparr>fs_finished := True\<rparr>))"

text \<open>The task of \<open>MonoioFileStream\<close>: the items it sends for the reads that completed.\<close>

fun file_task :: "bytes \<Rightarrow> u64 \<Rightarrow> u64 option \<Rightarrow> read_outcome list \<Rightarrow> (string + bytes) list" where
  "file_task file pos end' [] = []"
| "file_task file pos end' (outcome # outcomes) =
     (case read_chunk file pos end' outcome of
        Pending \<Rightarrow> file_task file pos end' outcomes
      | Ready None \<Rightarrow> []
      | Ready (Some (Inl e)) \<Rightarrow> [Inl e]
      | Ready (Some (Inr chunk)) \<Rightarrow> Inr chunk # file_task file (pos + of_nat (length chunk)) end' outcomes)"

section \<open>What a reader receives\<close>

text \<open>
  A reader that polls until the end and goes on after an error: the bytes it received, and whether
  it saw the end.
\<close>

fun file_drain :: "MonoioFileStreamNoSpawn \<Rightarrow> read_outcome list \<Rightarrow> bytes \<times> bool" where
  "file_drain s [] = ([], False)"
| "file_drain s (outcome # outcomes) =
     (case file_poll_next s outcome of
        (Pending, s') \<Rightarrow> file_drain s' outcomes
      | (Ready None, s') \<Rightarrow> ([], True)
      | (Ready (Some (Inl e)), s') \<Rightarrow> file_drain s' outcomes
      | (Ready (Some (Inr chunk)), s') \<Rightarrow> (let (bs, ended) = file_drain s' outcomes in (chunk @ bs, ended)))"

definition byte_slice :: "bytes \<Rightarrow> nat \<Rightarrow> nat \<Rightarrow> bytes" where
  "byte_slice file a b = take (b - a) (drop a file)"

text \<open>The system makes progress: a read that is ready and no error delivers something.\<close>

definition progressing :: "read_outcome list \<Rightarrow> bool" where
  "progressing outcomes \<longleftrightarrow> Read_Bytes 0 \<notin> set outcomes"

definition completed_reads :: "read_outcome list \<Rightarrow> nat" where
  "completed_reads outcomes = length (filter (\<lambda>x. case x of Read_Bytes _ \<Rightarrow> True | _ \<Rightarrow> False) outcomes)"

definition in_range :: "MonoioFileStreamNoSpawn \<Rightarrow> u64 \<Rightarrow> bool" where
  "in_range s b \<longleftrightarrow> fs_end s = Some b \<and> fs_current_pos s \<le> b \<and> fs_read_future s \<in> {None, Some (fs_current_pos s)} \<and>
     (fs_finished s \<longrightarrow> byte_slice (fs_file s) (unat (fs_current_pos s)) (unat b) = [])"

lemma read_chunk_cases:
  assumes "pos \<le> b" "outcome \<noteq> Read_Bytes 0"
  obtains (quiet) "\<forall>k. outcome \<noteq> Read_Bytes k" "buffer_size (Some b) pos \<noteq> 0"
  | (empty) "byte_slice content (unat pos) (unat b) = []" "read_chunk content pos (Some b) outcome = Ready None"
  | (bytes) chunk n where "chunk \<noteq> []" "chunk = take n (drop (unat pos) content)" "n \<le> unat b - unat pos"
      "read_chunk content pos (Some b) outcome = Ready (Some (Inr chunk))"
proof -
  let ?size = "buffer_size (Some b) pos"
  have size: "?size = min (unat b - unat pos) MAX_BUFFER_SIZE" using assms(1) by (simp add: buffer_size_def unat_sub)
  show ?thesis
  proof (cases "?size = 0")
    case True
    then show ?thesis using empty size by (simp add: read_chunk_def byte_slice_def split: if_splits)
  next
    case False
    show ?thesis
    proof (cases outcome)
      case (Read_Bytes k)
      let ?chunk = "take (min ?size k) (drop (unat pos) content)"
      show ?thesis
      proof (cases "?chunk = []")
        case True
        then have "length content \<le> unat pos" using False Read_Bytes assms(2) by auto
        then show ?thesis using empty Read_Bytes by (simp add: read_chunk_def byte_slice_def Let_def)
      next
        case more: False
        have "read_chunk content pos (Some b) outcome = Ready (Some (Inr ?chunk))"
          using False more by (auto simp: read_chunk_def Read_Bytes Let_def)
        with bytes [OF more refl] size show ?thesis by simp
      qed
    qed (use quiet False in auto)
  qed
qed

text \<open>One poll: nothing, the end of the range, or the next bytes of it.\<close>

lemma poll_in_range:
  assumes "in_range s b" "outcome \<noteq> Read_Bytes 0" "file_poll_next s outcome = (r, s')"
  defines "rest \<equiv> byte_slice (fs_file s) (unat (fs_current_pos s)) (unat b)"
    and "rest' \<equiv> byte_slice (fs_file s') (unat (fs_current_pos s')) (unat b)"
  shows "in_range s' b \<and>
    (case r of
       Pending \<Rightarrow> rest' = rest \<and> (\<forall>k. outcome \<noteq> Read_Bytes k)
     | Ready None \<Rightarrow> rest = []
     | Ready (Some (Inl e)) \<Rightarrow> rest' = rest \<and> (\<forall>k. outcome \<noteq> Read_Bytes k)
     | Ready (Some (Inr chunk)) \<Rightarrow> chunk \<noteq> [] \<and> rest = chunk @ rest')"
proof -
  let ?a = "fs_current_pos s"
  note inv = assms(1) [unfolded in_range_def]
  have pos: "(case fs_read_future s of None \<Rightarrow> ?a | Some p \<Rightarrow> p) = ?a" using inv by auto
  show ?thesis
  proof (cases "fs_finished s")
    case True
    then show ?thesis using assms(3) inv assms(1) by (auto simp: file_poll_next_def rest_def)
  next
    case False
    note step = assms(3) [unfolded file_poll_next_def, simplified False pos Let_def, simplified]
    have e: "fs_end s = Some b" "?a \<le> b" using inv by simp_all
    show ?thesis using e(2) assms(2)
    proof (cases rule: read_chunk_cases [where content = "fs_file s"])
      case quiet
      then show ?thesis using step inv
        by (cases outcome) (auto simp: read_chunk_def Let_def in_range_def rest_def rest'_def False e(1))
    next
      case empty
      have "r = Ready None" "s' = s\<lparr>fs_read_future := None, fs_finished := True\<rparr>"
        using step empty(2) by (simp_all add: e(1))
      with empty(1) inv show ?thesis by (simp add: in_range_def rest_def)
    next
      case (bytes chunk n)
      let ?l = "length chunk"
      have l: "?l \<le> unat b - unat ?a" "chunk = take ?l (drop (unat ?a) (fs_file s))" using bytes(2,3) by (auto simp: min_def)
      have fits: "unat ?a + ?l \<le> unat b" using l(1) e(2) unfolding word_le_nat_alt by linarith
      have "unat b < 2 ^ 64" using unsigned_less [of b] by simp
      then have u: "unat (?a + of_nat ?l) = unat ?a + ?l" using fits
        by (simp add: unat_word_ariths unat_of_nat take_bit_eq_mod)
      have "rest = chunk @ byte_slice (fs_file s) (unat ?a + ?l) (unat b)"
      proof -
        have e': "unat b - unat ?a = ?l + (unat b - (?l + unat ?a))" using fits by simp
        show ?thesis
          using l(2) take_add [of ?l "unat b - (?l + unat ?a)" "drop (unat ?a) (fs_file s)"]
          by (simp add: rest_def byte_slice_def add.commute [of "unat ?a"] flip: e')
      qed
      moreover have "?a + of_nat ?l \<le> b" using fits u by (simp add: word_le_nat_alt)
      moreover have "s' = s\<lparr>fs_read_future := None, fs_current_pos := ?a + of_nat ?l, fs_finished := (?a + of_nat ?l \<ge> b)\<rparr>"
        "r = Ready (Some (Inr chunk))" using step bytes(4) by (simp_all add: Let_def e(1))
      ultimately show ?thesis using bytes(1) inv u
        by (auto simp: in_range_def rest'_def byte_slice_def word_le_nat_alt)
    qed
  qed
qed

text \<open>The whole stream, from any position of the range.\<close>

lemma file_drain_in_range:
  assumes "in_range s b" "progressing outcomes" "file_drain s outcomes = (bs, ended)"
  defines "rest \<equiv> byte_slice (fs_file s) (unat (fs_current_pos s)) (unat b)"
  shows "(\<exists>later. rest = bs @ later) \<and> (ended \<longrightarrow> bs = rest) \<and> (length rest < completed_reads outcomes \<longrightarrow> ended)"
  using assms(1-3) unfolding rest_def
proof (induction outcomes arbitrary: s bs)
  case (Cons outcome outcomes)
  obtain r s' where p: "file_poll_next s outcome = (r, s')" by force
  have n0: "outcome \<noteq> Read_Bytes 0" "progressing outcomes" using Cons.prems(2) by (auto simp: progressing_def)
  note step = poll_in_range [OF Cons.prems(1) n0(1) p]
  have c: "completed_reads (outcome # outcomes) = (case outcome of Read_Bytes _ \<Rightarrow> 1 | _ \<Rightarrow> 0) + completed_reads outcomes"
    by (simp add: completed_reads_def split: read_outcome.split)
  have dr: "(case r of Pending \<Rightarrow> file_drain s' outcomes | Ready None \<Rightarrow> ([], True) | Ready (Some (Inl e)) \<Rightarrow> file_drain s' outcomes
      | Ready (Some (Inr chunk)) \<Rightarrow> (let (bs, ended) = file_drain s' outcomes in (chunk @ bs, ended))) = (bs, ended)"
    using Cons.prems(3) p by simp
  have again: ?case if "file_drain s' outcomes = (bs, ended)" "in_range s' b" "\<forall>k. outcome \<noteq> Read_Bytes k"
      "byte_slice (fs_file s') (unat (fs_current_pos s')) (unat b) = byte_slice (fs_file s) (unat (fs_current_pos s)) (unat b)"
    using Cons.IH [OF that(2) n0(2) that(1)] that(3,4) c by (simp split: read_outcome.splits)
  show ?case
  proof (cases r)
    case Pending
    show ?thesis by (rule again) (use step dr in \<open>simp_all add: Pending\<close>)
  next
    case (Ready x)
    show ?thesis
    proof (cases x)
      case None
      then show ?thesis using step dr by (simp add: Ready)
    next
      case (Some y)
      show ?thesis
      proof (cases y)
        case (Inl e)
        show ?thesis by (rule again) (use step dr in \<open>simp_all add: Ready Some Inl\<close>)
      next
        case (Inr chunk)
        obtain bs' where bs: "file_drain s' outcomes = (bs', ended)" "bs = chunk @ bs'"
          using dr by (auto simp: Ready Some Inr split: prod.splits)
        have st: "in_range s' b" "chunk \<noteq> []"
          "byte_slice (fs_file s) (unat (fs_current_pos s)) (unat b) = chunk @ byte_slice (fs_file s') (unat (fs_current_pos s')) (unat b)"
          using step by (simp_all add: Ready Some Inr)
        have l: "0 < length chunk" using st(2) by simp
        have "completed_reads (outcome # outcomes) \<le> Suc (completed_reads outcomes)"
          unfolding c by (simp split: read_outcome.split)
        then have "length (chunk @ r) < completed_reads (outcome # outcomes) \<longrightarrow> length r < completed_reads outcomes" for r :: bytes
          using l unfolding length_append by linarith
        then show ?thesis using Cons.IH [OF st(1) n0(2) bs(1)] unfolding st(3) bs(2) by auto
      qed
    qed
  qed
qed (simp add: completed_reads_def)

text \<open>
  C18: However the reads are cut and whatever errors and delays come between, a reader of the stream
  receives the bytes of the file from \<open>a\<close> up to \<open>b\<close> in order, without gap or repetition; when it sees
  the end it has received all of them, and it sees the end after at most one read per byte and one
  more.
\<close>

theorem file_stream_delivers_range:
  assumes "a \<le> b" "progressing outcomes" "file_drain (file_stream_new file (Some a) (Some b)) outcomes = (bs, ended)"
  shows "(\<exists>later. byte_slice file (unat a) (unat b) = bs @ later) \<and> (ended \<longrightarrow> bs = byte_slice file (unat a) (unat b)) \<and>
    (unat b - unat a < completed_reads outcomes \<longrightarrow> ended)"
proof -
  have "in_range (file_stream_new file (Some a) (Some b)) b" using assms(1) by (simp add: in_range_def file_stream_new_def)
  note d = file_drain_in_range [OF this assms(2,3)]
  have "length (byte_slice file (unat a) (unat b)) \<le> unat b - unat a" by (simp add: byte_slice_def)
  with d show ?thesis by (auto simp: file_stream_new_def)
qed

theorem file_stream_delivers_range_witness:
  "file_drain (file_stream_new [1, 2, 3, 4, 5] (Some 1) (Some 4))
     [Read_Bytes 2, Not_Ready, Read_Error ''io'', Read_Bytes 1, Read_Bytes 9, Read_Bytes 9] = ([2, 3, 4], True)"
proof -
  let ?os = "[Read_Bytes 2, Not_Ready, Read_Error ''io'', Read_Bytes 1, Read_Bytes 9, Read_Bytes 9]"
  obtain bs ended where d: "file_drain (file_stream_new [1, 2, 3, 4, 5] (Some 1) (Some 4)) ?os = (bs, ended)" by force
  have "(1 :: u64) \<le> 4" "progressing ?os" by (simp_all add: progressing_def)
  from file_stream_delivers_range [OF this d] have "bs = byte_slice [1, 2, 3, 4, 5] 1 4" "ended"
    by (simp_all add: completed_reads_def)
  with d show ?thesis by (simp add: byte_slice_def)
qed

text \<open>The task of \<open>MonoioFileStream\<close> sends the same bytes until its first error, and stops there.\<close>

lemma file_task_sends_range:
  assumes "pos \<le> b" "progressing outcomes"
  shows "\<exists>later. byte_slice file (unat pos) (unat b) =
    concat (map (\<lambda>x. case x of Inl _ \<Rightarrow> [] | Inr c \<Rightarrow> c) (file_task file pos (Some b) outcomes)) @ later"
  using assms
proof (induction outcomes arbitrary: pos)
  case (Cons outcome outcomes)
  let ?s = "\<lparr>fs_file = file, fs_current_pos = pos, fs_end = Some b, fs_finished = False, fs_read_future = None\<rparr>"
  obtain r s' where p: "file_poll_next ?s outcome = (r, s')" by force
  have "in_range ?s b" "outcome \<noteq> Read_Bytes 0" "progressing outcomes"
    using Cons.prems by (auto simp: in_range_def progressing_def)
  note step = poll_in_range [OF this(1,2) p] and IH = Cons.IH [OF _ this(3)]
  show ?case
  proof (cases "read_chunk file pos (Some b) outcome")
    case Pending
    then show ?thesis using IH [OF Cons.prems(1)] by simp
  next
    case (Ready x)
    show ?thesis
    proof (cases x)
      case (Some y)
      show ?thesis
      proof (cases y)
        case (Inr chunk)
        have rs: "r = Ready (Some (Inr chunk))" "fs_file s' = file" "fs_current_pos s' = pos + of_nat (length chunk)"
          using p Ready Some Inr by (auto simp: file_poll_next_def Let_def)
        have "pos + of_nat (length chunk) \<le> b"
          "byte_slice file (unat pos) (unat b) = chunk @ byte_slice file (unat (pos + of_nat (length chunk))) (unat b)"
          using step unfolding rs(1) by (simp_all add: rs(2,3) in_range_def)
        then show ?thesis using IH [of "pos + of_nat (length chunk)"] Ready Some Inr by auto
      qed (simp add: Ready Some)
    qed (simp add: Ready)
  qed
qed simp

end
