(* ===== verification/Static_Helpers.thy ===== *)
theory Static_Helpers
  imports Trailing_Module
begin

text \<open>
  What the static file module computes besides serving: the HTML escaping and the page frame of
  \<open>ferron-common/src/util\<close>, the parts of \<open>std::path\<close> it uses, the parsing of ranges and entity tags and
  the choice of a content encoding (\<open>ferron-modules-builtin/src/optional/static.rs\<close>), and the names
  under which the tool \<open>ferron-precompress\<close> stores compressed files. Paths are Unix paths.
\<close>

section \<open>Definitions\<close>

subsection \<open>HTML\<close>

definition anti_xss :: "string \<Rightarrow> string" where
  "anti_xss input =
     replace_all [CHR 0x22] ''&quot;'' (replace_all ''>'' ''&gt;'' (replace_all ''<'' ''&lt;'' (replace_all ''&'' ''&amp;'' input)))"

abbreviation "nl \<equiv> [CHR 0x0A]"

definition format_page :: "string \<Rightarrow> string \<Rightarrow> string list \<Rightarrow> string" where
  "format_page contents title css =
     ''<!doctype html>'' @ nl @
     ''       <html lang=\"en\">'' @ nl @
     ''           <head>'' @ nl @
     ''               <meta charset=\"UTF-8\" />'' @ nl @
     ''               <meta name=\"viewport\" content=\"width=device-width, initial-scale=1.0\" />'' @ nl @
     ''               <title>'' @ anti_xss title @ ''</title>'' @ nl @
     ''               '' @ join_with nl (map (\<lambda>c. ''<style>'' @ c @ ''</style>'') css) @ nl @
     ''           </head>'' @ nl @
     ''           <body>'' @ nl @
     ''               '' @ contents @ nl @
     ''           </body>'' @ nl @
     ''       </html>'' @ nl"

subsection \<open>Paths\<close>

text \<open>
  \<open>Path::file_name\<close> ignores slashes and \<open>/.\<close> at the end; it is \<open>None\<close> for \<open>..\<close> and for a path without
  components. \<open>path_split\<close> gives the text before the name and the name.
\<close>

fun trim_tail :: "string \<Rightarrow> string" where
  "trim_tail [] = []"
| "trim_tail [c] = (if c = CHR ''/'' then [] else [c])"
| "trim_tail (c # d # r) =
     (if c = CHR ''/'' then trim_tail (d # r)
      else if c = CHR ''.'' \<and> d = CHR ''/'' then trim_tail r
      else c # d # r)"

definition path_split :: "string \<Rightarrow> (string \<times> string) option" where
  "path_split p =
     (let t = trim_tail (rev p); name = rev (takeWhile (\<lambda>c. c \<noteq> CHR ''/'') t)
      in if name = [] \<or> name = ''.'' \<or> name = ''..'' then None
         else Some (rev (dropWhile (\<lambda>c. c \<noteq> CHR ''/'') t), name))"

text \<open>The stem and the extension of a file name: split at the last dot, unless it is the first character.\<close>

definition rsplit_dot :: "string \<Rightarrow> string \<times> string option" where
  "rsplit_dot name =
     (let after = rev (takeWhile (\<lambda>c. c \<noteq> CHR ''.'') (rev name)); before = take (length name - length after - 1) name
      in if length after = length name \<or> before = [] then (name, None) else (before, Some after))"

definition extension :: "string \<Rightarrow> string option" where
  "extension p = Option.bind (path_split p) (\<lambda>(dir, name). snd (rsplit_dot name))"

definition with_extension :: "string \<Rightarrow> string \<Rightarrow> string" where
  "with_extension p ext =
     (case path_split p of
        None \<Rightarrow> p
      | Some (dir, name) \<Rightarrow> dir @ fst (rsplit_dot name) @ (if ext = [] then [] else ''.'' @ ext))"

text \<open>\<open>Path::starts_with\<close> compares components.\<close>

definition components :: "string \<Rightarrow> string list" where
  "components p =
     (if starts_with ''/'' p then [''/''] else []) @ filter (\<lambda>c. c \<noteq> [] \<and> c \<noteq> ''.'') (split_on CHR ''/'' p)"

definition path_starts_with :: "string \<Rightarrow> string \<Rightarrow> bool" where
  "path_starts_with p root \<longleftrightarrow> starts_with (components root) (components p)"

subsection \<open>Ranges and entity tags\<close>

definition parse_u64 :: "string \<Rightarrow> u64 option" where
  "parse_u64 s = map_option word_of_int (parse_unsigned (2 ^ 64 - 1) s)"

definition parse_range_header :: "string \<Rightarrow> u64 \<Rightarrow> (u64 \<times> u64) option" where
  "parse_range_header range_str default_end =
     Option.bind (strip_prefix ''bytes='' range_str) (\<lambda>range_part.
       case take 2 (split_on CHR ''-'' range_part) of
         [a, b] \<Rightarrow>
           if a = [] then map_option (\<lambda>e. (default_end - e + 1, default_end)) (parse_u64 b)
           else if b = [] then map_option (\<lambda>s. (s, default_end)) (parse_u64 a)
           else (case (parse_u64 a, parse_u64 b) of (Some s, Some e) \<Rightarrow> Some (s, e) | _ \<Rightarrow> None)
       | _ \<Rightarrow> None)"

definition trim_matches :: "char \<Rightarrow> string \<Rightarrow> string" where
  "trim_matches c s = trim_end_matches c (dropWhile (\<lambda>x. x = c) s)"

definition extract_etag_inner :: "string \<Rightarrow> bool \<Rightarrow> string option" where
  "extract_etag_inner input weak =
     (let w = (if weak then (case strip_prefix ''W/'' input of Some stripped \<Rightarrow> stripped | None \<Rightarrow> input) else input)
      in case split_on CHR ''-'' (trim_matches (CHR 0x22) w) of [] \<Rightarrow> None | s # _ \<Rightarrow> Some s)"

definition etag_strong_to_weak :: "string \<Rightarrow> string" where
  "etag_strong_to_weak input = (if starts_with ''W/'' input then input else ''W/'' @ input)"

text \<open>\<open>format!("{:016x}")\<close>.\<close>

definition hex16 :: "u64 \<Rightarrow> string" where
  "hex16 w = (let s = radix_str 16 (uint w) in replicate (16 - length s) CHR ''0'' @ s)"

subsection \<open>Content encodings\<close>

record encodings =
  use_brotli :: bool
  use_zstd :: bool
  use_deflate :: bool
  use_gzip :: bool

definition no_encoding :: encodings where
  "no_encoding = \<lparr>use_brotli = False, use_zstd = False, use_deflate = False, use_gzip = False\<rparr>"

text \<open>Clients with broken decompression: for HTML only, and for everything.\<close>

definition netscape_4_broken :: "string \<Rightarrow> bool \<times> bool" where
  "netscape_4_broken user_agent =
     (case strip_prefix ''Mozilla/4.'' user_agent of
        None \<Rightarrow> (False, False)
      | Some stripped \<Rightarrow>
          if contains_sub '' MSIE '' user_agent then (False, False)
          else (True, (case stripped of
             a # b # _ \<Rightarrow> a = CHR ''0'' \<and> (b = CHR ''6'' \<or> b = CHR ''7'' \<or> b = CHR ''8'') | _ \<Rightarrow> False)))"

definition compression_broken :: "string \<Rightarrow> string option \<Rightarrow> bool" where
  "compression_broken user_agent content_type =
     (let (html, all) = netscape_4_broken user_agent
      in content_type = Some ''text/html'' \<and> (html \<or> starts_with ''w3m/'' user_agent) \<or> all)"

definition choose_encodings :: "bool \<Rightarrow> string \<Rightarrow> encodings" where
  "choose_encodings precompression accept_encoding =
     (let br = contains_sub ''br'' accept_encoding;
          zstd = ((precompression \<or> \<not> br) \<and> contains_sub ''zstd'' accept_encoding);
          deflate = ((precompression \<or> \<not> (br \<or> zstd)) \<and> contains_sub ''deflate'' accept_encoding);
          gzip = ((precompression \<or> \<not> (br \<or> zstd \<or> deflate)) \<and> contains_sub ''gzip'' accept_encoding)
      in \<lparr>use_brotli = br, use_zstd = zstd, use_deflate = deflate, use_gzip = gzip\<rparr>)"

text \<open>The name of the encoding that takes effect, and of the suffix of its entity tag.\<close>

definition encoding_name :: "encodings \<Rightarrow> string option" where
  "encoding_name e =
     (if use_brotli e then Some ''br'' else if use_zstd e then Some ''zstd''
      else if use_deflate e then Some ''deflate'' else if use_gzip e then Some ''gzip'' else None)"

subsection \<open>Precompressed files\<close>

text \<open>Where the static file module looks for a compressed file, and where \<open>ferron-precompress\<close> puts it.\<close>

definition precompressed_path :: "string \<Rightarrow> string \<Rightarrow> string" where
  "precompressed_path p ext = with_extension p ((case extension p of Some e \<Rightarrow> e | None \<Rightarrow> []) @ ''.'' @ ext)"

definition compressed_path :: "string \<Rightarrow> string \<Rightarrow> string" where
  "compressed_path p ext = with_extension p (case extension p of None \<Rightarrow> ext | Some e \<Rightarrow> e @ ''.'' @ ext)"

section \<open>Escaping\<close>

lemma replace_all_char: "replace_all [c] r s = concat (map (\<lambda>x. if x = c then r else [x]) s)"
  by (induction "[c]" r s rule: replace_all.induct) auto

definition xss_char :: "char \<Rightarrow> string" where
  "xss_char c = (if c = CHR ''&'' then ''&amp;'' else if c = CHR ''<'' then ''&lt;'' else if c = CHR ''>'' then ''&gt;''
     else if c = CHR 0x22 then ''&quot;'' else [c])"

lemma anti_xss_chars: "anti_xss s = concat (map xss_char s)"
  by (induction s) (simp_all add: anti_xss_def replace_all_char xss_char_def)

text \<open>A browser's reading of the four entities.\<close>

fun html_text :: "string \<Rightarrow> string" where
  "html_text [] = []"
| "html_text (c # s) =
     (if starts_with ''&amp;'' (c # s) then CHR ''&'' # html_text (drop 4 s)
      else if starts_with ''&lt;'' (c # s) then CHR ''<'' # html_text (drop 3 s)
      else if starts_with ''&gt;'' (c # s) then CHR ''>'' # html_text (drop 3 s)
      else if starts_with ''&quot;'' (c # s) then CHR 0x22 # html_text (drop 5 s)
      else c # html_text s)"

text \<open>
  C23: Escaped text has no character that ends an attribute value or starts or ends a tag, and a
  browser shows the text that was escaped.
\<close>

theorem anti_xss_safe:
  "{CHR ''<'', CHR ''>'', CHR 0x22} \<inter> set (anti_xss s) = {} \<and> html_text (anti_xss s) = s"
proof -
  have "{CHR ''<'', CHR ''>'', CHR 0x22} \<inter> set (xss_char c) = {}" for c by (simp add: xss_char_def)
  then have "{CHR ''<'', CHR ''>'', CHR 0x22} \<inter> set (anti_xss s) = {}" by (auto simp: anti_xss_chars)
  moreover have "html_text (xss_char c @ t) = c # html_text t" for c t
    by (cases "c = CHR ''&''"; cases "c = CHR ''<''"; cases "c = CHR ''>''"; cases "c = CHR 0x22") (simp_all add: xss_char_def)
  then have "html_text (anti_xss s) = s" by (induction s) (simp_all add: anti_xss_chars)
  ultimately show ?thesis by blast
qed

section \<open>Ranges\<close>

lemma parse_u64_dec: "parse_u64 (dec_str (uint w)) = Some w"
  using parse_unsigned_dec [of "uint w" "2 ^ 64 - 1"] uint_lt2p [of w] by (simp add: parse_u64_def word_of_int_uint)

lemma no_dash_dec: "CHR ''-'' \<notin> set (dec_str (uint w))"
  using set_dec_str [of "uint w"] by auto

lemma dec_str_not_Nil [simp]: "dec_str n \<noteq> []"
  by (simp add: dec_str_def)

lemma split_range:
  assumes "CHR ''-'' \<notin> set a" "CHR ''-'' \<notin> set b"
  shows "take 2 (split_on CHR ''-'' (a @ ''-'' @ b)) = [a, b]"
  using assms by (simp add: split_on_append_sep split_on_single)

text \<open>What one range of a client says about a file of \<open>len\<close> bytes, as a pair of first and last byte.\<close>

datatype byte_range = From_To u64 u64 | From u64 | Last u64

fun range_text :: "byte_range \<Rightarrow> string" where
  "range_text (From_To a b) = ''bytes='' @ dec_str (uint a) @ ''-'' @ dec_str (uint b)"
| "range_text (From a) = ''bytes='' @ dec_str (uint a) @ ''-''"
| "range_text (Last n) = ''bytes=-'' @ dec_str (uint n)"

fun range_bytes :: "u64 \<Rightarrow> byte_range \<Rightarrow> (nat \<times> nat) option" where
  "range_bytes len (From_To a b) = (if a \<le> b \<and> b < len then Some (unat a, unat b) else None)"
| "range_bytes len (From a) = (if a < len then Some (unat a, unat len - 1) else None)"
| "range_bytes len (Last n) = (if 0 < n \<and> n \<le> len then Some (unat len - unat n, unat len - 1) else None)"

text \<open>The check the handler makes on a parsed range.\<close>

definition range_refused :: "u64 \<Rightarrow> u64 \<times> u64 \<Rightarrow> bool" where
  "range_refused len = (\<lambda>(range_begin, range_end). range_end > len - 1 \<or> range_begin > len - 1 \<or> range_begin > range_end)"

lemma u64_bound: "unat (w :: u64) < 2 ^ 64"
  using unsigned_less [of w] by simp

lemma unat_pred: "0 < (len :: u64) \<Longrightarrow> unat (len - 1) = unat len - 1"
  by (simp add: unat_minus_one)

lemma suffix_begin:
  assumes "0 < (len :: u64)"
  shows "unat (len - 1 - n + 1) = (if n \<le> len then unat len - unat n else 2 ^ 64 + unat len - unat n)"
proof -
  have e: "len - 1 - n + 1 = len - n" by simp
  show ?thesis
  proof (cases "n \<le> len")
    case True
    then show ?thesis by (simp add: e unat_sub)
  next
    case False
    then have "unat len < unat n" by (simp add: word_le_nat_alt)
    then have "unat (len - n) = 2 ^ 64 + unat len - unat n" using u64_bound [of n] u64_bound [of len]
      by (simp add: unat_sub_if_size word_size)
    with False show ?thesis by (simp add: e)
  qed
qed

lemma parse_range_header_reads_pre:
  assumes "0 < len"
  shows "\<exists>r. parse_range_header (range_text rng) (len - 1) = Some r \<and>
    (if range_refused len r then None else Some (unat (fst r), unat (snd r))) = range_bytes len rng"
proof (cases rng)
  case (From_To a b)
  then have "parse_range_header (range_text rng) (len - 1) = Some (a, b)"
    by (simp add: parse_range_header_def strip_prefix_def split_range [simplified] no_dash_dec parse_u64_dec)
  moreover have "b > len - 1 \<longleftrightarrow> \<not> b < len" using assms by (simp add: word_less_nat_alt unat_pred) linarith
  ultimately show ?thesis using From_To by (auto simp: range_refused_def)
next
  case (From a)
  then have "parse_range_header (range_text rng) (len - 1) = Some (a, len - 1)"
    using split_range [of "dec_str (uint a)" "[]"]
    by (simp add: parse_range_header_def strip_prefix_def no_dash_dec parse_u64_dec)
  moreover have "a > len - 1 \<longleftrightarrow> \<not> a < len" using assms by (simp add: word_less_nat_alt unat_pred) linarith
  ultimately show ?thesis using From assms by (auto simp: range_refused_def unat_pred)
next
  case (Last n)
  then have p: "parse_range_header (range_text rng) (len - 1) = Some (len - 1 - n + 1, len - 1)"
    using split_range [of "[]" "dec_str (uint n)"]
    by (simp add: parse_range_header_def strip_prefix_def no_dash_dec parse_u64_dec)
  have "len - 1 - n + 1 > len - 1 \<longleftrightarrow> \<not> (0 < n \<and> n \<le> len)"
    unfolding word_less_nat_alt [of "len - 1"] suffix_begin [OF assms] unat_pred [OF assms]
    using assms u64_bound [of n] u64_bound [of len] by (auto simp: word_less_nat_alt word_le_nat_alt)
  then show ?thesis using Last p assms suffix_begin [OF assms, of n] by (auto simp: range_refused_def unat_pred)
qed

text \<open>
  A range header is read as it is written, and the bytes it stands for are served exactly when
  they exist: the first and the last byte lie in the file, in order. A suffix longer than the file
  is refused, by the wrap-around of the subtraction.
\<close>

theorem parse_range_header_reads:
  assumes "0 < len"
  shows "\<exists>r. parse_range_header (range_text rng) (len - 1) = Some r \<and>
    (if range_refused len r then None else Some (unat (fst r), unat (snd r))) = range_bytes len rng"
  by (rule parse_range_header_reads_pre [OF assms])

theorem parse_range_header_reads_witness:
  "\<exists>r. parse_range_header ''bytes=-3'' 9 = Some r \<and> (if range_refused 10 r then None else Some (unat (fst r), unat (snd r))) = Some (7, 9)"
proof -
  have r: "range_text (Last 3) = ''bytes=-3''" "range_bytes 10 (Last 3) = Some (7, 9)" by code_simp+
  have "(10 :: u64) - 1 = 9" by simp
  with parse_range_header_reads [of 10 "Last 3"] show ?thesis unfolding r by simp
qed

section \<open>Entity tags\<close>

lemma hex16_chars: "set (hex16 w) \<subseteq> set ''0123456789abcdef''"
  using set_hex_str [of "uint w"] by (auto simp: hex16_def Let_def)

lemma trim_matches_quoted:
  assumes "c \<notin> set s"
  shows "trim_matches c (c # s @ [c]) = s"
proof (cases s)
  case Nil
  then show ?thesis by (simp add: trim_matches_def trim_end_matches_def)
next
  case (Cons a t)
  then have "dropWhile (\<lambda>x. x = c) (rev s) = rev s" using assms
    unfolding dropWhile_eq_self_iff by (metis list.set_sel(1) set_rev)
  then show ?thesis using assms Cons by (auto simp: trim_matches_def trim_end_matches_def)
qed

definition weak_etag :: "string \<Rightarrow> encodings \<Rightarrow> string" where
  "weak_etag etag e = ''W/\"'' @ etag @ (case encoding_name e of Some n \<Rightarrow> ''-'' @ n | None \<Rightarrow> []) @ [CHR 0x22]"

lemma encoding_name_cases:
  "encoding_name e = Some n \<Longrightarrow> n \<in> set [''br'', ''zstd'', ''deflate'', ''gzip'']"
  by (auto simp: encoding_name_def split: if_splits)

lemma etag_round_trip_pre:
  "extract_etag_inner (weak_etag (hex16 w) e) True = Some (hex16 w) \<and>
   etag_strong_to_weak (weak_etag (hex16 w) e) = weak_etag (hex16 w) e"
proof -
  let ?s = "case encoding_name e of Some n \<Rightarrow> ''-'' @ n | None \<Rightarrow> []"
  have h: "CHR 0x22 \<notin> set (hex16 w)" "CHR ''-'' \<notin> set (hex16 w)" using hex16_chars [of w] by auto
  have "CHR 0x22 \<notin> set ?s"
  proof (cases "encoding_name e")
    case (Some n)
    with encoding_name_cases [OF Some] show ?thesis by auto
  qed simp
  with h have q: "CHR 0x22 \<notin> set (hex16 w @ ?s)" "CHR ''-'' \<notin> set (hex16 w)" by simp_all
  have "split_on CHR ''-'' (hex16 w @ ?s) = hex16 w # (case encoding_name e of Some n \<Rightarrow> split_on CHR ''-'' n | None \<Rightarrow> [])"
    using q(2) by (cases "encoding_name e") (simp_all add: split_on_single split_on_append_sep)
  then show ?thesis using trim_matches_quoted [OF q(1)]
    by (simp add: extract_etag_inner_def weak_etag_def strip_prefix_def etag_strong_to_weak_def)
qed

text \<open>
  The entity tag of a response, whatever its encoding, is read back as the hash it was made of,
  and it stays as it is when it is made weak.
\<close>

theorem etag_round_trip:
  "extract_etag_inner (weak_etag (hex16 w) e) True = Some (hex16 w) \<and>
   etag_strong_to_weak (weak_etag (hex16 w) e) = weak_etag (hex16 w) e"
  by (rule etag_round_trip_pre)

section \<open>Encodings\<close>

text \<open>
  Without precompressed files at most one encoding is chosen, and one that the header mentions. A
  quality of zero is not looked at.
\<close>

lemma choose_encodings_exclusive:
  "length (filter id [use_brotli e, use_zstd e, use_deflate e, use_gzip e]) \<le> 1"
  if "e = choose_encodings False accept_encoding"
  using that by (simp add: choose_encodings_def Let_def)

lemma choose_encodings_mentioned:
  "encoding_name (choose_encodings pre accept_encoding) = Some n \<Longrightarrow> contains_sub n accept_encoding"
  by (auto simp: choose_encodings_def encoding_name_def Let_def split: if_splits)

lemma refused_encoding_chosen:
  "encoding_name (choose_encodings False ''gzip, br;q=0'') = Some ''br''"
  by code_simp

section \<open>Precompressed files\<close>

text \<open>
  The static file module finds a file the precompression tool wrote exactly when the original has
  an extension: for \<open>README\<close> the tool writes \<open>README.gz\<close> and the module looks for \<open>README..gz\<close>.
\<close>

theorem precompressed_names_agree_iff:
  assumes "path_split p = Some (dir, name)"
  shows "precompressed_path p ext = compressed_path p ext \<longleftrightarrow> extension p \<noteq> None"
proof (cases "extension p")
  case None
  then have "precompressed_path p ext = dir @ fst (rsplit_dot name) @ ''..'' @ ext"
    "compressed_path p ext = dir @ fst (rsplit_dot name) @ (if ext = [] then [] else ''.'' @ ext)"
    using assms by (simp_all add: precompressed_path_def compressed_path_def with_extension_def)
  then show ?thesis using None by (auto dest: arg_cong [of _ _ length])
qed (simp add: precompressed_path_def compressed_path_def)

theorem precompressed_names_agree_iff_witness:
  "precompressed_path ''/srv/README'' ''gz'' \<noteq> compressed_path ''/srv/README'' ''gz''"
proof -
  have p: "path_split ''/srv/README'' = Some (''/srv/'', ''README'')" "extension ''/srv/README'' = None" by code_simp+
  show ?thesis using precompressed_names_agree_iff [OF p(1), of "''gz''"] p(2) by simp
qed

end
