(* ===== verification/Static_Module.thy ===== *)
theory Static_Module
  imports Static_Helpers
begin

text \<open>
  The static file serving module, \<open>ferron-modules-builtin/src/optional/static.rs\<close>: loading, validation,
  directory listings and the whole request handler with its three caches, on a Unix system. The
  parameters are the file system at one moment (metadata, contents, canonical paths, directories),
  the percent codec, the MIME database, the xxHash function, the LRU cache of the crate \<open>hashlink\<close>, the
  content encoders, the local date format and the size format. A body that is streamed from a file
  is the bytes it delivers (\<open>File_Stream\<close>).
\<close>

section \<open>Definitions\<close>

datatype fs_error = NotFound | NotADirectory | PermissionDenied | Other_Error string

record metadata =
  md_is_dir :: bool
  md_is_file :: bool
  md_len :: u64
  md_modified :: "int option"

record 'lru static_env =
  st_metadata :: "string \<Rightarrow> fs_error + metadata"
  st_read :: "string \<Rightarrow> fs_error + string"
  st_canonicalize :: "string \<Rightarrow> string option"
  st_read_dir :: "string \<Rightarrow> fs_error + string list"
  st_decode :: "string \<Rightarrow> string option"
  st_encode :: "string \<Rightarrow> string"
  st_mime :: "string \<Rightarrow> string option"
  st_hash :: "string \<Rightarrow> u64"
  st_compress :: "string \<Rightarrow> string \<Rightarrow> string"
  st_date :: "int \<Rightarrow> string"
  st_sizify :: "u64 \<Rightarrow> string"
  st_css :: "string list"
  lru_peek :: "'lru \<Rightarrow> string \<Rightarrow> string option"
  lru_insert :: "string \<Rightarrow> string \<Rightarrow> 'lru \<Rightarrow> 'lru"

record 'lru StaticFileServingModule =
  pathbuf_cache :: "(string, string) TtlCache"
  path_traversal_check_cache :: "(string, bool) TtlCache"
  etag_cache :: 'lru

definition static_caches_new :: "'lru \<Rightarrow> 'lru StaticFileServingModule" where
  "static_caches_new lru = \<lparr>pathbuf_cache = ttl_new 100, path_traversal_check_cache = ttl_new 100, etag_cache = lru\<rparr>"

definition static_loader_new :: "'h ModuleCache" where
  "static_loader_new = module_cache_new []"

definition static_load_module ::
  "'h \<Rightarrow> ('m, 'o) ServerConfiguration \<Rightarrow> 'h ModuleCache \<Rightarrow> (string + 'h) \<times> 'h ModuleCache" where
  "static_load_module shared config c = cache_get_or_init (\<lambda>_. Inr shared) config c"

definition static_requirements :: "string list" where
  "static_requirements = [''root'']"

definition static_rules :: "(string \<times> entry_check) list" where
  "static_rules =
     [one_value ''compressed'' is_bool ''Invalid static file compression enabling option'',
      one_value ''directory_listing'' is_bool ''Invalid directory listing enabling option'',
      one_value ''etag'' is_bool ''Invalid ETag enabling option'',
      one_value ''file_cache_control'' (or_null is_string) ''Invalid file cache control header value'',
      one_value ''precompressed'' is_bool ''Invalid static file precompression enabling option'',
      two_values ''mime_type'' is_string ''The file extension must be a string'' is_string ''The MIME type must be a string'',
      every_value ''index'' is_string ''An index file name must be a string'']"

definition static_validate_configuration ::
  "('m, 'o) ServerConfiguration \<Rightarrow> string set \<Rightarrow> (string + unit) \<times> string set" where
  "static_validate_configuration = validate_rules static_rules"

subsection \<open>Directory listings\<close>

abbreviation "emoji_up \<equiv> map char_of [0xE2, 0xAC, 0x86, 0xEF, 0xB8, 0x8F :: nat]"
abbreviation "emoji_dir \<equiv> map char_of [0xF0, 0x9F, 0x93, 0x81 :: nat]"
abbreviation "emoji_file \<equiv> map char_of [0xF0, 0x9F, 0x93, 0x84 :: nat]"
abbreviation "emoji_other \<equiv> map char_of [0xE2, 0x9D, 0x93 :: nat]"
abbreviation "emoji_error \<equiv> map char_of [0xE2, 0x9A, 0xA0, 0xEF, 0xB8, 0x8F :: nat]"
abbreviation "emoji_none \<equiv> map char_of [0xF0, 0x9F, 0xA4, 0xB7 :: nat]"

definition listing_row :: "'lru static_env \<Rightarrow> string \<Rightarrow> string \<Rightarrow> string \<Rightarrow> string" where
  "listing_row env dir base filename =
     (case st_metadata env (path_join dir filename) of
        Inr md \<Rightarrow>
          ''<tr><td class=\"directory-filename\">'' @
          (if md_is_dir md then emoji_dir else if md_is_file md then emoji_file else emoji_other) @
          '' <a href=\"'' @ base @ ''/'' @ anti_xss (st_encode env filename) @ (if md_is_dir md then ''/'' else []) @ ''\">'' @
          anti_xss filename @ ''</a></td><td class=\"directory-size\">'' @
          (if md_is_file md then anti_xss (st_sizify env (md_len md)) else ''-'') @ ''</td><td class=\"directory-date\">'' @
          anti_xss (case md_modified md of Some t \<Rightarrow> st_date env t | None \<Rightarrow> ''-'') @ ''</td></tr>''
      | Inl _ \<Rightarrow>
          ''<tr><td class=\"directory-filename\">'' @ emoji_error @ '' <a href=\"'' @ base @ ''/'' @
          anti_xss (st_encode env filename) @ ''\">'' @ anti_xss filename @
          ''</a></td><td class=\"directory-size\">-</td><td class=\"directory-date\">-</td></tr>'')"

definition return_row :: "string \<Rightarrow> string list" where
  "return_row base =
     (if base = [] then []
      else [''<tr><td>'' @ emoji_up @ '' <a href=\"'' @
        anti_xss (join_with ''/'' (butlast (split_on CHR ''/'' base) @ [[]])) @
        ''\">Return</a></td><td></td><td></td></tr>''])"

definition visible_names :: "string list \<Rightarrow> string list" where
  "visible_names names = filter (\<lambda>n. \<not> starts_with ''.'' n) (sort_by cmp_string names)"

definition listing_rows :: "'lru static_env \<Rightarrow> string \<Rightarrow> string \<Rightarrow> string list \<Rightarrow> string list" where
  "listing_rows env dir request_path names =
     (let base = trim_end_matches CHR ''/'' request_path;
          rows = map (listing_row env dir base) (visible_names names)
      in return_row base @
         (if rows = [] then [''<tr><td class=\"directory-filename\">'' @ emoji_none @
            '' No files found</td><td class=\"directory-size\"></td><td class=\"directory-date\"></td></tr>''] else rows))"

definition generate_directory_listing ::
  "'lru static_env \<Rightarrow> string \<Rightarrow> string list \<Rightarrow> string \<Rightarrow> string option \<Rightarrow> string" where
  "generate_directory_listing env dir names request_path description =
     format_page
       (''<h1>Directory: '' @ anti_xss request_path @ ''</h1>'' @ nl @ ''      <table>'' @ nl @
        ''      <tr><th class=\"directory-filename\">Filename</th><th class=\"directory-size\">Size</th><th class=\"directory-date\">Date</th></tr>'' @ nl @
        ''      '' @ concat (listing_rows env dir request_path names) @ nl @ ''    </table>'' @
        (case description of Some d \<Rightarrow> ''<hr><pre class=\"directory-description\">'' @ anti_xss d @ ''</pre>'' | None \<Rightarrow> []))
       (''Directory: '' @ request_path) (st_css env)"

subsection \<open>The request handler\<close>

definition NON_COMPRESSIBLE_FILE_EXTENSIONS :: "string list" where
  "NON_COMPRESSIBLE_FILE_EXTENSIONS = [
     ''7z'', ''air'', ''amlx'', ''apk'', ''apng'', ''appinstaller'', ''appx'', ''appxbundle'', ''arj'', ''au'', ''avif'', ''bdoc'',
     ''boz'', ''br'', ''bz'', ''bz2'', ''caf'', ''class'', ''doc'', ''docx'', ''dot'', ''dvi'', ''ear'', ''epub'', ''flv'', ''gdoc'',
     ''gif'', ''gsheet'', ''gslides'', ''gz'', ''iges'', ''igs'', ''jar'', ''jnlp'', ''jp2'', ''jpe'', ''jpeg'', ''jpf'', ''jpg'',
     ''jpg2'', ''jpgm'', ''jpm'', ''jpx'', ''kmz'', ''latex'', ''m1v'', ''m2a'', ''m2v'', ''m3a'', ''m4a'', ''mesh'', ''mk3d'', ''mks'',
     ''mkv'', ''mov'', ''mp2'', ''mp2a'', ''mp3'', ''mp4'', ''mp4a'', ''mp4v'', ''mpe'', ''mpeg'', ''mpg'', ''mpg4'', ''mpga'', ''msg'',
     ''msh'', ''msix'', ''msixbundle'', ''odg'', ''odp'', ''ods'', ''odt'', ''oga'', ''ogg'', ''ogv'', ''ogx'', ''opus'', ''p12'',
     ''pdf'', ''pfx'', ''pgp'', ''pkpass'', ''png'', ''pot'', ''pps'', ''ppt'', ''pptx'', ''qt'', ''ser'', ''silo'', ''sit'', ''snd'',
     ''spx'', ''stpxz'', ''stpz'', ''swf'', ''tif'', ''tiff'', ''ubj'', ''usdz'', ''vbox-extpack'', ''vrml'', ''war'', ''wav'',
     ''weba'', ''webm'', ''wmv'', ''wrl'', ''x3dbz'', ''x3dvz'', ''xla'', ''xlc'', ''xlm'', ''xls'', ''xlsx'', ''xlt'', ''xlw'',
     ''xpi'', ''xps'', ''zip'', ''zst'']"

definition with_headers :: "request \<Rightarrow> nat \<Rightarrow> header_map \<Rightarrow> ResponseData" where
  "with_headers req st hs = (with_status req st)\<lparr>rd_response_headers := Some hs\<rparr>"

definition build_response :: "request \<Rightarrow> nat \<Rightarrow> header_map \<Rightarrow> string \<Rightarrow> 'a flow" where
  "build_response req st hs body =
     (if list_all (\<lambda>(n, v). header_value_ok v) hs
      then Stop (with_response req \<lparr>resp_status = st, resp_headers = hs, resp_body = body\<rparr>)
      else Fail ''failed to parse header value'')"

fun fs_failure :: "request \<Rightarrow> fs_error \<Rightarrow> 'a flow" where
  "fs_failure req NotFound = Stop (with_status req 404)"
| "fs_failure req NotADirectory = Stop (with_status req 404)"
| "fs_failure req PermissionDenied = Stop (with_status req 403)"
| "fs_failure req (Other_Error e) = Fail e"

definition bool_or :: "bool \<Rightarrow> string \<Rightarrow> ('m, 'o) ServerConfiguration \<Rightarrow> bool" where
  "bool_or dflt name config = (case Option.bind (get_value_m name config) as_bool of Some b \<Rightarrow> b | None \<Rightarrow> dflt)"

definition index_names :: "('m, 'o) ServerConfiguration \<Rightarrow> string list" where
  "index_names config =
     (case get_entry_m ''index'' config of
        Some e \<Rightarrow> List.map_filter as_str (entry_values e)
      | None \<Rightarrow> [''index.html'', ''index.htm'', ''index.xhtml''])"

definition resolve_path ::
  "'lru static_env \<Rightarrow> nat \<Rightarrow> string \<Rightarrow> string \<Rightarrow> request \<Rightarrow> 'lru StaticFileServingModule \<Rightarrow> (string \<times> bool) flow" where
  "resolve_path env now wwwroot key req c =
     (case ttl_get now key (pathbuf_cache c) of
        Some p \<Rightarrow> Go (p, True)
      | None \<Rightarrow>
          (case st_decode env (relative_of (uri_path (rp_uri (req_parts req)))) of
             None \<Rightarrow> Stop (with_status req 400)
           | Some d \<Rightarrow> Go (path_join wwwroot d, False)))"

definition inside_root :: "'lru static_env \<Rightarrow> string \<Rightarrow> string \<Rightarrow> bool" where
  "inside_root env wwwroot joined =
     path_starts_with (case st_canonicalize env joined of Some p \<Rightarrow> p | None \<Rightarrow> joined)
       (case st_canonicalize env wwwroot of Some p \<Rightarrow> p | None \<Rightarrow> wwwroot)"

definition traversal_check ::
  "'lru static_env \<Rightarrow> nat \<Rightarrow> string \<Rightarrow> string \<Rightarrow> 'lru StaticFileServingModule \<Rightarrow> bool \<times> 'lru StaticFileServingModule" where
  "traversal_check env now wwwroot joined c =
     (case ttl_get now joined (path_traversal_check_cache c) of
        Some allowed \<Rightarrow> (allowed, c)
      | None \<Rightarrow>
          (let allowed = inside_root env wwwroot joined
           in (allowed, c\<lparr>path_traversal_check_cache := ttl_insert now joined allowed (path_traversal_check_cache c)\<rparr>)))"

fun find_index :: "'lru static_env \<Rightarrow> request \<Rightarrow> string \<Rightarrow> string list \<Rightarrow> (string \<times> metadata) option flow" where
  "find_index env req dir [] = Go None"
| "find_index env req dir (i # is) =
     (case st_metadata env (path_join dir i) of
        Inr md \<Rightarrow> if md_is_file md then Go (Some (path_join dir i, md)) else find_index env req dir is
      | Inl NotFound \<Rightarrow> find_index env req dir is
      | Inl NotADirectory \<Rightarrow> find_index env req dir is
      | Inl e \<Rightarrow> fs_failure req e)"

definition int_str :: "int \<Rightarrow> string" where
  "int_str n = (if n < 0 then ''-'' @ dec_str (- n) else dec_str n)"

definition etag_key :: "string \<Rightarrow> metadata \<Rightarrow> string" where
  "etag_key p md = p @ ''-'' @ dec_str (uint (md_len md)) @ ''-'' @ (case md_modified md of Some t \<Rightarrow> int_str t | None \<Rightarrow> [])"

definition etag_of ::
  "'lru static_env \<Rightarrow> string \<Rightarrow> metadata \<Rightarrow> 'lru StaticFileServingModule \<Rightarrow> string \<times> 'lru StaticFileServingModule" where
  "etag_of env p md c =
     (case lru_peek env (etag_cache c) (etag_key p md) of
        Some etag \<Rightarrow> (etag, c)
      | None \<Rightarrow>
          (let etag = hex16 (st_hash env (etag_key p md))
           in (etag, c\<lparr>etag_cache := lru_insert env (etag_key p md) etag (etag_cache c)\<rparr>)))"

definition cache_control_header :: "string option \<Rightarrow> header_map" where
  "cache_control_header cc = (case cc of Some v \<Rightarrow> [(''cache-control'', v)] | None \<Rightarrow> [])"

text \<open>The headers \<open>If-None-Match\<close> and \<open>If-Match\<close>.\<close>

definition check_preconditions :: "request \<Rightarrow> string \<Rightarrow> string \<Rightarrow> string option \<Rightarrow> unit flow" where
  "check_preconditions req etag vary cache_control =
     (let hs = rp_headers (req_parts req); bad = Stop (with_headers req 400 [(''vary'', vary)])
      in bind_flow
        (case header_get ''if-none-match'' hs of
           None \<Rightarrow> Go ()
         | Some v \<Rightarrow>
             (case header_to_str v of
                None \<Rightarrow> bad
              | Some if_none_match \<Rightarrow>
                  if extract_etag_inner if_none_match True = Some etag
                  then build_response req 304 ([(''etag'', etag_strong_to_weak if_none_match), (''vary'', vary)] @
                         cache_control_header cache_control) []
                  else Go ()))
        (\<lambda>_. case header_get ''if-match'' hs of
           None \<Rightarrow> Go ()
         | Some v \<Rightarrow>
             (case header_to_str v of
                None \<Rightarrow> bad
              | Some if_match \<Rightarrow>
                  if if_match \<noteq> ''*'' \<and> extract_etag_inner if_match True \<noteq> Some etag \<and> extract_etag_inner if_match True \<noteq> None
                  then Stop (with_headers req 412 [(''etag'', v), (''vary'', vary)])
                  else Go ())))"

fun custom_content_type :: "string \<Rightarrow> entries \<Rightarrow> string option" where
  "custom_content_type ext [] = None"
| "custom_content_type ext (e # es) =
     (case entry_values e of
        k # v # _ \<Rightarrow> if as_str k = Some ext \<and> as_str v \<noteq> None then as_str v else custom_content_type ext es
      | _ \<Rightarrow> custom_content_type ext es)"

definition content_type_of :: "'lru static_env \<Rightarrow> ('m, 'o) ServerConfiguration \<Rightarrow> string \<Rightarrow> string option" where
  "content_type_of env config p =
     (case (case (get_entries_m ''mime_type'' config, extension p) of
              (Some es, Some ext) \<Rightarrow> custom_content_type (''.'' @ ext) es | _ \<Rightarrow> None) of
        Some t \<Rightarrow> Some t
      | None \<Rightarrow> st_mime env p)"

definition serve_range ::
  "'lru static_env \<Rightarrow> request \<Rightarrow> string \<Rightarrow> metadata \<Rightarrow> string \<Rightarrow> string option \<Rightarrow> string option \<Rightarrow> string option \<Rightarrow> string \<Rightarrow> ResponseData flow" where
  "serve_range env req p md range_header etag content_type cache_control vary =
     (let len = md_len md; unsatisfiable = Stop (with_headers req 416 [(''vary'', vary)])
      in if len = 0 then unsatisfiable
         else case parse_range_header range_header (len - 1) of
           None \<Rightarrow> unsatisfiable
         | Some (range_begin, range_end) \<Rightarrow>
             if range_refused len (range_begin, range_end) then unsatisfiable
             else let hs =
                 [(''content-length'', dec_str (uint (range_end - range_begin + 1))),
                  (''content-range'', ''bytes '' @ dec_str (uint range_begin) @ ''-'' @ dec_str (uint range_end) @ ''/'' @ dec_str (uint len))] @
                 (case etag of Some t \<Rightarrow> [(''etag'', ''W/\"'' @ t @ [CHR 0x22])] | None \<Rightarrow> []) @
                 (case content_type of Some t \<Rightarrow> [(''content-type'', t)] | None \<Rightarrow> []) @
                 cache_control_header cache_control @ [(''vary'', vary)]
               in if rp_method (req_parts req) = ''HEAD'' then build_response req 206 hs []
                  else (case st_read env p of
                     Inl e \<Rightarrow> fs_failure req e
                   | Inr content \<Rightarrow> build_response req 206 hs
                       (take (unat (range_end + 1) - unat range_begin) (drop (unat range_begin) content))))"

text \<open>The loop over the precompressed files: the file found, or none, and what remains of the encodings.\<close>

fun find_precompressed ::
  "'lru static_env \<Rightarrow> string \<Rightarrow> (string \<times> (encodings \<Rightarrow> encodings)) list \<Rightarrow> encodings \<Rightarrow> (string \<times> metadata) option \<times> encodings" where
  "find_precompressed env p [] e = (None, e)"
| "find_precompressed env p ((ext, clear) # xs) e =
     (case st_metadata env (precompressed_path p ext) of
        Inr md \<Rightarrow> if md_is_file md then (Some (precompressed_path p ext, md), e) else find_precompressed env p xs (clear e)
      | Inl _ \<Rightarrow> find_precompressed env p xs (clear e))"

definition precompressed_extensions :: "encodings \<Rightarrow> (string \<times> (encodings \<Rightarrow> encodings)) list" where
  "precompressed_extensions e =
     (if use_brotli e then [(''br'', use_brotli_update (\<lambda>_. False))] else []) @
     (if use_zstd e then [(''zst'', use_zstd_update (\<lambda>_. False))] else []) @
     (if use_deflate e then [(''deflate'', use_deflate_update (\<lambda>_. False))] else []) @
     (if use_gzip e then [(''gz'', use_gzip_update (\<lambda>_. False))] else [])"

definition header_or_empty :: "string \<Rightarrow> request \<Rightarrow> string" where
  "header_or_empty name req =
     (case Option.bind (header_get name (rp_headers (req_parts req))) header_to_str of Some s \<Rightarrow> s | None \<Rightarrow> [])"

definition encodings_for :: "request \<Rightarrow> bool \<Rightarrow> bool \<Rightarrow> string option \<Rightarrow> encodings" where
  "encodings_for req compression_possible precompression content_type =
     (if compression_possible \<and> \<not> compression_broken (header_or_empty ''user-agent'' req) content_type
      then choose_encodings precompression (header_or_empty ''accept-encoding'' req) else no_encoding)"

definition serve_full ::
  "'lru static_env \<Rightarrow> request \<Rightarrow> string \<Rightarrow> metadata \<Rightarrow> bool \<Rightarrow> bool \<Rightarrow> string option \<Rightarrow> string option \<Rightarrow> string option \<Rightarrow> string \<Rightarrow> ResponseData flow" where
  "serve_full env req p md compression_possible precompression etag content_type cache_control vary =
     (let chosen = encodings_for req compression_possible precompression content_type;
          (found, e) = (if precompression then find_precompressed env p (precompressed_extensions chosen) chosen else (None, chosen));
          (p', md') = (case found of Some x \<Rightarrow> x | None \<Rightarrow> (p, md));
          hs = [(''accept-ranges'', ''bytes'')] @
            (case etag of Some t \<Rightarrow> [(''etag'', weak_etag t e)] | None \<Rightarrow> []) @ [(''vary'', vary)] @
            (case content_type of Some t \<Rightarrow> [(''content-type'', t)] | None \<Rightarrow> []) @ cache_control_header cache_control @
            (case encoding_name e of Some n \<Rightarrow> [(''content-encoding'', n)] | None \<Rightarrow> [(''content-length'', dec_str (uint (md_len md')))])
      in if rp_method (req_parts req) = ''HEAD'' then build_response req 200 hs []
         else (case st_read env p' of
            Inl err \<Rightarrow> fs_failure req err
          | Inr content \<Rightarrow>
              (let body = take (unat (md_len md')) content
               in build_response req 200 hs
                    (case encoding_name e of Some n \<Rightarrow> if precompression then body else st_compress env n body | None \<Rightarrow> body))))"

definition serve_file ::
  "'lru static_env \<Rightarrow> request \<Rightarrow> ('m, 'o) ServerConfiguration \<Rightarrow> string \<Rightarrow> metadata \<Rightarrow> 'lru StaticFileServingModule \<Rightarrow>
     ResponseData flow \<times> 'lru StaticFileServingModule" where
  "serve_file env req config p md c =
     (let cache_control = Option.bind (get_value_m ''file_cache_control'' config) as_str;
          precompression = bool_or False ''precompressed'' config;
          compression_possible = ((precompression \<or> bool_or True ''compressed'' config) \<and> md_len md > 256 \<and>
            (case extension p of Some e \<Rightarrow> e | None \<Rightarrow> []) \<notin> set NON_COMPRESSIBLE_FILE_EXTENSIONS);
          etags = bool_or True ''etag'' config;
          vary = (if compression_possible then ''Accept-Encoding, '' else []) @ (if etags then ''If-Match, If-None-Match, '' else []) @ ''Range'';
          (etag, c') = (if etags then (let (t, c1) = etag_of env p md c in (Some t, c1)) else (None, c));
          content_type = content_type_of env config p
      in (bind_flow (case etag of Some t \<Rightarrow> check_preconditions req t vary cache_control | None \<Rightarrow> Go ()) (\<lambda>_.
          case header_get ''range'' (rp_headers (req_parts req)) of
            None \<Rightarrow> serve_full env req p md compression_possible precompression etag content_type cache_control vary
          | Some v \<Rightarrow>
              (case header_to_str v of
                 None \<Rightarrow> Stop (with_headers req 400 [(''vary'', vary)])
               | Some range_header \<Rightarrow> serve_range env req p md range_header etag content_type cache_control vary)), c'))"

definition serve_directory :: "'lru static_env \<Rightarrow> request \<Rightarrow> ('m, 'o) ServerConfiguration \<Rightarrow> string \<Rightarrow> ResponseData flow" where
  "serve_directory env req config p =
     (if \<not> option_value_bool ''directory_listing'' config then Stop (with_status req 403)
      else case st_read_dir env p of
        Inl NotADirectory \<Rightarrow> Fail ''not a directory''
      | Inl e \<Rightarrow> fs_failure req e
      | Inr names \<Rightarrow>
          (let original_path = (case Option.bind (req_data req) original_url of Some u \<Rightarrow> uri_path u | None \<Rightarrow> uri_path (rp_uri (req_parts req)));
               html = generate_directory_listing env p names original_path
                 (case st_read env (path_join p ''.maindesc'') of Inr d \<Rightarrow> Some d | Inl _ \<Rightarrow> None)
           in build_response req 200 [(''content-length'', dec_str (int (length html))), (''content-type'', ''text/html'')] html))"

text \<open>Everything after the path is known: index files, the cache of paths, and what is served.\<close>

definition serve_path ::
  "'lru static_env \<Rightarrow> nat \<Rightarrow> request \<Rightarrow> ('m, 'o) ServerConfiguration \<Rightarrow> string \<Rightarrow> string \<Rightarrow> bool \<Rightarrow> 'lru StaticFileServingModule \<Rightarrow>
     ResponseData flow \<times> 'lru StaticFileServingModule" where
  "serve_path env now req config key p cached c =
     (case st_metadata env p of
        Inl e \<Rightarrow> (fs_failure req e, c)
      | Inr md \<Rightarrow>
          (case (if \<not> cached \<and> md_is_dir md then find_index env req p (index_names config) else Go None) of
             Fail e \<Rightarrow> (Fail e, c)
           | Stop r \<Rightarrow> (Stop r, c)
           | Go found \<Rightarrow>
               (let (p', md') = (case found of Some x \<Rightarrow> x | None \<Rightarrow> (p, md));
                    c' = (if cached then c
                          else c\<lparr>pathbuf_cache := ttl_insert now key p' (ttl_cleanup now (pathbuf_cache c))\<rparr>)
                in if md_is_file md' then serve_file env req config p' md' c'
                   else if md_is_dir md' then (serve_directory env req config p', c')
                   else (Stop (with_status req 501), c'))))"

definition static_request_handler ::
  "'lru static_env \<Rightarrow> nat \<Rightarrow> 'lru StaticFileServingModule \<Rightarrow> request \<Rightarrow> ('m, 'o) ServerConfiguration \<Rightarrow>
     (string + ResponseData) \<times> 'lru StaticFileServingModule" where
  "static_request_handler env now c req config =
     (let allow = (''allow'', ''GET, POST, HEAD, OPTIONS''); m = rp_method (req_parts req);
          request_path = uri_path (rp_uri (req_parts req))
      in if m = ''OPTIONS'' then (Inr (with_response req \<lparr>resp_status = 204, resp_headers = [allow], resp_body = []\<rparr>), c)
         else if m \<notin> {''GET'', ''POST'', ''HEAD''} then (Inr (with_headers req 405 [allow]), c)
         else case first_value_str ''root'' config of
           None \<Rightarrow> (Inr (pass_on req), c)
         | Some wwwroot \<Rightarrow>
             if \<not> starts_with ''/'' request_path then (Inr (with_status req 400), c)
             else (let key = trailing_cache_key (sc_filters config) request_path
                   in case resolve_path env now wwwroot key req c of
                        Fail e \<Rightarrow> (Inl e, c)
                      | Stop r \<Rightarrow> (Inr r, c)
                      | Go (p, cached) \<Rightarrow>
                          (let (allowed, c1) = (if option_value_bool ''disable_url_sanitizer'' config
                                 then traversal_check env now wwwroot p c else (True, c))
                           in if \<not> allowed then (Inr (with_status req 403), c1)
                              else let (r, c2) = serve_path env now req config key p cached c1 in (run_flow r, c2))))"

section \<open>An example server\<close>

text \<open>One text file below \<open>/srv\<close>, and a list for the LRU cache.\<close>

definition example_md :: "nat \<Rightarrow> metadata" where
  "example_md n = \<lparr>md_is_dir = False, md_is_file = True, md_len = of_nat n, md_modified = Some 0\<rparr>"

definition example_static_env :: "(string \<times> string) list static_env" where
  "example_static_env = \<lparr>
     st_metadata = \<lambda>p. if p = ''/srv/a.txt'' then Inr (example_md 10) else Inl NotFound,
     st_read = \<lambda>p. if p = ''/srv/a.txt'' then Inr ''0123456789'' else Inl NotFound,
     st_canonicalize = \<lambda>p. None, st_read_dir = \<lambda>p. Inl NotFound, st_decode = Some, st_encode = id,
     st_mime = \<lambda>p. Some ''text/plain'', st_hash = \<lambda>k. 0xabc, st_compress = \<lambda>n b. b, st_date = \<lambda>t. [], st_sizify = \<lambda>n. [],
     st_css = [], lru_peek = map_of, lru_insert = \<lambda>k v c. (k, v) # c\<rparr>"

definition get_request :: "string \<Rightarrow> header_map \<Rightarrow> request" where
  "get_request p hs = (path_request p)\<lparr>req_parts := (req_parts (path_request p))\<lparr>rp_headers := hs\<rparr>\<rparr>"

section \<open>Built responses\<close>

lemma build_response_Stop:
  "build_response req st hs body = Stop r \<Longrightarrow>
     r = with_response req \<lparr>resp_status = st, resp_headers = hs, resp_body = body\<rparr> \<and> list_all (\<lambda>(n, v). header_value_ok v) hs"
  by (auto simp: build_response_def split: if_splits)

section \<open>Ranges\<close>

lemma plus_one_range:
  assumes "0 < len" "\<not> range_refused len (a, b)"
  shows "unat (b + 1) = unat b + 1" "unat (b - a + 1) = unat b + 1 - unat a"
proof -
  have r: "b \<le> len - 1" "a \<le> b" using assms(2) by (auto simp: range_refused_def)
  have "unat b < unat len" using r(1) assms(1) by (simp add: word_le_nat_alt unat_pred word_less_nat_alt)
  then have b: "unat b + 1 < 2 ^ 64" using u64_bound [of len] by simp
  then show "unat (b + 1) = unat b + 1" by (simp add: unat_word_ariths)
  have "unat (b - a) = unat b - unat a" using r(2) by (simp add: unat_sub)
  then show "unat (b - a + 1) = unat b + 1 - unat a" using b r(2) by (simp add: unat_word_ariths word_le_nat_alt)
qed

text \<open>
  C14: A request for a range of a file of \<open>len\<close> bytes is answered with exactly these bytes, their number
  and their position, when the file has them, and with status 416 and no bytes otherwise.
\<close>

theorem range_served_exactly:
  assumes "rp_method (req_parts req) = ''GET''" "st_read env p = Inr content" "length content = unat (md_len md)" "0 < md_len md"
    "serve_range env req p md (range_text rng) etag content_type cache_control vary = Stop r"
  shows "case range_bytes (md_len md) rng of
      None \<Rightarrow> r = with_headers req 416 [(''vary'', vary)]
    | Some (a, b) \<Rightarrow> a \<le> b \<and> b < length content \<and> (\<exists>resp. rd_response r = Some resp \<and> resp_status resp = 206 \<and>
        resp_body resp = take (b + 1 - a) (drop a content) \<and> length (resp_body resp) = b + 1 - a \<and>
        header_get ''content-length'' (resp_headers resp) = Some (dec_str (int (b + 1 - a))) \<and>
        header_get ''content-range'' (resp_headers resp) = Some (''bytes '' @ dec_str (int a) @ ''-'' @ dec_str (int b) @ ''/'' @ dec_str (int (length content))))"
proof -
  have nz: "md_len md \<noteq> 0" using assms(4) by auto
  obtain x y where p: "parse_range_header (range_text rng) (md_len md - 1) = Some (x, y)"
    "(if range_refused (md_len md) (x, y) then None else Some (unat x, unat y)) = range_bytes (md_len md) rng"
  proof -
    obtain xy where xy: "parse_range_header (range_text rng) (md_len md - 1) = Some xy"
      "(if range_refused (md_len md) xy then None else Some (unat (fst xy), unat (snd xy))) = range_bytes (md_len md) rng"
      using parse_range_header_reads_pre [OF assms(4), of rng] by blast
    show ?thesis by (rule that [of "fst xy" "snd xy"]) (use xy in \<open>simp_all only: prod.collapse\<close>)
  qed
  show ?thesis
  proof (cases "range_refused (md_len md) (x, y)")
    case True
    then have "range_bytes (md_len md) rng = None" using p(2) by simp
    then show ?thesis using nz assms(5) p(1) True by (auto simp: serve_range_def Let_def)
  next
    case False
    then have rb: "range_bytes (md_len md) rng = Some (unat x, unat y)" using p(2) by simp
    note l = plus_one_range [OF assms(4) False]
    have o: "unat x \<le> unat y" "unat y < length content"
      using False assms(3,4) by (auto simp: range_refused_def word_le_nat_alt word_less_nat_alt unat_pred)
    let ?hs = "[(''content-length'', dec_str (uint (y - x + 1))),
        (''content-range'', ''bytes '' @ dec_str (uint x) @ ''-'' @ dec_str (uint y) @ ''/'' @ dec_str (uint (md_len md)))] @
      (case etag of Some t \<Rightarrow> [(''etag'', ''W/\"'' @ t @ [CHR 0x22])] | None \<Rightarrow> []) @
      (case content_type of Some t \<Rightarrow> [(''content-type'', t)] | None \<Rightarrow> []) @ cache_control_header cache_control @ [(''vary'', vary)]"
    let ?body = "take (unat (y + 1) - unat x) (drop (unat x) content)"
    have e: "serve_range env req p md (range_text rng) etag content_type cache_control vary = build_response req 206 ?hs ?body"
      unfolding serve_range_def Let_def p(1) using nz False assms(1,2) by simp
    have r: "r = with_response req \<lparr>resp_status = 206, resp_headers = ?hs, resp_body = ?body\<rparr>"
      by (rule build_response_Stop [OF trans [OF e [symmetric] assms(5)], THEN conjunct1])
    have "uint (y - x + 1) = int (unat y + 1 - unat x)" "uint (md_len md) = int (length content)"
      using l(2) assms(3) by (simp_all only: uint_nat)
    moreover have "header_get ''content-length'' ?hs = Some (dec_str (uint (y - x + 1)))"
      "header_get ''content-range'' ?hs = Some (''bytes '' @ dec_str (uint x) @ ''-'' @ dec_str (uint y) @ ''/'' @ dec_str (uint (md_len md)))"
      by (simp_all add: header_get_def to_lowercase_def ascii_lower_def)
    ultimately have "header_get ''content-length'' ?hs = Some (dec_str (int (unat y + 1 - unat x)))"
      "header_get ''content-range'' ?hs = Some (''bytes '' @ dec_str (int (unat x)) @ ''-'' @ dec_str (int (unat y)) @ ''/'' @ dec_str (int (length content)))"
      by (simp_all only: uint_nat)
    moreover have "length ?body = unat y + 1 - unat x" using o l(1) by simp
    ultimately show ?thesis unfolding rb option.case prod.case r l(1) [symmetric]
      using o by (intro conjI exI [of _ "\<lparr>resp_status = 206, resp_headers = ?hs, resp_body = ?body\<rparr>"])
        (simp_all only: ResponseData.simps response.simps)
  qed
qed

theorem range_served_exactly_witness:
  "\<exists>r resp. serve_range example_static_env (get_request ''/a.txt'' []) ''/srv/a.txt'' (example_md 10) ''bytes=-3'' None None None ''Range'' = Stop r \<and>
     rd_response r = Some resp \<and> resp_body resp = ''789''"
proof -
  let ?s = "serve_range example_static_env (get_request ''/a.txt'' []) ''/srv/a.txt'' (example_md 10) ''bytes=-3'' None None None ''Range''"
  have t: "range_text (Last 3) = ''bytes=-3''" by code_simp
  have "case ?s of Stop r \<Rightarrow> True | _ \<Rightarrow> False" by code_simp
  then obtain r where r: "?s = Stop r" by (cases ?s) simp_all
  have a: "rp_method (req_parts (get_request ''/a.txt'' [])) = ''GET''" "st_read example_static_env ''/srv/a.txt'' = Inr ''0123456789''"
    "length ''0123456789'' = unat (md_len (example_md 10))" "0 < md_len (example_md 10)"
    by (simp_all add: get_request_def path_request_def plain_request_def example_static_env_def example_md_def)
  have "range_bytes (md_len (example_md 10)) (Last 3) = Some (7, 9)" by (simp add: example_md_def)
  with range_served_exactly [OF a r [folded t]] r show ?thesis by auto
qed

section \<open>Conditional requests\<close>

text \<open>The LRU cache forgets entries but never changes one.\<close>

definition lru_laws :: "'lru static_env \<Rightarrow> bool" where
  "lru_laws env \<longleftrightarrow> (\<forall>k v c k' w. lru_peek env (lru_insert env k v c) k' = Some w \<longrightarrow> k' = k \<and> w = v \<or> lru_peek env c k' = Some w)"

definition etags_ok :: "'lru static_env \<Rightarrow> 'lru StaticFileServingModule \<Rightarrow> bool" where
  "etags_ok env c \<longleftrightarrow> (\<forall>k t. lru_peek env (etag_cache c) k = Some t \<longrightarrow> t = hex16 (st_hash env k))"

lemma etag_of_value: "etags_ok env c \<Longrightarrow> fst (etag_of env p md c) = hex16 (st_hash env (etag_key p md))"
  by (auto simp: etag_of_def etags_ok_def Let_def split: option.split)

lemma etag_of_keeps: "lru_laws env \<Longrightarrow> etags_ok env c \<Longrightarrow> etags_ok env (snd (etag_of env p md c))"
  by (auto simp: etag_of_def etags_ok_def lru_laws_def Let_def split: option.split) blast

text \<open>The answer to a request whose entity tag matches.\<close>

lemma build_response_not_Go [simp]: "build_response req st hs body \<noteq> Go a"
  by (simp add: build_response_def)

lemma fs_failure_Stop: "fs_failure req e = Stop r \<Longrightarrow> rd_response r = None"
  by (cases e) auto

lemma serve_range_status:
  assumes "serve_range env req p md rh etag ct cc vary = Stop r" "rd_response r = Some resp"
  shows "resp_status resp = 206"
  using assms by (auto simp: serve_range_def Let_def with_headers_def split: if_splits option.splits sum.splits
      dest!: build_response_Stop fs_failure_Stop)

lemma serve_full_etag:
  assumes "serve_full env req p md cp pre (Some t) ct cc vary = Stop r" "rd_response r = Some resp"
  shows "(\<exists>e. header_get ''etag'' (resp_headers resp) = Some (weak_etag t e)) \<and> list_all (\<lambda>(n, v). header_value_ok v) (cache_control_header cc)"
  using assms unfolding serve_full_def Let_def
  by (auto split: prod.splits if_splits sum.splits dest!: build_response_Stop fs_failure_Stop
      simp: header_get_def to_lowercase_def ascii_lower_def) blast+

lemma check_preconditions_status:
  assumes "check_preconditions req t vary cc = Stop r" "rd_response r = Some resp"
  shows "resp_status resp = 304"
  using assms by (auto simp: check_preconditions_def Let_def with_headers_def bind_flow_Stop_iff split: if_splits option.splits
      dest!: build_response_Stop)

text \<open>The answer to a request whose entity tag matches.\<close>

lemma if_none_match_hit:
  assumes "header_get ''if-none-match'' (rp_headers (req_parts req)) = Some v" "header_to_str v = Some v"
    "extract_etag_inner v True = Some etag" "list_all (\<lambda>(n, x). header_value_ok x) (cache_control_header cc)"
    "header_value_ok (etag_strong_to_weak v)" "header_value_ok vary"
  shows "check_preconditions req etag vary cc = Stop (with_response req \<lparr>resp_status = 304,
    resp_headers = [(''etag'', etag_strong_to_weak v), (''vary'', vary)] @ cache_control_header cc, resp_body = []\<rparr>)"
  using assms by (simp add: check_preconditions_def build_response_def Let_def)

definition etag_alphabet :: string where
  "etag_alphabet = CHR 0x22 # ''W/-0123456789abcdefghijklmnopqrstuvwxyz''"

lemma weak_etag_chars: "set (weak_etag (hex16 w) e) \<subseteq> set etag_alphabet"
proof -
  have "set (case encoding_name e of Some n \<Rightarrow> ''-'' @ n | None \<Rightarrow> []) \<subseteq> set etag_alphabet"
  proof (cases "encoding_name e")
    case (Some n)
    have "list_all (\<lambda>n. list_all (\<lambda>c. c \<in> set etag_alphabet) n) [''br'', ''zstd'', ''deflate'', ''gzip'']" by code_simp
    with encoding_name_cases [OF Some] have "set n \<subseteq> set etag_alphabet" by (fastforce simp only: list_all_iff)
    moreover have "CHR ''-'' \<in> set etag_alphabet" by code_simp
    ultimately show ?thesis using Some by simp
  qed simp
  moreover have "list_all (\<lambda>c. c \<in> set etag_alphabet) ''0123456789abcdef''" by code_simp
  then have "set (hex16 w) \<subseteq> set etag_alphabet" using hex16_chars [of w] unfolding list_all_iff by blast
  moreover have "set ''W/\"'' \<subseteq> set etag_alphabet" "set [CHR 0x22] \<subseteq> set etag_alphabet" by (simp_all add: etag_alphabet_def)
  ultimately show ?thesis unfolding weak_etag_def set_append by (intro Un_least)
qed

lemma weak_etag_text: "header_to_str (weak_etag (hex16 w) e) = Some (weak_etag (hex16 w) e) \<and> header_value_ok (weak_etag (hex16 w) e)"
proof -
  have "list_all (\<lambda>c. 32 \<le> (of_char c :: nat) \<and> (of_char c :: nat) < 127) etag_alphabet" by code_simp
  then have "\<forall>c \<in> set (weak_etag (hex16 w) e). 32 \<le> (of_char c :: nat) \<and> (of_char c :: nat) < 127"
    using weak_etag_chars by (fastforce simp: list_all_iff)
  then show ?thesis by (auto simp: header_to_str_def header_value_ok_def list_all_iff)
qed

definition with_header :: "string \<Rightarrow> string \<Rightarrow> request \<Rightarrow> request" where
  "with_header name v req = req\<lparr>req_parts := (req_parts req)\<lparr>rp_headers := header_insert name v (rp_headers (req_parts req))\<rparr>\<rparr>"

text \<open>
  C15: A client that sends back the entity tag of an earlier answer about an unchanged file, whatever
  its content encoding was, is told that the file has not changed and gets no body; the caches the
  server went through in between do not matter.
\<close>

theorem conditional_get_not_modified:
  assumes "etags_ok env c" "etags_ok env c'" "bool_or True ''etag'' config"
    "serve_file env req config p md c = (Stop r, c1)" "rd_response r = Some resp" "resp_status resp = 200"
    "header_get ''etag'' (resp_headers resp) = Some tag"
  shows "\<exists>hs c2. serve_file env (with_header ''if-none-match'' tag req) config p md c' =
    (Stop (with_response (with_header ''if-none-match'' tag req) \<lparr>resp_status = 304, resp_headers = hs, resp_body = []\<rparr>), c2)"
proof -
  let ?req = "with_header ''if-none-match'' tag req" and ?t = "hex16 (st_hash env (etag_key p md))"
  let ?cc = "Option.bind (get_value_m ''file_cache_control'' config) as_str"
  have t: "fst (etag_of env p md c) = ?t" "fst (etag_of env p md c') = ?t" using assms(1,2) by (simp_all add: etag_of_value)
  obtain cp pre ct vary where full: "serve_full env req p md cp pre (Some ?t) ct ?cc vary = Stop r"
    using assms(3-6) t(1)
    by (auto simp: serve_file_def Let_def bind_flow_Stop_iff with_headers_def split: option.splits prod.splits
        dest: check_preconditions_status serve_range_status)
  then obtain e where e: "tag = weak_etag ?t e" and cc: "list_all (\<lambda>(n, v). header_value_ok v) (cache_control_header ?cc)"
    using serve_full_etag [OF full assms(5)] assms(7) by auto
  note tag = weak_etag_text [of "st_hash env (etag_key p md)" e] etag_round_trip_pre [of "st_hash env (etag_key p md)" e]
  have hit: "check_preconditions ?req ?t vary ?cc = Stop (with_response ?req \<lparr>resp_status = 304,
      resp_headers = [(''etag'', etag_strong_to_weak tag), (''vary'', vary)] @ cache_control_header ?cc, resp_body = []\<rparr>)"
    if "header_value_ok vary" for vary
    by (rule if_none_match_hit) (use tag cc that in \<open>simp_all add: e with_header_def\<close>)
  have v: "header_value_ok ((if a then ''Accept-Encoding, '' else []) @ (if b then ''If-Match, If-None-Match, '' else []) @ ''Range'')" for a b
    by (cases a; cases b; simp only: if_True if_False; code_simp)
  obtain c2 where "etag_of env p md c' = (?t, c2)" using t(2) by (cases "etag_of env p md c'") simp
  then show ?thesis unfolding serve_file_def Let_def using assms(3)
    by (simp only: if_True prod.case option.case hit [OF v [of _ True, simplified if_True]] bind_flow.simps) blast
qed

theorem conditional_get_not_modified_witness:
  "\<exists>hs c2. serve_file example_static_env (with_header ''if-none-match'' ''W/\"0000000000000abc\"'' (get_request ''/a.txt'' []))
     (root_config None ''/srv'') ''/srv/a.txt'' (example_md 10) (static_caches_new []) =
   (Stop (with_response (with_header ''if-none-match'' ''W/\"0000000000000abc\"'' (get_request ''/a.txt'' []))
     \<lparr>resp_status = 304, resp_headers = hs, resp_body = []\<rparr>), c2)"
proof -
  let ?c = "static_caches_new [] :: (string \<times> string) list StaticFileServingModule"
  let ?s = "serve_file example_static_env (get_request ''/a.txt'' []) (root_config None ''/srv'') ''/srv/a.txt'' (example_md 10) ?c"
  have ok: "etags_ok example_static_env ?c" by (simp add: etags_ok_def example_static_env_def static_caches_new_def)
  have t: "bool_or True ''etag'' (root_config None ''/srv'')" by code_simp
  have "case fst ?s of Stop r \<Rightarrow> (case rd_response r of
      Some resp \<Rightarrow> resp_status resp = 200 \<and> header_get ''etag'' (resp_headers resp) = Some ''W/\"0000000000000abc\"'' | None \<Rightarrow> False) | _ \<Rightarrow> False"
    by code_simp
  then obtain r resp where r: "fst ?s = Stop r" "rd_response r = Some resp" "resp_status resp = 200"
      "header_get ''etag'' (resp_headers resp) = Some ''W/\"0000000000000abc\"''"
    by (auto split: flow.splits option.splits)
  have "?s = (Stop r, snd ?s)" using r(1) by (metis prod.collapse)
  from conditional_get_not_modified [OF ok ok t this r(2-4)] show ?thesis .
qed

section \<open>Caches that outlive their question\<close>

text \<open>
  The cache of resolved paths is keyed like the one of the redirects: hosts that differ only in their
  port serve each other's files.
\<close>

lemma static_cache_crosses_ports:
  "let (r1, c1) = static_request_handler example_static_env 0 (static_caches_new []) (get_request ''/a.txt'' []) (root_config (Some 80) ''/srv'');
       (r2, c2) = static_request_handler example_static_env 1 c1 (get_request ''/a.txt'' []) (root_config (Some 81) ''/other'');
       (r3, c3) = static_request_handler example_static_env 1 (static_caches_new []) (get_request ''/a.txt'' []) (root_config (Some 81) ''/other'')
   in (case r2 of Inr rd \<Rightarrow> map_option resp_body (rd_response rd) = Some ''0123456789'' | Inl _ \<Rightarrow> False) \<and>
      r3 = Inr (with_status (get_request ''/a.txt'' []) 404)"
  by code_simp

text \<open>The checks of canonical paths are never cleaned up: their cache only grows.\<close>

lemma traversal_cache_grows:
  "dom (cache (path_traversal_check_cache c)) \<subseteq> dom (cache (path_traversal_check_cache (snd (traversal_check env now root p c))))"
  by (auto simp: traversal_check_def ttl_insert_def Let_def split: option.split)

section \<open>Links in directory listings\<close>

text \<open>
  The name of an entry is escaped, the path of the directory in front of it is not: a double quote
  in the path ends the attribute.
\<close>

lemma listing_link_unescaped:
  "contains_sub ''<a href=\"/a\"b/x\">'' (listing_row example_static_env ''/srv'' ''/a\"b'' ''x'')"
  by code_simp

end
