(* ===== verification/Static_Safety.thy ===== *)
theory Static_Safety
  imports Static_Module Url_Sanitizer Core_Module
begin

text \<open>
  From the URL of a request to the file system: what the URL sanitizer, the removal of a location
  prefix in the core module and the static file module guarantee together. The crate \<open>urlencoding\<close> is
  assumed to decode percent escapes (\<open>percent_decode\<close>), and a directory to list plain names. The main
  theorem states the confinement to the root as non-interference: the answers do not depend on
  files outside.
\<close>

section \<open>Decoding a sanitized path\<close>

fun percent_decode :: "string \<Rightarrow> string" where
  "percent_decode [] = []"
| "percent_decode (b # bs) =
     (case (b = CHR ''%'', bs) of
        (True, hi # lo # rest) \<Rightarrow>
          if is_ascii_hexdigit hi \<and> is_ascii_hexdigit lo
          then (case hex_to_byte_fast hi lo of Inr v \<Rightarrow> char_of v # percent_decode rest | Inl _ \<Rightarrow> b # percent_decode bs)
          else b # percent_decode bs
      | _ \<Rightarrow> b # percent_decode bs)"

lemma percent_decode_plain: "b \<noteq> CHR ''%'' \<Longrightarrow> percent_decode (b # bs) = b # percent_decode bs"
  by simp

lemma percent_decode_escape:
  "escape_value hi lo = Some v \<Longrightarrow> percent_decode (CHR ''%'' # hi # lo # rest) = char_of v # percent_decode rest"
  by (auto simp: escape_value_def split: if_splits sum.splits)

declare percent_decode.simps(2) [simp del]

text \<open>The escapes that a sanitized path keeps stand for none of the safe characters, so neither for a dot nor for a slash.\<close>

lemma normal_escape:
  assumes "normal_url (CHR ''%'' # hi # lo # rest)"
  obtains v where "escape_value hi lo = Some v" "char_of v \<noteq> CHR ''/''" "char_of v \<noteq> CHR ''.''" "normal_url rest"
proof -
  obtain v where v: "escape_value hi lo = Some v" "\<not> is_safe_char (char_of v)" "normal_url rest"
    using assms by (auto split: option.splits)
  have "is_safe_char CHR ''/''" "is_safe_char CHR ''.''" by (simp_all add: is_safe_char_def safe_bytes_def)
  with v(2) have "char_of v \<noteq> CHR ''/''" "char_of v \<noteq> CHR ''.''" by metis+
  with v that show ?thesis by blast
qed

lemma normal_hex_not_slash: "escape_value hi lo = Some v \<Longrightarrow> hi \<noteq> CHR ''/'' \<and> lo \<noteq> CHR ''/''"
  by (auto simp: escape_value_def is_ascii_hexdigit_def split: if_splits)

lemma percent_decode_split:
  "normal_url s \<Longrightarrow> split_on CHR ''/'' (percent_decode s) = map percent_decode (split_on CHR ''/'' s) \<and>
     list_all normal_url (split_on CHR ''/'' s)"
proof (induction s rule: url_induct)
  case (Plain b bs)
  then have IH: "split_on CHR ''/'' (percent_decode bs) = map percent_decode (split_on CHR ''/'' bs)"
    "list_all normal_url (split_on CHR ''/'' bs)" by auto
  obtain x xs where x: "split_on CHR ''/'' bs = x # xs" by (cases "split_on CHR ''/'' bs") auto
  show ?case using IH Plain(1,3) by (auto simp: percent_decode_plain x)
next
  case (Percent hi lo rest)
  obtain v where v: "escape_value hi lo = Some v" "char_of v \<noteq> CHR ''/''" "char_of v \<noteq> CHR ''.''" "normal_url rest"
    by (rule normal_escape [OF Percent(3)])
  note h = normal_hex_not_slash [OF v(1)]
  obtain x xs where x: "split_on CHR ''/'' rest = x # xs" by (cases "split_on CHR ''/'' rest") auto
  show ?case using Percent(1) Percent(3) v h by (auto simp: percent_decode_escape x)
next
  case (Short bs)
  then show ?case using normal_url_percent_short by blast
qed simp

lemma percent_decode_dots: "normal_url s \<Longrightarrow> percent_decode s = replicate n CHR ''.'' \<Longrightarrow> s = replicate n CHR ''.''"
proof (induction s arbitrary: n rule: url_induct)
  case (Plain b bs)
  then show ?case by (cases n) (auto simp: percent_decode_plain)
next
  case (Percent hi lo rest)
  obtain v where "escape_value hi lo = Some v" "char_of v \<noteq> CHR ''.''" by (rule normal_escape [OF Percent(3)])
  then show ?case using Percent(4) by (cases n) (auto simp: percent_decode_escape)
next
  case (Short bs)
  then show ?case using normal_url_percent_short by blast
qed simp

text \<open>A path as it reaches the static file module.\<close>

definition safe_path :: "string \<Rightarrow> bool" where
  "safe_path s \<longleftrightarrow> normal_url s \<and> starts_with ''/'' s \<and> ''..'' \<notin> set (split_on CHR ''/'' s)"

definition clean_rel :: "string \<Rightarrow> bool" where
  "clean_rel d \<longleftrightarrow> \<not> starts_with ''/'' d \<and> ''..'' \<notin> set (split_on CHR ''/'' d)"

lemma normal_after_slash: "normal_url (a @ CHR ''/'' # b) \<Longrightarrow> normal_url (CHR ''/'' # b)"
proof (induction a rule: url_induct)
  case (Percent hi lo rest)
  have "normal_url (rest @ CHR ''/'' # b)" using normal_escape [of hi lo "rest @ CHR ''/'' # b"] Percent(3) by auto
  then show ?case by (rule Percent(1))
next
  case (Short bs)
  have "escape_value hi (CHR ''/'') = None" "escape_value (CHR ''/'') hi = None" for hi
    using normal_hex_not_slash by (metis option.exhaust)+
  then show ?case using Short by (cases bs) (auto split: list.splits)
qed auto

lemma safe_path_suffix:
  assumes "safe_path (a @ CHR ''/'' # b)"
  shows "safe_path (CHR ''/'' # b)"
  using assms normal_after_slash [of a b] by (auto simp: safe_path_def split_on_append_sep)

lemma sanitized_path_safe:
  assumes "sanitize_url u allow = Inr s" "u \<noteq> ''*''" "u \<noteq> []"
  shows "safe_path s"
proof -
  note safe = sanitize_url_safe_pre [OF assms]
  have "starts_with ''/'' s" using safe by (cases s) auto
  with safe sanitize_url_normal [OF assms] show ?thesis by (auto simp: safe_path_def)
qed

lemma new_path_safe:
  assumes "safe_path s" "new_path_of pre s = Some t"
  shows "safe_path t"
proof (cases "s = pre")
  case True
  then show ?thesis using assms(2) by (auto simp: new_path_of_def safe_path_def needs_encoding_def)
next
  case False
  then obtain r where "s = pre @ CHR ''/'' # r" "t = CHR ''/'' # r"
    using assms(2) by (auto simp: new_path_of_def starts_with_iff strip_prefix_def split: if_splits)
  with safe_path_suffix assms(1) show ?thesis by blast
qed

lemma dropWhile_not_start: "\<not> starts_with [c] (dropWhile (\<lambda>x. x = c) s)"
  by (induction s) auto

lemma percent_decode_no_lead:
  "normal_url r \<Longrightarrow> \<not> starts_with ''/'' r \<Longrightarrow> \<not> starts_with ''/'' (percent_decode r)"
proof (induction r rule: url_induct)
  case (Percent hi lo rest)
  obtain v where "escape_value hi lo = Some v" "char_of v \<noteq> CHR ''/''" by (rule normal_escape [OF Percent(3)])
  then show ?case by (simp add: percent_decode_escape)
next
  case (Short bs)
  then show ?case using normal_url_percent_short by blast
qed (simp_all add: percent_decode_plain)

lemma relative_of_clean:
  assumes "safe_path s"
  shows "clean_rel (percent_decode (relative_of s))"
proof -
  let ?sl = "\<lambda>c. c = CHR ''/''" and ?rel = "relative_of s"
  obtain t where t: "s = CHR ''/'' # t" using assms by (cases s) (auto simp: safe_path_def)
  have "CHR ''/'' # takeWhile ?sl t = takeWhile ?sl t @ ''/''" by (induction t) auto
  then have "s = takeWhile ?sl t @ CHR ''/'' # ?rel"
    unfolding t relative_of_def by (metis append.assoc append_Cons append_Nil drop0 drop_Suc_Cons One_nat_def takeWhile_dropWhile_id)
  then have "safe_path (CHR ''/'' # ?rel)" using assms safe_path_suffix by metis
  then have rel: "normal_url ?rel" "''..'' \<notin> set (split_on CHR ''/'' ?rel)"
    by (auto simp: safe_path_def)
  have "\<not> starts_with ''/'' ?rel" unfolding relative_of_def by (rule dropWhile_not_start)
  then have "\<not> starts_with ''/'' (percent_decode ?rel)" by (rule percent_decode_no_lead [OF rel(1)])
  moreover have "''..'' \<notin> set (split_on CHR ''/'' (percent_decode ?rel))"
  proof
    assume "''..'' \<in> set (split_on CHR ''/'' (percent_decode ?rel))"
    then obtain seg where "seg \<in> set (split_on CHR ''/'' ?rel)" "percent_decode seg = replicate 2 CHR ''.''" "normal_url seg"
      using percent_decode_split [OF rel(1)] by (auto simp: list_all_iff numeral_2_eq_2)
    then have "seg = ''..''" using percent_decode_dots [of seg 2] by (simp add: numeral_2_eq_2)
    with rel(2) \<open>seg \<in> _\<close> show False by simp
  qed
  ultimately show ?thesis by (simp add: clean_rel_def)
qed

section \<open>Paths below the root\<close>

definition under :: "string \<Rightarrow> string \<Rightarrow> bool" where
  "under root p \<longleftrightarrow> (\<exists>rest. components p = components root @ rest \<and> ''..'' \<notin> set rest)"

abbreviation proper :: "string list \<Rightarrow> string list" where
  "proper cs \<equiv> filter (\<lambda>c. c \<noteq> [] \<and> c \<noteq> ''.'') cs"

lemma components_slash:
  assumes "b \<noteq> []"
  shows "components (b @ CHR ''/'' # d) = components b @ proper (split_on CHR ''/'' d)"
proof -
  have "starts_with ''/'' (b @ CHR ''/'' # d) = starts_with ''/'' b" using assms by (cases b) auto
  then show ?thesis by (simp add: components_def split_on_append_sep)
qed

lemma components_join:
  assumes "\<not> starts_with ''/'' d"
  shows "components (path_join b d) = components b @ proper (split_on CHR ''/'' d)"
proof (cases "b = []")
  case True
  then show ?thesis using assms by (simp add: path_join_def components_def)
next
  case False
  show ?thesis
  proof (cases "last b = CHR ''/''")
    case True
    then obtain b' where b: "b = b' @ ''/''" using False by (metis append_butlast_last_id)
    show ?thesis
    proof (cases "b' = []")
      case True
      then show ?thesis using assms b by (simp add: path_join_def components_def)
    next
      case False
      then show ?thesis using assms b components_slash [OF False, of d] components_slash [OF False, of "[]"]
        by (simp add: path_join_def)
    qed
  next
    case no: False
    then show ?thesis using assms False components_slash [OF False, of d] by (simp add: path_join_def)
  qed
qed

lemma under_join: "under root p \<Longrightarrow> clean_rel d \<Longrightarrow> under root (path_join p d)"
  by (auto simp: under_def components_join clean_rel_def)

lemma under_root: "clean_rel d \<Longrightarrow> under root (path_join root d)"
  by (auto simp: under_def components_join clean_rel_def)

lemma trim_tail_components: "trim_tail r \<noteq> [] \<Longrightarrow> components (rev (trim_tail r)) = components (rev r)"
proof (induction r rule: trim_tail.induct)
  case (3 c d r)
  have snoc: "components (x @ ''/'') = components x" if "x \<noteq> []" for x using components_slash [OF that, of "[]"] by simp
  have dot: "components (x @ ''/.'') = components x" if "x \<noteq> []" for x using components_slash [OF that, of "''.''"] by simp
  show ?case
  proof (cases "c = CHR ''/''")
    case True
    then show ?thesis using 3 snoc [of "rev r @ [d]"] by simp
  next
    case False
    show ?thesis
    proof (cases "c = CHR ''.'' \<and> d = CHR ''/''")
      case True
      then have "r \<noteq> []" using "3.prems" by auto
      then show ?thesis using 3 True dot [of "rev r"] by simp
    qed (use False in auto)
  qed
qed auto

lemma path_split_components:
  assumes "path_split p = Some (dir, name)"
  shows "components p = components dir @ [name]" "CHR ''/'' \<notin> set name" "dir = [] \<or> last dir = CHR ''/''"
    "name \<notin> {[], ''.'', ''..''}"
proof -
  let ?t = "trim_tail (rev p)"
  have d: "dir = rev (dropWhile (\<lambda>c. c \<noteq> CHR ''/'') ?t)" "name = rev (takeWhile (\<lambda>c. c \<noteq> CHR ''/'') ?t)"
    and n: "name \<notin> {[], ''.'', ''..''}"
    using assms by (auto simp: path_split_def Let_def split: if_splits)
  show "name \<notin> {[], ''.'', ''..''}" by (rule n)
  show ns: "CHR ''/'' \<notin> set name" using d(2) by (auto dest: set_takeWhileD)
  have "dropWhile (\<lambda>c. c \<noteq> CHR ''/'') ?t = [] \<or> hd (dropWhile (\<lambda>c. c \<noteq> CHR ''/'') ?t) = CHR ''/''"
    using hd_dropWhile [of "\<lambda>c. c \<noteq> CHR ''/''" ?t] by blast
  then show l: "dir = [] \<or> last dir = CHR ''/''" using d(1) by (simp add: last_rev)
  have "?t \<noteq> []" using n d(2) by auto
  moreover have "rev ?t = dir @ name" unfolding d by (metis rev_append takeWhile_dropWhile_id)
  ultimately have c: "components p = components (dir @ name)" using trim_tail_components [of "rev p"] by simp
  have "path_join dir name = dir @ name" using l ns n by (cases name) (auto simp: path_join_def)
  moreover have "\<not> starts_with ''/'' name" using ns by (cases name) auto
  ultimately show "components p = components dir @ [name]"
    using c components_join [of name dir] ns n by (simp add: split_on_single)
qed

lemma rsplit_dot_stem: "set (fst (rsplit_dot name)) \<subseteq> set name"
  by (auto simp: rsplit_dot_def Let_def dest: in_set_takeD)

lemma rsplit_dot_ext: "snd (rsplit_dot name) = Some e \<Longrightarrow> set e \<subseteq> set name"
  by (auto simp: rsplit_dot_def Let_def split: if_splits) (metis set_rev set_takeWhileD)

lemma no_slash_start: "c \<notin> set n \<Longrightarrow> \<not> starts_with [c] n"
  by (cases n) auto

lemma dots_last: "n \<in> {[], ''.'', ''..''} \<Longrightarrow> n = [] \<or> last n = CHR ''.''"
  by auto

lemma precompressed_under:
  assumes "under root p" "components p \<noteq> components root" "ext \<in> {''br'', ''zst'', ''deflate'', ''gz''}"
  shows "under root (precompressed_path p ext)"
proof (cases "path_split p")
  case None
  then show ?thesis using assms(1) by (simp add: precompressed_path_def with_extension_def)
next
  case (Some dn)
  obtain dir name where dn: "path_split p = Some (dir, name)" using Some by (cases dn) simp
  note c = path_split_components [OF dn]
  let ?e = "case extension p of Some e \<Rightarrow> e | None \<Rightarrow> []"
  let ?n = "fst (rsplit_dot name) @ ''.'' @ ?e @ ''.'' @ ext"
  have e: "CHR ''/'' \<notin> set ?e" using rsplit_dot_ext [of name] c(2)
    by (cases "snd (rsplit_dot name)") (auto simp: extension_def dn)
  have n: "CHR ''/'' \<notin> set ?n" using e rsplit_dot_stem [of name] c(2) assms(3) by auto
  have last: "last ?n \<noteq> CHR ''.''" using assms(3) by auto
  then have nn: "?n \<notin> {[], ''.'', ''..''}" using dots_last [of ?n] by fast
  have ns: "\<not> starts_with ''/'' ?n" by (rule no_slash_start [OF n])
  have new: "precompressed_path p ext = path_join dir ?n"
    using c(3) ns by (auto simp: precompressed_path_def with_extension_def dn path_join_def)
  from ns have comp: "components (precompressed_path p ext) = components dir @ [?n]"
    using n nn unfolding new by (simp add: components_join split_on_single)
  obtain rest where rest: "components p = components root @ rest" "''..'' \<notin> set rest" using assms(1) by (auto simp: under_def)
  with assms(2) have "rest \<noteq> []" by auto
  then have "components dir = components root @ butlast rest" using rest(1) c(1) by (metis butlast_append butlast_snoc)
  then show ?thesis unfolding under_def comp using rest(2) nn by (auto dest: in_set_butlastD)
qed

section \<open>Confinement\<close>

text \<open>Two states of the file system that agree below the root; everything else is the same.\<close>

definition same_inside :: "string \<Rightarrow> 'lru static_env \<Rightarrow> 'lru static_env \<Rightarrow> bool" where
  "same_inside root env env' \<longleftrightarrow>
     (\<forall>p. under root p \<longrightarrow> st_metadata env' p = st_metadata env p \<and> st_read env' p = st_read env p \<and> st_read_dir env' p = st_read_dir env p) \<and>
     env' = env\<lparr>st_metadata := st_metadata env', st_read := st_read env', st_read_dir := st_read_dir env'\<rparr>"

definition decodes_percent :: "'lru static_env \<Rightarrow> bool" where
  "decodes_percent env \<longleftrightarrow> (\<forall>s d. st_decode env s = Some d \<longrightarrow> d = percent_decode s)"

text \<open>The root is no regular file, and directories list names of entries.\<close>

definition file_tree :: "string \<Rightarrow> 'lru static_env \<Rightarrow> bool" where
  "file_tree root env \<longleftrightarrow>
     (\<forall>p md. components p = components root \<longrightarrow> st_metadata env p = Inr md \<longrightarrow> \<not> md_is_file md) \<and>
     (\<forall>p names. st_read_dir env p = Inr names \<longrightarrow> (\<forall>n \<in> set names. CHR ''/'' \<notin> set n \<and> n \<noteq> ''..''))"

lemma same_inside_fs:
  assumes "same_inside root env env'" "under root p"
  shows "st_metadata env' p = st_metadata env p" "st_read env' p = st_read env p" "st_read_dir env' p = st_read_dir env p"
  using assms by (simp_all add: same_inside_def)

lemma same_inside_fields:
  assumes "same_inside root env env'"
  shows "st_canonicalize env' = st_canonicalize env" "st_decode env' = st_decode env" "st_encode env' = st_encode env"
    "st_mime env' = st_mime env" "st_hash env' = st_hash env" "st_compress env' = st_compress env" "st_date env' = st_date env"
    "st_sizify env' = st_sizify env" "st_css env' = st_css env" "lru_peek env' = lru_peek env" "lru_insert env' = lru_insert env"
proof -
  obtain m r d where e: "env' = env\<lparr>st_metadata := m, st_read := r, st_read_dir := d\<rparr>"
    using assms unfolding same_inside_def by blast
  show "st_canonicalize env' = st_canonicalize env" "st_decode env' = st_decode env" "st_encode env' = st_encode env"
    "st_mime env' = st_mime env" "st_hash env' = st_hash env" "st_compress env' = st_compress env" "st_date env' = st_date env"
    "st_sizify env' = st_sizify env" "st_css env' = st_css env" "lru_peek env' = lru_peek env" "lru_insert env' = lru_insert env"
    by (simp_all add: e)
qed

lemma find_index_confined:
  assumes "same_inside root env env'" "under root dir" "list_all clean_rel is"
  shows "find_index env' req dir is = find_index env req dir is \<and>
    (\<forall>p md. find_index env req dir is = Go (Some (p, md)) \<longrightarrow> under root p \<and> st_metadata env p = Inr md)"
  using assms(3)
proof (induction "is")
  case (Cons i "is")
  have u: "under root (path_join dir i)" using Cons.prems by (simp add: under_join [OF assms(2)])
  have IH: "find_index env' req dir is = find_index env req dir is"
    "\<forall>p md. find_index env req dir is = Go (Some (p, md)) \<longrightarrow> under root p \<and> st_metadata env p = Inr md"
    using Cons by simp_all
  show ?case
    using IH u by (auto simp: same_inside_fs [OF assms(1) u] split: sum.split fs_error.split)
qed simp

lemma find_precompressed_confined:
  assumes "same_inside root env env'" "under root p" "components p \<noteq> components root"
    "fst ` set xs \<subseteq> {''br'', ''zst'', ''deflate'', ''gz''}"
  shows "find_precompressed env' p xs e = find_precompressed env p xs e \<and>
    (\<forall>q md. fst (find_precompressed env p xs e) = Some (q, md) \<longrightarrow> under root q)"
  using assms(4)
proof (induction xs arbitrary: e)
  case (Cons x xs)
  obtain ext clear where x: "x = (ext, clear)" by (cases x)
  have u: "under root (precompressed_path p ext)"
    by (rule precompressed_under [OF assms(2,3)]) (use Cons.prems x in auto)
  have IH: "find_precompressed env' p xs (clear e) = find_precompressed env p xs (clear e)"
    "\<forall>q md. fst (find_precompressed env p xs (clear e)) = Some (q, md) \<longrightarrow> under root q"
    using Cons by simp_all
  show ?case using IH u by (auto simp: x same_inside_fs [OF assms(1) u] split: sum.split)
qed simp

lemma serve_full_confined:
  assumes "same_inside root env env'" "under root p" "components p \<noteq> components root"
  shows "serve_full env' req p md cp pre etag ct cc vary = serve_full env req p md cp pre etag ct cc vary"
proof -
  have x: "fst ` set (precompressed_extensions e) \<subseteq> {''br'', ''zst'', ''deflate'', ''gz''}" for e
    by (auto simp: precompressed_extensions_def)
  note f = find_precompressed_confined [OF assms x]
  let ?c = "encodings_for req cp pre ct"
  let ?found = "if pre then find_precompressed env p (precompressed_extensions ?c) ?c else (None, ?c)"
  have eq: "(if pre then find_precompressed env' p (precompressed_extensions ?c) ?c else (None, ?c)) = ?found" using f by simp
  obtain found e where fe: "?found = (found, e)" by (cases ?found)
  obtain q mq where q: "(case found of Some x \<Rightarrow> x | None \<Rightarrow> (p, md)) = (q, mq)" by (cases "case found of Some x \<Rightarrow> x | None \<Rightarrow> (p, md)")
  have "under root q"
  proof (cases found)
    case None
    then show ?thesis using q assms(2) by simp
  next
    case (Some y)
    then have "fst (find_precompressed env p (precompressed_extensions ?c) ?c) = Some (q, mq)"
      using fe q by (auto split: if_splits)
    then show ?thesis using f by blast
  qed
  then show ?thesis
    unfolding serve_full_def Let_def eq fe q prod.case same_inside_fields [OF assms(1)]
    by (simp add: same_inside_fs [OF assms(1)])
qed

lemma serve_file_confined:
  assumes "same_inside root env env'" "under root p" "components p \<noteq> components root"
  shows "serve_file env' req config p md c = serve_file env req config p md c"
proof -
  have "etag_of env' p md c = etag_of env p md c" "content_type_of env' config p = content_type_of env config p"
    unfolding etag_of_def content_type_of_def same_inside_fields [OF assms(1)] by (rule refl)+
  moreover have "serve_range env' req p md r etag ct cc vary = serve_range env req p md r etag ct cc vary" for r etag ct cc vary
    unfolding serve_range_def same_inside_fs [OF assms(1,2)] by (rule refl)
  ultimately show ?thesis unfolding serve_file_def by (simp only: serve_full_confined [OF assms])
qed

lemma serve_directory_confined:
  assumes "same_inside root env env'" "file_tree root env" "under root p"
  shows "serve_directory env' req config p = serve_directory env req config p"
proof -
  have "clean_rel ''.maindesc''" by (simp add: clean_rel_def)
  then have d: "st_read env' (path_join p ''.maindesc'') = st_read env (path_join p ''.maindesc'')"
    using same_inside_fs [OF assms(1) under_join [OF assms(3)]] by blast
  have row: "listing_row env' p base n = listing_row env p base n" if "CHR ''/'' \<notin> set n" "n \<noteq> ''..''" for base n
  proof -
    have "clean_rel n" using that by (simp add: clean_rel_def split_on_single no_slash_start)
    note fs = same_inside_fs(1) [OF assms(1) under_join [OF assms(3) this]]
    show ?thesis unfolding listing_row_def same_inside_fields [OF assms(1)] fs by (rule refl)
  qed
  have rows: "generate_directory_listing env' p names path desc = generate_directory_listing env p names path desc"
    if "st_read_dir env p = Inr names" for names path desc
  proof -
    have "\<forall>n \<in> set names. CHR ''/'' \<notin> set n \<and> n \<noteq> ''..''" using assms(2) that unfolding file_tree_def by blast
    then have "\<forall>n \<in> set (visible_names names). CHR ''/'' \<notin> set n \<and> n \<noteq> ''..''"
      by (auto simp: visible_names_def set_sort_by)
    then have m: "map (listing_row env' p base) (visible_names names) = map (listing_row env p base) (visible_names names)" for base
      using row by (simp cong: map_cong)
    show ?thesis unfolding generate_directory_listing_def listing_rows_def same_inside_fields [OF assms(1)] m by (rule refl)
  qed
  show ?thesis
  proof (cases "st_read_dir env p")
    case (Inr names)
    show ?thesis unfolding serve_directory_def same_inside_fs [OF assms(1,3)] d Inr sum.case rows [OF Inr] by (rule refl)
  qed (simp add: serve_directory_def same_inside_fs [OF assms(1,3)] split: fs_error.split)
qed

text \<open>The paths in the cache of resolved paths are below the root.\<close>

definition paths_inside :: "string \<Rightarrow> 'lru StaticFileServingModule \<Rightarrow> bool" where
  "paths_inside root c \<longleftrightarrow> (\<forall>now k p. ttl_get now k (pathbuf_cache c) = Some p \<longrightarrow> under root p)"

lemma serve_file_keeps_paths: "pathbuf_cache (snd (serve_file env req config p md c)) = pathbuf_cache c"
  by (simp add: serve_file_def Let_def etag_of_def split: option.split prod.split)

lemma serve_path_confined:
  assumes "same_inside root env env'" "file_tree root env" "list_all clean_rel (index_names config)" "under root p" "paths_inside root c"
  shows "serve_path env' now req config key p cached c = serve_path env now req config key p cached c \<and>
    paths_inside root (snd (serve_path env now req config key p cached c))"
proof (cases "st_metadata env p")
  case (Inl e)
  then show ?thesis using assms(5) by (simp add: serve_path_def same_inside_fs [OF assms(1,4)])
next
  case (Inr md)
  note index = find_index_confined [OF assms(1,4,3), of req]
  let ?go = "if \<not> cached \<and> md_is_dir md then find_index env req p (index_names config) else Go None"
  have go: "(if \<not> cached \<and> md_is_dir md then find_index env' req p (index_names config) else Go None) = ?go" using index by simp
  show ?thesis
  proof (cases ?go)
    case (Go found)
    obtain q mq where q: "(case found of Some x \<Rightarrow> x | None \<Rightarrow> (p, md)) = (q, mq)" by (cases "case found of Some x \<Rightarrow> x | None \<Rightarrow> (p, md)")
    have uq: "under root q" "st_metadata env q = Inr mq"
      using q Go index assms(4) Inr by (cases found; auto split: if_splits)+
    define C where "C = (if cached then c else c\<lparr>pathbuf_cache := ttl_insert now key q (ttl_cleanup now (pathbuf_cache c))\<rparr>)"
    have c: "paths_inside root C" using assms(5) uq(1)
      by (auto simp: C_def paths_inside_def tc.get_ins split: if_splits dest!: ttl_get_cleanup_Some)
    have eqs: "serve_path env now req config key p cached c = (if md_is_file mq then serve_file env req config q mq C
        else if md_is_dir mq then (serve_directory env req config q, C) else (Stop (with_status req 501), C))"
      "serve_path env' now req config key p cached c = (if md_is_file mq then serve_file env' req config q mq C
        else if md_is_dir mq then (serve_directory env' req config q, C) else (Stop (with_status req 501), C))"
      unfolding serve_path_def same_inside_fs [OF assms(1,4)] Inr sum.case go Go flow.case q Let_def prod.case C_def by (rule refl)+
    have "serve_file env' req config q mq C = serve_file env req config q mq C" if "md_is_file mq"
      using serve_file_confined [OF assms(1) uq(1)] assms(2) uq(2) that unfolding file_tree_def by blast
    moreover have "paths_inside root (snd (serve_file env req config q mq C))"
      using c by (simp add: paths_inside_def serve_file_keeps_paths)
    ultimately show ?thesis using c serve_directory_confined [OF assms(1,2) uq(1), of req config] by (simp add: eqs)
  qed (use assms(5) in \<open>simp_all add: serve_path_def same_inside_fs [OF assms(1,4)] Inr go\<close>)
qed

lemma resolve_path_confined:
  assumes "same_inside root env env'" "paths_inside root c" "safe_path (uri_path (rp_uri (req_parts req)))"
    "decodes_percent env"
  shows "resolve_path env' now root key req c = resolve_path env now root key req c"
    "resolve_path env now root key req c = Go (p, cached) \<Longrightarrow> under root p"
  using relative_of_clean [OF assms(3)] assms(2,4)
  by (auto simp: resolve_path_def same_inside_fields [OF assms(1)] paths_inside_def under_root decodes_percent_def split: option.splits)

lemma static_step_confined:
  assumes "first_value_str ''root'' config = Some root" "\<not> option_value_bool ''disable_url_sanitizer'' config"
    "list_all clean_rel (index_names config)" "same_inside root env env'" "file_tree root env"
    "decodes_percent env"
    "safe_path (uri_path (rp_uri (req_parts req)))" "paths_inside root c"
  shows "static_request_handler env' now c req config = static_request_handler env now c req config \<and>
    paths_inside root (snd (static_request_handler env now c req config))"
proof -
  let ?key = "trailing_cache_key (sc_filters config) (uri_path (rp_uri (req_parts req)))"
  note res = resolve_path_confined [OF assms(4,8,7,6), of now ?key]
  show ?thesis
  proof (cases "resolve_path env now root ?key req c")
    case (Go pc)
    obtain p cached where pc: "pc = (p, cached)" by (cases pc)
    note sp = serve_path_confined [OF assms(4,5,3) res(2) [OF Go [unfolded pc]] assms(8)]
    obtain r c2 where sv: "serve_path env now req config ?key p cached c = (r, c2)" by force
    then have "serve_path env' now req config ?key p cached c = (r, c2)" "paths_inside root c2"
      using sp [of now req ?key cached] by simp_all
    then show ?thesis using assms(1,2,8) sv
      by (auto simp: static_request_handler_def Let_def res(1) Go pc)
  qed (use assms(1,2,8) in \<open>auto simp: static_request_handler_def Let_def res(1)\<close>)
qed

fun static_run ::
  "'lru static_env \<Rightarrow> ('m, 'o) ServerConfiguration \<Rightarrow> 'lru StaticFileServingModule \<Rightarrow> (nat \<times> request) list \<Rightarrow> (string + ResponseData) list" where
  "static_run env config c [] = []"
| "static_run env config c ((now, req) # rs) =
     (let (r, c') = static_request_handler env now c req config in r # static_run env config c' rs)"

text \<open>The paths of the requests: sanitized, with or without the prefix of a location removed.\<close>

definition from_sanitizer :: "string \<Rightarrow> bool" where
  "from_sanitizer path \<longleftrightarrow> (\<exists>url allow s. url \<noteq> ''*'' \<and> url \<noteq> [] \<and> sanitize_url url allow = Inr s \<and>
     (path = s \<or> (\<exists>pre. new_path_of pre s = Some path)))"

lemma from_sanitizer_safe: "from_sanitizer path \<Longrightarrow> safe_path path"
  using sanitized_path_safe new_path_safe unfolding from_sanitizer_def by metis

text \<open>
  C3: With the URL sanitizer on, no sequence of requests to a configuration can tell two file systems
  apart that agree below its root: neither contents nor existence, size, time or names of files
  outside of the root show in any answer.
\<close>

theorem static_confined:
  assumes "first_value_str ''root'' config = Some root" "\<not> option_value_bool ''disable_url_sanitizer'' config"
    "list_all clean_rel (index_names config)" "same_inside root env env'" "file_tree root env"
    "decodes_percent env"
    "list_all (\<lambda>(now, req). from_sanitizer (uri_path (rp_uri (req_parts req)))) rs"
  shows "static_run env' config (static_caches_new lru) rs = static_run env config (static_caches_new lru) rs"
proof -
  have "static_run env' config c rs = static_run env config c rs" if "paths_inside root c" for c
    using that assms(7)
  proof (induction rs arbitrary: c)
    case (Cons x rs)
    obtain now req where x: "x = (now, req)" by (cases x)
    have "safe_path (uri_path (rp_uri (req_parts req)))" using Cons.prems(2) x by (auto intro: from_sanitizer_safe)
    note st = static_step_confined [OF assms(1-6) this Cons.prems(1), of now]
    have "static_run env' config (snd (static_request_handler env now c req config)) rs =
        static_run env config (snd (static_request_handler env now c req config)) rs"
      by (rule Cons.IH) (use st Cons.prems(2) in auto)
    with st show ?case by (cases "static_request_handler env now c req config") (simp add: x)
  qed simp
  moreover have "paths_inside root (static_caches_new lru)" by (simp add: paths_inside_def static_caches_new_def)
  ultimately show ?thesis by blast
qed

text \<open>Two file systems for the example: one with a file outside of the root, one without.\<close>

definition tree_env :: "bool \<Rightarrow> (string \<times> string) list static_env" where
  "tree_env secret = example_static_env\<lparr>
     st_metadata := \<lambda>p. if p = ''/srv/a.txt'' \<or> secret \<and> p = ''/etc/passwd'' then Inr (example_md 10) else Inl NotFound,
     st_read := \<lambda>p. if p = ''/srv/a.txt'' then Inr ''0123456789'' else if secret \<and> p = ''/etc/passwd'' then Inr ''root'' else Inl NotFound,
     st_decode := \<lambda>s. Some (percent_decode s)\<rparr>"

lemma outside_srv: "\<not> under ''/srv'' ''/etc/passwd''"
proof -
  have "components ''/srv'' = [''/'', ''srv'']" "components ''/etc/passwd'' = [''/'', ''etc'', ''passwd'']" by code_simp+
  then show ?thesis by (simp add: under_def)
qed

theorem static_confined_witness:
  "static_run (tree_env True) (root_config None ''/srv'') (static_caches_new []) [(0, get_request ''/a.txt'' [])] =
   static_run (tree_env False) (root_config None ''/srv'') (static_caches_new []) [(0, get_request ''/a.txt'' [])]"
proof -
  let ?c = "root_config None ''/srv''" and ?rs = "[(0 :: nat, get_request ''/a.txt'' [])]"
  have a: "first_value_str ''root'' ?c = Some ''/srv''" "\<not> option_value_bool ''disable_url_sanitizer'' ?c"
    "list_all clean_rel (index_names ?c)" by code_simp+
  have s: "same_inside ''/srv'' (tree_env False) (tree_env True)"
    using outside_srv by (auto simp: same_inside_def tree_env_def)
  have "components ''/srv/a.txt'' \<noteq> components ''/srv''" by code_simp
  then have t: "file_tree ''/srv'' (tree_env False)"
    by (auto simp: file_tree_def tree_env_def example_static_env_def)
  have d: "decodes_percent (tree_env False)" by (simp add: decodes_percent_def tree_env_def)
  have "sanitize_url ''/x/../a.txt'' False = Inr ''/a.txt''" by code_simp
  then have "from_sanitizer ''/a.txt''" unfolding from_sanitizer_def
    by (intro exI [of _ "''/x/../a.txt''"] exI [of _ False] exI [of _ "''/a.txt''"]) simp
  then have f: "list_all (\<lambda>(now, req). from_sanitizer (uri_path (rp_uri (req_parts req)))) ?rs"
    by (simp add: get_request_def path_request_def)
  from static_confined [OF a s t d f, of "[]"] show ?thesis .
qed

text \<open>
  An escaped backslash survives sanitization: on a system whose paths are separated by
  backslashes too, the decoded path climbs out of the root.
\<close>

theorem sanitizer_keeps_escaped_backslash:
  "sanitize_url ''/..%5C..%5Csecret'' False = Inr ''/..%5C..%5Csecret'' \<and>
   percent_decode (relative_of ''/..%5C..%5Csecret'') = ''..'' @ [CHR 0x5C] @ ''..'' @ [CHR 0x5C] @ ''secret''"
  by code_simp

end
