(* ===== verification/Status_Module.thy ===== *)
theory Status_Module
  imports Module_Api Ip_Blocklist Placeholders Trailing_Module Url_Sanitizer
begin

text \<open>
  The status codes module, \<open>ferron-modules-builtin/src/status_codes.rs\<close>: custom answers, redirects, and
  HTTP Basic authentication with brute-force protection. Parameters: the regular expressions of
  \<open>fancy_regex\<close>, the decoder of the crate \<open>base64\<close>, and \<open>verify_password\<close> of \<open>password_auth\<close>, run on a
  thread that may fail to start. The counters of failed attempts are a TTL cache under the text of the
  client's address, shared by all configurations; the time of a request is read once. A location with
  an unclosed brace keeps the placeholder loop running forever: such a request has the result \<open>None\<close>.
\<close>

section \<open>Loading and validation\<close>

record 'rx status_env =
  se_cidr :: cidr_lib
  se_compile :: "string \<Rightarrow> bool \<Rightarrow> string + 'rx"
  se_find :: "'rx \<Rightarrow> string \<Rightarrow> string + string option"
  se_replace :: "'rx \<Rightarrow> string \<Rightarrow> string \<Rightarrow> string"
  se_base64 :: "string \<Rightarrow> string option"
  se_verify :: "string \<Rightarrow> string \<Rightarrow> bool option"
  se_windows :: bool

record 'rx NonStandardCode =
  nc_status_code :: u16
  nc_url :: "string option"
  nc_regex :: "'rx option"
  nc_location :: "string option"
  nc_realm :: "string option"
  nc_disable_brute_force_protection :: bool
  nc_user_list :: "string list option"
  nc_users :: "IpBlockList option"
  nc_body :: "string option"
  nc_not_allowed :: "IpBlockList option"

definition prop_str :: "string \<Rightarrow> ServerConfigurationEntry \<Rightarrow> string option" where
  "prop_str p e = Option.bind (map_of (entry_props e) p) as_str"

definition address_list :: "'rx status_env \<Rightarrow> string \<Rightarrow> ServerConfigurationEntry \<Rightarrow> IpBlockList option" where
  "address_list env p e =
     map_option (\<lambda>userlist. load_from_vec (se_cidr env) (split_on CHR '','' userlist) blocklist_new) (prop_str p e)"

definition status_code_of :: "'rx status_env \<Rightarrow> ServerConfigurationEntry \<Rightarrow> string + 'rx NonStandardCode" where
  "status_code_of env e =
     (case Option.bind (case entry_values e of [] \<Rightarrow> None | v # _ \<Rightarrow> Some v) as_i128 of
        None \<Rightarrow> Inl ''Non-standard codes must include a status code''
      | Some scode \<Rightarrow>
          if scode < 0 \<or> scode > 65535 then Inl ''out of range integral type conversion attempted''
          else (case (case prop_str ''regex'' e of None \<Rightarrow> Inr None | Some s \<Rightarrow> map_sum id Some (se_compile env s (se_windows env))) of
              Inl err \<Rightarrow> Inl (''Invalid non-standard code regular expression: '' @ err)
            | Inr regex \<Rightarrow> Inr \<lparr>nc_status_code = word_of_int scode, nc_url = prop_str ''url'' e, nc_regex = regex,
                nc_location = prop_str ''location'' e, nc_realm = prop_str ''realm'' e,
                nc_disable_brute_force_protection = (\<not> prop_bool ''brute_protection'' True e),
                nc_user_list = map_option (split_on CHR '','') (prop_str ''users'' e),
                nc_users = address_list env ''allowed'' e, nc_body = prop_str ''body'' e,
                nc_not_allowed = address_list env ''not_allowed'' e\<rparr>))"

fun status_codes_of :: "'rx status_env \<Rightarrow> entries \<Rightarrow> string + 'rx NonStandardCode list" where
  "status_codes_of env [] = Inr []"
| "status_codes_of env (e # es) =
     (case status_code_of env e of
        Inl err \<Rightarrow> Inl err
      | Inr code \<Rightarrow> map_sum id (\<lambda>codes. code # codes) (status_codes_of env es))"

definition status_init :: "'rx status_env \<Rightarrow> ('m, 'o) ServerConfiguration \<Rightarrow> string + 'rx NonStandardCode list" where
  "status_init env config = (case get_entries_m ''status'' config of None \<Rightarrow> Inr [] | Some es \<Rightarrow> status_codes_of env es)"

definition status_loader_new :: "'rx NonStandardCode list ModuleCache" where
  "status_loader_new = module_cache_new [''status'']"

type_synonym brute_force_db = "(string, u8) TtlCache"

definition brute_force_db_new :: brute_force_db where
  "brute_force_db_new = ttl_new 300000"

definition status_load_module ::
  "'rx status_env \<Rightarrow> ('m, 'o) ServerConfiguration \<Rightarrow> 'rx NonStandardCode list ModuleCache \<Rightarrow>
     (string + 'rx NonStandardCode list) \<times> 'rx NonStandardCode list ModuleCache" where
  "status_load_module env config c = cache_get_or_init (status_init env) config c"

definition check_status_entry :: entry_check where
  "check_status_entry e = check_all
     [(length (entry_values e) \<noteq> 1, ''The `status` configuration property must have exactly one value''),
      (\<not> value_is is_integer 0 e, ''The custom status code must be a string''),
      (\<not> prop_is is_string ''url'' e, ''The custom status code URL must be a string''),
      (\<not> prop_is is_string ''regex'' e, ''The custom status code regular expression must be a string''),
      (\<not> prop_is is_string ''location'' e, ''The custom status code redirect destination must be a string''),
      (\<not> prop_is is_string ''realm'' e, ''The custom status code HTTP authentication realm must be a string''),
      (\<not> prop_is is_bool ''brute_protection'' e,
         ''The custom status code HTTP authentication brute-force protection realm must be boolean''),
      (\<not> prop_is is_string ''users'' e, ''The custom status code HTTP authentication allowed users list must be a string''),
      (\<not> prop_is is_string ''brute_protection'' e, ''The custom status code allowed clients list must be a string''),
      (\<not> prop_is is_string ''body'' e, ''The custom status code response body must be a string'')]"

definition status_rules :: "(string \<times> entry_check) list" where
  "status_rules = [(''status'', check_status_entry), two_values ''user'' is_string ''Invalid username'' is_string ''Invalid password hash'']"

definition status_validate_configuration ::
  "('m, 'o) ServerConfiguration \<Rightarrow> string set \<Rightarrow> (string + unit) \<times> string set" where
  "status_validate_configuration = validate_rules status_rules"

section \<open>The request handler\<close>

definition parse_basic_auth :: "'rx status_env \<Rightarrow> string \<Rightarrow> (string \<times> string) option" where
  "parse_basic_auth env auth_str =
     Option.bind (strip_prefix ''Basic '' auth_str) (\<lambda>base64_credentials.
     Option.bind (se_base64 env base64_credentials) (\<lambda>decoded.
       if valid_utf8 decoded then split_once CHR '':'' decoded else None))"

definition not_applicable :: "'rx status_env \<Rightarrow> 'rx NonStandardCode \<Rightarrow> IpAddr \<Rightarrow> bool" where
  "not_applicable env code addr \<longleftrightarrow>
     (case nc_users code of None \<Rightarrow> False | Some allowed \<Rightarrow> is_blocked (se_cidr env) allowed addr) \<or>
     \<not> (case nc_not_allowed code of None \<Rightarrow> True | Some not_allowed \<Rightarrow> is_blocked (se_cidr env) not_allowed addr)"

definition is_redirect :: "u16 \<Rightarrow> bool" where
  "is_redirect c \<longleftrightarrow> c = 301 \<or> c = 302 \<or> c = 307 \<or> c = 308"

text \<open>The target of a redirect: the location with its placeholders expanded, if the code is a redirect and has one.\<close>

definition located ::
  "'rx NonStandardCode \<Rightarrow> request_parts \<Rightarrow> SocketData \<Rightarrow> (string \<Rightarrow> string) \<Rightarrow> string \<Rightarrow> (string, bool \<times> string option) run" where
  "located code parts socket pre suffix =
     (case nc_location code of
        Some location \<Rightarrow>
          if is_redirect (nc_status_code code)
          then map_option (\<lambda>s. Inr (True, Some (s @ suffix))) (replace_header_placeholders (pre location) parts (Some socket))
          else ret (True, None)
      | None \<Rightarrow> ret (True, None))"

text \<open>Whether a code matches the URL, and where it redirects to.\<close>

definition url_match ::
  "'rx status_env \<Rightarrow> 'rx NonStandardCode \<Rightarrow> request_parts \<Rightarrow> SocketData \<Rightarrow> string \<Rightarrow> (string, bool \<times> string option) run" where
  "url_match env code parts socket request_url =
     (if nc_regex code = None \<and> nc_url code = None then located code parts socket id []
      else bind_run
        (case nc_regex code of
           None \<Rightarrow> ret (False, None)
         | Some regex \<Rightarrow>
             (case se_find env regex request_url of
                Inl err \<Rightarrow> Some (Inl err)
              | Inr None \<Rightarrow> ret (False, None)
              | Inr (Some matched_text) \<Rightarrow> located code parts socket (se_replace env regex matched_text) []))
        (\<lambda>(matched, target).
           if matched then ret (matched, target)
           else (case nc_url code of
               None \<Rightarrow> ret (False, None)
             | Some url \<Rightarrow> if url = uri_path (rp_uri parts) then located code parts socket id (query_suffix (rp_uri parts))
                         else ret (False, None))))"

text \<open>The loop over the \<open>user\<close> entries; the error is a verification that could not be started.\<close>

fun find_user :: "'rx status_env \<Rightarrow> string list option \<Rightarrow> string \<Rightarrow> string \<Rightarrow> entries \<Rightarrow> string + bool" where
  "find_user env user_list username password [] = Inr False"
| "find_user env user_list username password (e # es) =
     (case entry_values e of
        VString username_db # rest \<Rightarrow>
          if username_db \<noteq> username \<or> (case user_list of None \<Rightarrow> False | Some l \<Rightarrow> username \<notin> set l)
          then find_user env user_list username password es
          else (case rest of
              VString password_hash_db # _ \<Rightarrow>
                (case se_verify env password password_hash_db of
                   None \<Rightarrow> Inl ''Can't spawn a blocking task to verify the password''
                 | Some True \<Rightarrow> Inr True
                 | Some False \<Rightarrow> find_user env user_list username password es)
            | _ \<Rightarrow> find_user env user_list username password es)
      | _ \<Rightarrow> find_user env user_list username password es)"

text \<open>Brute-force protection: the attempts of a client, and the record of one more.\<close>

definition current_attempts :: "nat \<Rightarrow> string \<Rightarrow> brute_force_db \<Rightarrow> u8" where
  "current_attempts now key db = (case ttl_get now key db of Some n \<Rightarrow> n | None \<Rightarrow> 0)"

definition record_attempt :: "nat \<Rightarrow> string \<Rightarrow> brute_force_db \<Rightarrow> brute_force_db" where
  "record_attempt now key db =
     (let db' = ttl_cleanup now db in ttl_insert now key (current_attempts now key db' + 1) db')"

definition realm_header :: "'rx NonStandardCode \<Rightarrow> string" where
  "realm_header code = ''Basic realm=\"'' @
     replace_all [CHR 0x22] [CHR 0x5C, CHR 0x22] (replace_all [CHR 0x5C] [CHR 0x5C, CHR 0x5C]
       (case nc_realm code of Some r \<Rightarrow> r | None \<Rightarrow> ''Ferron HTTP Basic Authorization'')) @ ''\", charset=\"UTF-8\"''"

definition unauthorized :: "request \<Rightarrow> 'rx NonStandardCode \<Rightarrow> string flow" where
  "unauthorized req code =
     (let header_map = [(''www-authenticate'', realm_header code)]
      in case nc_body code of
           Some body \<Rightarrow> Stop (with_response req \<lparr>resp_status = 401, resp_headers = header_map, resp_body = body\<rparr>)
         | None \<Rightarrow> Stop ((with_status req 401)\<lparr>rd_response_headers := Some header_map\<rparr>))"

text \<open>The code 401: the user that is let through, the messages logged, and the counters.\<close>

definition check_credentials ::
  "'rx status_env \<Rightarrow> nat \<Rightarrow> 'rx NonStandardCode \<Rightarrow> request \<Rightarrow> ('m, 'o) ServerConfiguration \<Rightarrow> IpAddr \<Rightarrow> string \<times> string \<Rightarrow>
     brute_force_db \<Rightarrow> string flow \<times> string list \<times> brute_force_db" where
  "check_credentials env now code req config addr credentials db =
     (let (username, password) = credentials
      in case (case get_entries_m ''user'' config of None \<Rightarrow> Inr False | Some es \<Rightarrow> find_user env (nc_user_list code) username password es) of
           Inl err \<Rightarrow> (Fail err, [], db)
         | Inr True \<Rightarrow> (Go username, [], db)
         | Inr False \<Rightarrow>
             (unauthorized req code,
              [''Authorization failed for user \"'' @ username @ ''\" and client \"'' @ ip_to_string addr @ [CHR 0x22]],
              if nc_disable_brute_force_protection code then db else record_attempt now (ip_to_string addr) db))"

definition authenticate ::
  "'rx status_env \<Rightarrow> nat \<Rightarrow> 'rx NonStandardCode \<Rightarrow> request \<Rightarrow> ('m, 'o) ServerConfiguration \<Rightarrow> IpAddr \<Rightarrow>
     brute_force_db \<Rightarrow> string flow \<times> string list \<times> brute_force_db" where
  "authenticate env now code req config addr db =
     (if \<not> nc_disable_brute_force_protection code \<and> current_attempts now (ip_to_string addr) db \<ge> 10
      then (Stop (with_status req 429),
            [''Too many failed authorization attempts for client \"'' @ ip_to_string addr @ [CHR 0x22]], db)
      else if \<not> header_value_ok (realm_header code) then (Fail ''failed to parse header value'', [], db)
      else case header_get ''authorization'' (rp_headers (req_parts req)) of
        None \<Rightarrow> (unauthorized req code, [], db)
      | Some v \<Rightarrow>
          (case header_to_str v of
             None \<Rightarrow> (Stop (with_status req 400), [], db)
           | Some authorization_str \<Rightarrow>
               (case parse_basic_auth env authorization_str of
                  None \<Rightarrow> (unauthorized req code, [], db)
                | Some credentials \<Rightarrow> check_credentials env now code req config addr credentials db)))"

text \<open>Codes other than 401.\<close>

definition redirect_answer :: "request \<Rightarrow> 'rx NonStandardCode \<Rightarrow> string \<Rightarrow> 'a flow" where
  "redirect_answer req code target =
     (if header_value_ok target
      then Stop (with_response req \<lparr>resp_status = unat (nc_status_code code), resp_headers = [(''location'', target)],
        resp_body = (case nc_body code of Some body \<Rightarrow> body | None \<Rightarrow> [])\<rparr>)
      else Fail ''failed to parse header value'')"

definition custom_answer :: "request \<Rightarrow> 'rx NonStandardCode \<Rightarrow> 'a flow \<times> string list" where
  "custom_answer req code =
     (if nc_status_code code < 100 \<or> nc_status_code code > 999 then (Fail ''invalid status code'', [])
      else case nc_body code of
        Some body \<Rightarrow> (Stop (with_response req \<lparr>resp_status = unat (nc_status_code code), resp_headers = [], resp_body = body\<rparr>), [])
      | None \<Rightarrow> (Stop (with_status req (unat (nc_status_code code))),
          if nc_status_code code = 200
          then [''\"status 200\" used without a response body. Ferron will return a default page.''] else []))"

text \<open>The loop over the codes. It ends with the user of the last code 401 that was passed.\<close>

fun status_loop ::
  "'rx status_env \<Rightarrow> nat \<Rightarrow> request \<Rightarrow> ('m, 'o) ServerConfiguration \<Rightarrow> SocketData \<Rightarrow> 'rx NonStandardCode list \<Rightarrow> string option \<Rightarrow>
     brute_force_db \<Rightarrow> (string option flow \<times> string list \<times> brute_force_db) option" where
  "status_loop env now req config socket [] user db = Some (Go user, [], db)"
| "status_loop env now req config socket (code # codes) user db =
     (if not_applicable env code (sa_ip (remote_addr socket)) then status_loop env now req config socket codes user db
      else let u = rp_uri (req_parts req); request_url = uri_path u @ query_suffix u
        in case url_match env code (req_parts req) socket request_url of
             None \<Rightarrow> None
           | Some (Inl err) \<Rightarrow> Some (Fail err, [], db)
           | Some (Inr (False, _)) \<Rightarrow> status_loop env now req config socket codes user db
           | Some (Inr (True, target)) \<Rightarrow>
               if is_redirect (nc_status_code code)
               then Some (redirect_answer req code (case target of Some t \<Rightarrow> t | None \<Rightarrow> request_url), [], db)
               else if nc_status_code code = 401
               then (case authenticate env now code req config (sa_ip (remote_addr socket)) db of
                   (Go name, log, db') \<Rightarrow> status_loop env now req config socket codes (Some name) db'
                 | (Stop r, log, db') \<Rightarrow> Some (Stop r, log, db')
                 | (Fail err, log, db') \<Rightarrow> Some (Fail err, log, db'))
               else (let (r, log) = custom_answer req code in Some (r, log, db)))"

definition set_auth_user :: "string option \<Rightarrow> request \<Rightarrow> request" where
  "set_auth_user user req =
     (case (user, req_data req) of
        (Some name, Some d) \<Rightarrow> req\<lparr>req_data := Some (d\<lparr>auth_user := Some name\<rparr>)\<rparr>
      | _ \<Rightarrow> req)"

definition status_request_handler ::
  "'rx status_env \<Rightarrow> nat \<Rightarrow> 'rx NonStandardCode list \<Rightarrow> request \<Rightarrow> ('m, 'o) ServerConfiguration \<Rightarrow> SocketData \<Rightarrow>
     brute_force_db \<Rightarrow> ((string + ResponseData) \<times> string list \<times> brute_force_db) option" where
  "status_request_handler env now codes req config socket db =
     map_option (\<lambda>(r, log, db'). (run_flow (bind_flow r (\<lambda>user. Go (pass_on (set_auth_user user req)))), log, db'))
       (status_loop env now req config socket codes None db)"

section \<open>Who is let through\<close>

text \<open>The credentials of a request, and the users they are checked against, without the loop.\<close>

definition credentials_of :: "'rx status_env \<Rightarrow> request \<Rightarrow> (string \<times> string) option" where
  "credentials_of env req =
     Option.bind (header_get ''authorization'' (rp_headers (req_parts req))) (\<lambda>v. Option.bind (header_to_str v) (parse_basic_auth env))"

text \<open>Whether an entry is the user's, with the right password.\<close>

definition user_entry_ok :: "'rx status_env \<Rightarrow> string \<Rightarrow> string \<Rightarrow> ServerConfigurationEntry \<Rightarrow> bool" where
  "user_entry_ok env username password e \<longleftrightarrow>
     (\<exists>h rest. entry_values e = VString username # VString h # rest \<and> se_verify env password h = Some True)"

definition valid_user :: "'rx status_env \<Rightarrow> ('m, 'o) ServerConfiguration \<Rightarrow> string list option \<Rightarrow> string \<Rightarrow> string \<Rightarrow> bool" where
  "valid_user env config user_list username password \<longleftrightarrow>
     (\<exists>es. get_entries_m ''user'' config = Some es \<and> (\<exists>e \<in> set es. user_entry_ok env username password e)) \<and>
     (case user_list of None \<Rightarrow> True | Some l \<Rightarrow> username \<in> set l)"

definition locked_out :: "nat \<Rightarrow> 'rx NonStandardCode \<Rightarrow> IpAddr \<Rightarrow> brute_force_db \<Rightarrow> bool" where
  "locked_out now code addr db \<longleftrightarrow>
     \<not> nc_disable_brute_force_protection code \<and> current_attempts now (ip_to_string addr) db \<ge> 10"

text \<open>A code that does not end the request: it does not apply, or it is a 401 with the right credentials.\<close>

definition code_passed ::
  "'rx status_env \<Rightarrow> nat \<Rightarrow> request \<Rightarrow> ('m, 'o) ServerConfiguration \<Rightarrow> SocketData \<Rightarrow> brute_force_db \<Rightarrow> 'rx NonStandardCode \<Rightarrow> bool" where
  "code_passed env now req config socket db code \<longleftrightarrow>
     not_applicable env code (sa_ip (remote_addr socket)) \<or>
     (\<exists>matched target. url_match env code (req_parts req) socket
          (uri_path (rp_uri (req_parts req)) @ query_suffix (rp_uri (req_parts req))) = ret (matched, target) \<and>
        (matched \<longrightarrow> nc_status_code code = 401 \<and> \<not> locked_out now code (sa_ip (remote_addr socket)) db \<and>
           header_value_ok (realm_header code) \<and>
           (\<exists>username password. credentials_of env req = Some (username, password) \<and>
              valid_user env config (nc_user_list code) username password)))"

lemma find_user_Cons:
  assumes "\<And>p h. se_verify env p h \<noteq> None"
  shows "find_user env ul username password (e # es) =
    (if user_entry_ok env username password e \<and> (case ul of None \<Rightarrow> True | Some l \<Rightarrow> username \<in> set l) then Inr True
     else find_user env ul username password es)"
proof -
  have v: "\<exists>b. se_verify env password h = Some b" for h using assms by (metis option.exhaust)
  show ?thesis
  proof (cases "\<exists>h rest. entry_values e = VString username # VString h # rest")
    case True
    then obtain h rest where "entry_values e = VString username # VString h # rest" by blast
    with v [of h] show ?thesis by (cases ul) (auto simp: user_entry_ok_def split: bool.splits)
  next
    case False
    then show ?thesis
      by (auto simp: user_entry_ok_def split: list.splits ServerConfigurationValue.splits)
  qed
qed

lemma find_user_eq:
  assumes "\<And>p h. se_verify env p h \<noteq> None"
  shows "find_user env ul username password es =
    Inr ((\<exists>e \<in> set es. user_entry_ok env username password e) \<and> (case ul of None \<Rightarrow> True | Some l \<Rightarrow> username \<in> set l))"
  using assms by (induction es) (auto simp: find_user_Cons simp del: find_user.simps(2))

lemma check_credentials_eq:
  assumes "\<And>p h. se_verify env p h \<noteq> None"
  shows "check_credentials env now code req config addr (username, password) db =
    (if valid_user env config (nc_user_list code) username password then (Go username, [], db)
     else (unauthorized req code,
       [''Authorization failed for user \"'' @ username @ ''\" and client \"'' @ ip_to_string addr @ [CHR 0x22]],
       if nc_disable_brute_force_protection code then db else record_attempt now (ip_to_string addr) db))"
  by (cases "get_entries_m ''user'' config")
    (simp_all add: check_credentials_def valid_user_def find_user_eq [OF assms])

text \<open>The status of the answer a handler gives, if it gives one.\<close>

definition answer_status :: "ResponseData \<Rightarrow> nat option" where
  "answer_status r = (case rd_response r of Some x \<Rightarrow> Some (resp_status x) | None \<Rightarrow> rd_response_status r)"

lemma answer_status_simps [simp]:
  "answer_status (pass_on req) = None" "answer_status (with_status req st) = Some st"
  "answer_status (with_response req x) = Some (resp_status x)"
  by (simp_all add: answer_status_def)

lemma unauthorized_Stop: "\<exists>r. unauthorized req code = Stop r \<and> answer_status r = Some 401"
  by (cases "nc_body code") (simp_all add: unauthorized_def answer_status_def)

lemma unauthorized_not_Go [simp]: "unauthorized req code \<noteq> Go x" "unauthorized req code \<noteq> Fail e"
  using unauthorized_Stop [of req code] by auto

lemma redirect_answer_not_Go [simp]: "redirect_answer req code target \<noteq> Go x"
  by (simp add: redirect_answer_def)

lemma custom_answer_not_Go [simp]: "custom_answer req code \<noteq> (Go x, log)"
  by (simp add: custom_answer_def split: option.split)

text \<open>What the code 401 does, case by case.\<close>

lemma authenticate_eq:
  assumes "\<And>p h. se_verify env p h \<noteq> None"
  shows "authenticate env now code req config addr db =
    (if locked_out now code addr db
     then (Stop (with_status req 429), [''Too many failed authorization attempts for client \"'' @ ip_to_string addr @ [CHR 0x22]], db)
     else if \<not> header_value_ok (realm_header code) then (Fail ''failed to parse header value'', [], db)
     else case credentials_of env req of
       Some (username, password) \<Rightarrow>
         if valid_user env config (nc_user_list code) username password then (Go username, [], db)
         else (unauthorized req code,
           [''Authorization failed for user \"'' @ username @ ''\" and client \"'' @ ip_to_string addr @ [CHR 0x22]],
           if nc_disable_brute_force_protection code then db else record_attempt now (ip_to_string addr) db)
     | None \<Rightarrow>
         (if \<exists>v. header_get ''authorization'' (rp_headers (req_parts req)) = Some v \<and> header_to_str v = None
          then Stop (with_status req 400) else unauthorized req code, [], db))"
  unfolding authenticate_def locked_out_def credentials_of_def
  by (auto simp: check_credentials_eq [OF assms] split: option.split)

text \<open>Every answer a code gives has a status: 401 from a code 401 only.\<close>

lemma redirect_answer_status:
  "is_redirect (nc_status_code code) \<Longrightarrow> redirect_answer req code target = Stop r \<Longrightarrow>
     \<exists>s. answer_status r = Some s \<and> s \<noteq> 401"
  by (auto simp: redirect_answer_def is_redirect_def split: if_splits)

lemma custom_answer_status:
  assumes "custom_answer req code = (Stop r, log)" "nc_status_code code \<noteq> 401"
  shows "\<exists>s. answer_status r = Some s \<and> s \<noteq> 401"
proof -
  have "unat (nc_status_code code) \<noteq> 401"
    using assms(2) by (simp add: word_unat_eq_iff)
  then show ?thesis using assms(1) by (auto simp: custom_answer_def split: if_splits option.splits)
qed

text \<open>One code: where the loop ends, or the user to go on with.\<close>

definition code_step ::
  "'rx status_env \<Rightarrow> nat \<Rightarrow> request \<Rightarrow> ('m, 'o) ServerConfiguration \<Rightarrow> SocketData \<Rightarrow> 'rx NonStandardCode \<Rightarrow> string option \<Rightarrow>
     brute_force_db \<Rightarrow> (string option flow \<times> string list \<times> brute_force_db) option" where
  "code_step env now req config socket code user db = status_loop env now req config socket [code] user db"

lemma status_loop_Cons:
  "status_loop env now req config socket (code # codes) user db =
     (case code_step env now req config socket code user db of
        Some (Go user', log, db') \<Rightarrow> status_loop env now req config socket codes user' db'
      | r \<Rightarrow> r)"
  unfolding code_step_def
  by (simp add: Let_def split: option.split sum.split bool.split prod.split flow.split)

declare status_loop.simps(2) [simp del]

lemma code_step_matched:
  assumes "\<not> not_applicable env code (sa_ip (remote_addr socket))"
    and "url_match env code (req_parts req) socket (uri_path (rp_uri (req_parts req)) @ query_suffix (rp_uri (req_parts req))) =
      ret (True, target)"
  shows "code_step env now req config socket code user db =
    (if is_redirect (nc_status_code code)
     then Some (redirect_answer req code (case target of Some t \<Rightarrow> t
       | None \<Rightarrow> uri_path (rp_uri (req_parts req)) @ query_suffix (rp_uri (req_parts req))), [], db)
     else if nc_status_code code = 401
     then (case authenticate env now code req config (sa_ip (remote_addr socket)) db of
         (Go name, log, db') \<Rightarrow> Some (Go (Some name), [], db')
       | (Stop r, log, db') \<Rightarrow> Some (Stop r, log, db')
       | (Fail err, log, db') \<Rightarrow> Some (Fail err, log, db'))
     else (let (r, log) = custom_answer req code in Some (r, log, db)))"
  using assms by (simp add: code_step_def status_loop.simps Let_def split: prod.split flow.split)

lemma code_step_passed:
  assumes "\<And>p h. se_verify env p h \<noteq> None" "code_passed env now req config socket db code"
  shows "\<exists>u. code_step env now req config socket code user db = Some (Go u, [], db)"
proof (cases "not_applicable env code (sa_ip (remote_addr socket))")
  case True
  then show ?thesis by (simp add: code_step_def status_loop.simps)
next
  case False
  then obtain matched target where m:
    "url_match env code (req_parts req) socket (uri_path (rp_uri (req_parts req)) @ query_suffix (rp_uri (req_parts req))) = ret (matched, target)"
    "matched \<longrightarrow> nc_status_code code = 401 \<and> \<not> locked_out now code (sa_ip (remote_addr socket)) db \<and>
       header_value_ok (realm_header code) \<and> (\<exists>username password. credentials_of env req = Some (username, password) \<and>
       valid_user env config (nc_user_list code) username password)"
    using assms(2) unfolding code_passed_def by blast
  show ?thesis
  proof (cases matched)
    case True
    with m False show ?thesis by (auto simp: code_step_matched is_redirect_def authenticate_eq [OF assms(1)])
  next
    case matched: False
    with m False show ?thesis by (simp add: code_step_def status_loop.simps)
  qed
qed

lemma code_step_ended:
  assumes v: "\<And>p h. se_verify env p h \<noteq> None" and "\<not> code_passed env now req config socket db code"
    and "code_step env now req config socket code user db = Some (r, log, db')"
  shows "(\<exists>e. r = Fail e) \<or> (\<exists>x. r = Stop x \<and> answer_status x \<noteq> None)"
proof -
  note n = assms(2) [unfolded code_passed_def, simplified]
  let ?u = "uri_path (rp_uri (req_parts req)) @ query_suffix (rp_uri (req_parts req))"
  have app: "\<not> not_applicable env code (sa_ip (remote_addr socket))" using n by blast
  show ?thesis
  proof (cases "url_match env code (req_parts req) socket ?u")
    case None
    with app assms(3) show ?thesis by (simp add: code_step_def status_loop.simps)
  next
    case (Some m)
    show ?thesis
    proof (cases m)
      case (Inl e)
      with app Some assms(3) show ?thesis by (auto simp: code_step_def status_loop.simps)
    next
      case (Inr p)
      then obtain target where "p = (True, target)" using n Some by (cases p; cases "fst p") auto
      then have m: "url_match env code (req_parts req) socket ?u = ret (True, target)" using Some Inr by simp
      note s = assms(3) [unfolded code_step_matched [OF app m]]
      show ?thesis
      proof (cases "is_redirect (nc_status_code code)")
        case True
        with s show ?thesis by (auto simp: redirect_answer_def split: if_splits)
      next
        case False
        show ?thesis
        proof (cases "nc_status_code code = 401")
          case True
          have "\<not> (\<exists>name. fst (authenticate env now code req config (sa_ip (remote_addr socket)) db) = Go name)"
            using n m True by (auto simp: authenticate_eq [OF v] split: option.splits)
          then show ?thesis using s False True unauthorized_Stop [of req code]
            by (auto simp: authenticate_eq [OF v] split: option.splits if_splits)
        next
          case other: False
          with s False show ?thesis by (auto simp: custom_answer_def split: if_splits option.splits)
        qed
      qed
    qed
  qed
qed

lemma status_loop_iff:
  assumes "\<And>p h. se_verify env p h \<noteq> None"
  shows "(\<exists>u log db'. status_loop env now req config socket codes user db = Some (Go u, log, db')) \<longleftrightarrow>
    list_all (code_passed env now req config socket db) codes"
proof (induction codes arbitrary: user)
  case (Cons code codes)
  show ?case
  proof (cases "code_passed env now req config socket db code")
    case True
    then obtain u where "code_step env now req config socket code user db = Some (Go u, [], db)"
      using code_step_passed [OF assms] by blast
    with True Cons show ?thesis by (simp add: status_loop_Cons)
  next
    case False
    then have "\<not> list_all (code_passed env now req config socket db) (code # codes)" by simp
    moreover have "status_loop env now req config socket (code # codes) user db \<noteq> Some (Go u, log, db')" for u log db'
    proof (cases "code_step env now req config socket code user db")
      case (Some s)
      obtain r l d where s: "s = (r, l, d)" by (cases s)
      show ?thesis using code_step_ended [OF assms False Some [unfolded s]] Some s by (auto simp: status_loop_Cons)
    qed (simp add: status_loop_Cons)
    ultimately show ?thesis by blast
  qed
qed simp

lemma status_loop_Stop:
  assumes "\<And>p h. se_verify env p h \<noteq> None" "status_loop env now req config socket codes user db = Some (Stop r, log, db')"
  shows "answer_status r \<noteq> None"
  using assms(2)
proof (induction codes arbitrary: user)
  case (Cons code codes)
  show ?case
  proof (cases "code_passed env now req config socket db code")
    case True
    then obtain u where "code_step env now req config socket code user db = Some (Go u, [], db)"
      using code_step_passed [OF assms(1)] by blast
    with Cons show ?thesis by (simp add: status_loop_Cons)
  next
    case False
    show ?thesis
    proof (cases "code_step env now req config socket code user db")
      case None
      then show ?thesis using Cons.prems by (simp add: status_loop_Cons)
    next
      case (Some s)
      obtain q l d where s: "s = (q, l, d)" by (cases s)
      show ?thesis using code_step_ended [OF assms(1) False Some [unfolded s]] Some s Cons.prems
        by (auto simp: status_loop_Cons)
    qed
  qed
qed simp

text \<open>
  What the documentation promises of a code that is not restricted to some clients: it applies to every URL if it
  names none, and otherwise to those its expression or its path matches; a 401 is passed with the right credentials.
\<close>

definition url_hit :: "'rx status_env \<Rightarrow> request \<Rightarrow> 'rx NonStandardCode \<Rightarrow> bool" where
  "url_hit env req code \<longleftrightarrow>
     nc_regex code = None \<and> nc_url code = None \<or>
     (\<exists>regex part. nc_regex code = Some regex \<and>
        se_find env regex (uri_path (rp_uri (req_parts req)) @ query_suffix (rp_uri (req_parts req))) = Inr (Some part)) \<or>
     nc_url code = Some (uri_path (rp_uri (req_parts req)))"

definition regex_fails :: "'rx status_env \<Rightarrow> request \<Rightarrow> 'rx NonStandardCode \<Rightarrow> bool" where
  "regex_fails env req code \<longleftrightarrow>
     (\<exists>regex err. nc_regex code = Some regex \<and>
        se_find env regex (uri_path (rp_uri (req_parts req)) @ query_suffix (rp_uri (req_parts req))) = Inl err)"

definition passes_code ::
  "'rx status_env \<Rightarrow> nat \<Rightarrow> request \<Rightarrow> ('m, 'o) ServerConfiguration \<Rightarrow> SocketData \<Rightarrow> brute_force_db \<Rightarrow> 'rx NonStandardCode \<Rightarrow> bool" where
  "passes_code env now req config socket db code \<longleftrightarrow>
     \<not> regex_fails env req code \<and>
     (url_hit env req code \<longrightarrow> nc_status_code code = 401 \<and> \<not> locked_out now code (sa_ip (remote_addr socket)) db \<and>
        header_value_ok (realm_header code) \<and>
        (\<exists>username password. credentials_of env req = Some (username, password) \<and>
           valid_user env config (nc_user_list code) username password))"

lemma located_matches: "located code parts socket pre suffix = None \<or> (\<exists>t. located code parts socket pre suffix = ret (True, t))"
  by (cases "replace_header_placeholders (pre (the (nc_location code))) parts (Some socket)") (auto simp: located_def split: option.split)

lemma located_401: "nc_status_code code = 401 \<Longrightarrow> located code parts socket pre suffix = ret (True, None)"
  by (simp add: located_def is_redirect_def split: option.split)

text \<open>The URL of a request, against the three cases of a match.\<close>

lemma url_match_cases:
  defines "url_of \<equiv> \<lambda>req. uri_path (rp_uri (req_parts req)) @ query_suffix (rp_uri (req_parts req))"
  shows "regex_fails env req code \<Longrightarrow> \<exists>err. url_match env code (req_parts req) socket (url_of req) = Some (Inl err)"
    and "\<not> regex_fails env req code \<Longrightarrow> \<not> url_hit env req code \<Longrightarrow> url_match env code (req_parts req) socket (url_of req) = ret (False, None)"
    and "\<not> regex_fails env req code \<Longrightarrow> url_hit env req code \<Longrightarrow>
      url_match env code (req_parts req) socket (url_of req) = None \<or> (\<exists>t. url_match env code (req_parts req) socket (url_of req) = ret (True, t))"
    and "\<not> regex_fails env req code \<Longrightarrow> url_hit env req code \<Longrightarrow> nc_status_code code = 401 \<Longrightarrow>
      url_match env code (req_parts req) socket (url_of req) = ret (True, None)"
proof -
  let ?l = "\<lambda>pre suffix. located code (req_parts req) socket pre suffix"
  have l: "?l pre suffix = None \<or> (\<exists>t. ?l pre suffix = ret (True, t))" for pre suffix by (rule located_matches)
  note d = url_match_def url_hit_def regex_fails_def url_of_def
  show "regex_fails env req code \<Longrightarrow> \<exists>err. url_match env code (req_parts req) socket (url_of req) = Some (Inl err)"
    by (auto simp: d)
  show "\<not> regex_fails env req code \<Longrightarrow> \<not> url_hit env req code \<Longrightarrow> url_match env code (req_parts req) socket (url_of req) = ret (False, None)"
    by (cases "nc_regex code"; cases "nc_url code") (auto simp: d split: sum.split option.split)
  show "\<not> regex_fails env req code \<Longrightarrow> url_hit env req code \<Longrightarrow>
      url_match env code (req_parts req) socket (url_of req) = None \<or> (\<exists>t. url_match env code (req_parts req) socket (url_of req) = ret (True, t))"
  proof (cases "nc_regex code")
    case None
    then show "url_hit env req code \<Longrightarrow> ?thesis" using l [of id "[]"] l [of id "query_suffix (rp_uri (req_parts req))"] by (auto simp: d)
  next
    case (Some regex)
    assume h: "\<not> regex_fails env req code" "url_hit env req code"
    from h(1) Some obtain m where m: "se_find env regex (url_of req) = Inr m"
      by (cases "se_find env regex (url_of req)") (auto simp: regex_fails_def url_of_def)
    show ?thesis
    proof (cases m)
      case None
      with m Some h(2) l [of id "query_suffix (rp_uri (req_parts req))"] show ?thesis by (auto simp: d)
    next
      case (Some part)
      with m \<open>nc_regex code = Some regex\<close> l [of "se_replace env regex part" "[]"] show ?thesis by (auto simp: url_match_def)
    qed
  qed
  show "\<not> regex_fails env req code \<Longrightarrow> url_hit env req code \<Longrightarrow> nc_status_code code = 401 \<Longrightarrow>
      url_match env code (req_parts req) socket (url_of req) = ret (True, None)"
    by (cases "nc_regex code"; cases "nc_url code") (auto simp: d located_401 split: sum.split option.split)
qed

lemma passes_code_eq:
  assumes "nc_users code = None" "nc_not_allowed code = None"
  shows "code_passed env now req config socket db code \<longleftrightarrow> passes_code env now req config socket db code"
proof -
  have app: "\<not> not_applicable env code (sa_ip (remote_addr socket))" using assms by (simp add: not_applicable_def)
  consider (Fails) "regex_fails env req code" | (Miss) "\<not> regex_fails env req code" "\<not> url_hit env req code"
    | (Hit) "\<not> regex_fails env req code" "url_hit env req code" by blast
  then show ?thesis
  proof cases
    case Fails
    with app url_match_cases(1) [OF Fails, of socket] show ?thesis by (auto simp: code_passed_def passes_code_def)
  next
    case Miss
    with app url_match_cases(2) [OF Miss, of socket] show ?thesis by (auto simp: code_passed_def passes_code_def)
  next
    case Hit
    show ?thesis
    proof (cases "nc_status_code code = 401")
      case True
      with app Hit url_match_cases(4) [OF Hit True, of socket] show ?thesis by (auto simp: code_passed_def passes_code_def)
    next
      case False
      with app Hit url_match_cases(3) [OF Hit, of socket] show ?thesis by (auto simp: code_passed_def passes_code_def)
    qed
  qed
qed

text \<open>
  C12: A request goes on to the next module exactly when it passes every custom status code, for codes that are not
  restricted to some clients: the code's expression does not fail, and the code does not match the URL, or it is a 401
  whose realm fits a header, the client is not locked out by ten failed attempts, and the request brings the name and
  the password of a user of the site whom the code accepts.
\<close>

theorem status_passes_iff:
  assumes "\<And>p h. se_verify env p h \<noteq> None" "list_all (\<lambda>code. nc_users code = None \<and> nc_not_allowed code = None) codes"
  shows "(\<exists>req' log db'. status_request_handler env now codes req config socket db = Some (Inr (pass_on req'), log, db')) \<longleftrightarrow>
    list_all (passes_code env now req config socket db) codes"
proof -
  have "(\<exists>req' log db'. status_request_handler env now codes req config socket db = Some (Inr (pass_on req'), log, db')) \<longleftrightarrow>
      (\<exists>u log db'. status_loop env now req config socket codes None db = Some (Go u, log, db'))"
  proof (cases "status_loop env now req config socket codes None db")
    case (Some s)
    obtain r log db' where s: "s = (r, log, db')" by (cases s)
    show ?thesis
    proof (cases r)
      case (Stop x)
      then have "answer_status x \<noteq> None" using status_loop_Stop [OF assms(1), of now req config socket codes None db] Some s by blast
      then have "x \<noteq> pass_on req'" for req' by (auto simp: answer_status_def)
      with Some s Stop show ?thesis by (simp add: status_request_handler_def)
    qed (simp_all add: status_request_handler_def Some s)
  qed (simp add: status_request_handler_def)
  moreover have "list_all (code_passed env now req config socket db) codes \<longleftrightarrow> list_all (passes_code env now req config socket db) codes"
    using assms(2) by (auto simp: list_all_iff passes_code_eq)
  ultimately show ?thesis by (simp only: status_loop_iff [OF assms(1)])
qed

text \<open>A site with one user, \<open>a\<close> with the password \<open>b\<close>; the regular expressions match nothing.\<close>

definition example_status_env :: "unit status_env" where
  "example_status_env = \<lparr>se_cidr = \<lparr>parse_cidr = \<lambda>s. None, cidr_contains = \<lambda>c a. False\<rparr>, se_compile = \<lambda>s b. Inr (),
     se_find = \<lambda>r s. Inr None, se_replace = \<lambda>r s l. l,
     se_base64 = \<lambda>s. if s = ''YTpi'' then Some ''a:b'' else if s = ''YTpj'' then Some ''a:c'' else None,
     se_verify = \<lambda>p h. Some (p = h), se_windows = False\<rparr>"

definition guard_code :: "unit NonStandardCode" where
  "guard_code = \<lparr>nc_status_code = 401, nc_url = None, nc_regex = None, nc_location = None, nc_realm = None,
     nc_disable_brute_force_protection = False, nc_user_list = None, nc_users = None, nc_body = None, nc_not_allowed = None\<rparr>"

definition user_config :: "(unit, unit) ServerConfiguration" where
  "user_config = default_config\<lparr>sc_entries :=
     [(''status'', [\<lparr>entry_values = [VInteger 401], entry_props = []\<rparr>]),
      (''user'', [\<lparr>entry_values = [VString ''a'', VString ''b''], entry_props = []\<rparr>])]\<rparr>"

definition auth_request :: "string \<Rightarrow> request" where
  "auth_request cred = plain_request\<lparr>req_parts := (req_parts plain_request)\<lparr>rp_headers := [(''authorization'', ''Basic '' @ cred)]\<rparr>\<rparr>"

lemma guard_code_loaded: "status_init example_status_env user_config = Inr [guard_code]"
  by code_simp

lemma example_verify: "se_verify example_status_env p h \<noteq> None"
  by (simp add: example_status_env_def)

theorem status_passes_iff_witness:
  "\<exists>req' log db'. status_request_handler example_status_env 0 [guard_code] (auth_request ''YTpi'') user_config
     (client_socket (V4 1)) brute_force_db_new = Some (Inr (pass_on req'), log, db')"
proof (rule iffD2 [OF status_passes_iff [OF example_verify]])
  show "list_all (\<lambda>code. nc_users code = None \<and> nc_not_allowed code = None) [guard_code]" by (simp add: guard_code_def)
  have c: "credentials_of example_status_env (auth_request ''YTpi'') = Some (''a'', ''b'')"
    "header_value_ok (realm_header guard_code)"
    "get_entries_m ''user'' user_config = Some [\<lparr>entry_values = [VString ''a'', VString ''b''], entry_props = []\<rparr>]"
    by code_simp+
  have l: "\<not> locked_out 0 guard_code addr brute_force_db_new" for addr
    by (simp add: locked_out_def current_attempts_def brute_force_db_new_def)
  have "valid_user example_status_env user_config None ''a'' ''b''"
    by (simp add: valid_user_def c(3) user_entry_ok_def example_status_env_def)
  moreover have g: "nc_status_code guard_code = 401" "nc_user_list guard_code = None" "nc_regex guard_code = None" by (simp_all add: guard_code_def)
  ultimately show "list_all (passes_code example_status_env 0 (auth_request ''YTpi'') user_config (client_socket (V4 1)) brute_force_db_new) [guard_code]"
    using c l by (auto simp: passes_code_def regex_fails_def g)
qed

section \<open>Brute-force protection\<close>

text \<open>A wrong guess: an answer 401 to a request that brought credentials.\<close>

definition wrong_guess :: "'rx status_env \<Rightarrow> request \<Rightarrow> string + ResponseData \<Rightarrow> bool" where
  "wrong_guess env req res \<longleftrightarrow>
     (case res of Inr r \<Rightarrow> credentials_of env req \<noteq> None \<and> answer_status r = Some 401 | Inl _ \<Rightarrow> False)"

definition guess_recorded :: "nat \<Rightarrow> string \<Rightarrow> bool \<Rightarrow> brute_force_db \<Rightarrow> brute_force_db \<Rightarrow> bool" where
  "guess_recorded now key wrong db db' \<longleftrightarrow>
     (if wrong then current_attempts now key db < 10 \<and> db' = record_attempt now key db else db' = db)"

text \<open>Requests one after the other: the client, and whether the request was a wrong guess. A request that never returns changes nothing.\<close>

fun status_run ::
  "'rx status_env \<Rightarrow> 'rx NonStandardCode list \<Rightarrow> ('m, 'o) ServerConfiguration \<Rightarrow> brute_force_db \<Rightarrow>
     (nat \<times> request \<times> SocketData) list \<Rightarrow> (string \<times> bool) list" where
  "status_run env codes config db [] = []"
| "status_run env codes config db ((now, req, socket) # rs) =
     (let key = ip_to_string (sa_ip (remote_addr socket))
      in case status_request_handler env now codes req config socket db of
           None \<Rightarrow> (key, False) # status_run env codes config db rs
         | Some (res, log, db') \<Rightarrow> (key, wrong_guess env req res) # status_run env codes config db' rs)"

lemma code_step_recorded:
  assumes v: "\<And>p h. se_verify env p h \<noteq> None" and prot: "\<not> nc_disable_brute_force_protection code"
    and step: "code_step env now req config socket code user db = Some (r, log, db')"
  shows "guess_recorded now (ip_to_string (sa_ip (remote_addr socket)))
    (credentials_of env req \<noteq> None \<and> (\<exists>x. r = Stop x \<and> answer_status x = Some 401)) db db'"
proof (cases "code_passed env now req config socket db code")
  case True
  with code_step_passed [OF v True, of user] step show ?thesis by (auto simp: guess_recorded_def)
next
  case False
  note n = False [unfolded code_passed_def, simplified]
  let ?u = "uri_path (rp_uri (req_parts req)) @ query_suffix (rp_uri (req_parts req))"
  have app: "\<not> not_applicable env code (sa_ip (remote_addr socket))" using n by blast
  obtain m where m: "url_match env code (req_parts req) socket ?u = Some m"
    using app step by (cases "url_match env code (req_parts req) socket ?u") (auto simp: code_step_def status_loop.simps)
  show ?thesis
  proof (cases m)
    case (Inl e)
    with app m step show ?thesis by (auto simp: code_step_def status_loop.simps guess_recorded_def)
  next
    case (Inr p)
    then obtain target where "p = (True, target)" using n m by (cases p; cases "fst p") auto
    then have mt: "url_match env code (req_parts req) socket ?u = ret (True, target)" using m Inr by simp
    note s = step [unfolded code_step_matched [OF app mt]]
    show ?thesis
    proof (cases "is_redirect (nc_status_code code)")
      case True
      with s redirect_answer_status [OF True] show ?thesis by (fastforce simp: guess_recorded_def)
    next
      case red: False
      show ?thesis
      proof (cases "nc_status_code code = 401")
        case True
        have "unauthorized req code = Stop x \<Longrightarrow> answer_status x = Some 401" for x
          using unauthorized_Stop [of req code] by auto
        with s red True prot show ?thesis
          by (auto simp: authenticate_eq [OF v] guess_recorded_def locked_out_def
              split: option.splits if_splits flow.splits)
      next
        case False
        with s red custom_answer_status [of req code] show ?thesis
          by (fastforce simp: guess_recorded_def split: prod.splits)
      qed
    qed
  qed
qed

lemma status_loop_recorded:
  assumes v: "\<And>p h. se_verify env p h \<noteq> None" and prot: "\<forall>code \<in> set codes. \<not> nc_disable_brute_force_protection code"
    and run: "status_loop env now req config socket codes user db = Some (r, log, db')"
  shows "guess_recorded now (ip_to_string (sa_ip (remote_addr socket)))
    (credentials_of env req \<noteq> None \<and> (\<exists>x. r = Stop x \<and> answer_status x = Some 401)) db db'"
  using prot run
proof (induction codes arbitrary: user)
  case Nil
  then show ?case by (auto simp: guess_recorded_def)
next
  case (Cons code codes)
  show ?case
  proof (cases "code_passed env now req config socket db code")
    case True
    then obtain u where "code_step env now req config socket code user db = Some (Go u, [], db)"
      using code_step_passed [OF v] by blast
    with Cons show ?thesis by (simp add: status_loop_Cons)
  next
    case False
    obtain q l d where s: "code_step env now req config socket code user db = Some (q, l, d)"
      using Cons.prems(2) by (cases "code_step env now req config socket code user db") (auto simp: status_loop_Cons)
    have "\<exists>l'. (q, l', d) = (r, l', db')"
      using code_step_ended [OF v False s] s Cons.prems(2) by (auto simp: status_loop_Cons)
    then show ?thesis using code_step_recorded [OF v _ s] Cons.prems(1) by auto
  qed
qed

lemma handler_recorded:
  assumes "\<And>p h. se_verify env p h \<noteq> None" "\<forall>code \<in> set codes. \<not> nc_disable_brute_force_protection code"
    and "status_request_handler env now codes req config socket db = Some (res, log, db')"
  shows "guess_recorded now (ip_to_string (sa_ip (remote_addr socket))) (wrong_guess env req res) db db'"
proof -
  obtain r where r: "status_loop env now req config socket codes None db = Some (r, log, db')"
    "res = run_flow (bind_flow r (\<lambda>user. Go (pass_on (set_auth_user user req))))"
    using assms(3) by (auto simp: status_request_handler_def)
  have "wrong_guess env req res \<longleftrightarrow> credentials_of env req \<noteq> None \<and> (\<exists>x. r = Stop x \<and> answer_status x = Some 401)"
    by (cases r) (auto simp: r(2) wrong_guess_def)
  with status_loop_recorded [OF assms(1,2) r(1)] show ?thesis by simp
qed

text \<open>The counter of a client, before and after.\<close>

lemma current_attempts_record:
  assumes "now \<le> t" "t - now < ttl db"
  shows "current_attempts t key (record_attempt now key' db) =
    (if key = key' then current_attempts now key db + 1 else current_attempts t key db)"
  using assms by (simp add: current_attempts_def record_attempt_def Let_def tc.get_ins tc.get_clean)

lemma ttl_record_attempt [simp]: "ttl (record_attempt now key db) = ttl db"
  by (simp add: record_attempt_def Let_def)

lemma status_run_budget:
  assumes "\<And>p h. se_verify env p h \<noteq> None" "\<forall>code \<in> set codes. \<not> nc_disable_brute_force_protection code"
    and "sorted (map fst rs)" "\<forall>r \<in> set rs. T \<le> fst r \<and> fst r < E" "E \<le> T + ttl db"
    and "n \<le> 10" "n = 0 \<or> (\<forall>t. T \<le> t \<longrightarrow> t < E \<longrightarrow> n \<le> unat (current_attempts t key db))"
  shows "length (filter (\<lambda>(k, wrong). k = key \<and> wrong) (status_run env codes config db rs)) \<le> 10 - n"
  using assms(3-)
proof (induction rs arbitrary: T n db)
  case (Cons x rs)
  obtain now req socket where x: "x = (now, req, socket)" by (cases x)
  let ?key = "ip_to_string (sa_ip (remote_addr socket))"
  have now: "T \<le> now" "now < E" "\<forall>r \<in> set rs. now \<le> fst r \<and> fst r < E" "E \<le> now + ttl db" "sorted (map fst rs)"
    using Cons.prems by (auto simp: x)
  show ?case
  proof (cases "status_request_handler env now codes req config socket db")
    case None
    have "length (filter (\<lambda>(k, wrong). k = key \<and> wrong) (status_run env codes config db rs)) \<le> 10 - n"
      by (rule Cons.IH [of now]) (use now Cons.prems in auto)
    with None show ?thesis by (simp add: x)
  next
    case (Some s)
    obtain res log db' where s: "s = (res, log, db')" by (cases s)
    note g = handler_recorded [OF assms(1,2) Some [unfolded s], unfolded guess_recorded_def]
    show ?thesis
    proof (cases "wrong_guess env req res")
      case False
      then have "db' = db" using g by simp
      moreover have "length (filter (\<lambda>(k, wrong). k = key \<and> wrong) (status_run env codes config db rs)) \<le> 10 - n"
        by (rule Cons.IH [of now]) (use now Cons.prems in auto)
      ultimately show ?thesis using False by (simp add: x Some s)
    next
      case True
      then have r: "db' = record_attempt now ?key db" and lt: "current_attempts now ?key db < 10" using g by auto
      let ?n = "if ?key = key then n + 1 else n"
      have lt10: "unat (current_attempts now ?key db) < 10" using lt by (simp add: word_less_nat_alt)
      have nn: "?key = key \<Longrightarrow> n \<le> unat (current_attempts now ?key db)" using Cons.prems(5) now by auto
      have plus: "unat (current_attempts now ?key db + 1) = unat (current_attempts now ?key db) + 1"
        using lt10 by (simp add: unat_word_ariths)
      have "length (filter (\<lambda>(k, wrong). k = key \<and> wrong) (status_run env codes config db' rs)) \<le> 10 - ?n"
      proof (rule Cons.IH [of now])
        show "?n \<le> 10" using Cons.prems(4) nn lt10 by auto
        show "?n = 0 \<or> (\<forall>t. now \<le> t \<longrightarrow> t < E \<longrightarrow> ?n \<le> unat (current_attempts t key db'))"
          using Cons.prems(5) now nn plus by (auto simp: r current_attempts_record)
      qed (use now in \<open>auto simp: r\<close>)
      with True nn lt10 show ?thesis by (auto simp: x Some s)
    qed
  qed
qed simp

text \<open>
  C21: Within any five minutes, whatever else happens and from whatever state of the counters, a client
  address can be told at most ten times that a password is wrong, when all codes keep the brute-force
  protection on and requests are handled one after the other.
\<close>

theorem brute_force_bounded:
  assumes "\<And>p h. se_verify env p h \<noteq> None" "\<forall>code \<in> set codes. \<not> nc_disable_brute_force_protection code"
    and "sorted (map fst rs)" "\<forall>r \<in> set rs. T \<le> fst r \<and> fst r < T + 300000" "ttl db = ttl brute_force_db_new"
  shows "length (filter (\<lambda>(k, wrong). k = key \<and> wrong) (status_run env codes config db rs)) \<le> 10"
  using status_run_budget [OF assms(1-4), of db 0 key config] assms(5) by (simp add: brute_force_db_new_def)

definition guesses :: "nat \<Rightarrow> (nat \<times> request \<times> SocketData) list" where
  "guesses n = map (\<lambda>i. (i, auth_request ''YTpj'', client_socket (V4 1))) [0..<n]"

theorem brute_force_bounded_witness:
  "length (filter (\<lambda>(k, wrong). k = ip_to_string (V4 1) \<and> wrong)
     (status_run example_status_env [guard_code] user_config brute_force_db_new (guesses 12))) \<le> 10"
proof (rule brute_force_bounded [OF example_verify])
  show "\<forall>code \<in> set [guard_code]. \<not> nc_disable_brute_force_protection code" by (simp add: guard_code_def)
  show "sorted (map fst (guesses 12))" by (simp add: guesses_def comp_def)
  show "\<forall>r \<in> set (guesses 12). 0 \<le> fst r \<and> fst r < 0 + 300000" by (auto simp: guesses_def)
qed simp

text \<open>
  Checking and recording take the lock separately, with the password verification in between. When 256
  requests pass the check before the first of them records its failure, the eight-bit counter wraps to zero.
\<close>

lemma current_attempts_repeat:
  "current_attempts now key ((record_attempt now key ^^ n) brute_force_db_new) = of_nat n"
proof (induction n)
  case (Suc n)
  have "ttl ((record_attempt now key ^^ n) brute_force_db_new) = 300000" by (induction n) (simp_all add: brute_force_db_new_def)
  then show ?case using Suc by (simp add: current_attempts_record)
qed (simp add: current_attempts_def brute_force_db_new_def)

lemma concurrent_guesses_reset_counter:
  "current_attempts now key ((record_attempt now key ^^ 256) brute_force_db_new) = 0"
  using current_attempts_repeat [of now key 256] by simp

section \<open>What validation gets wrong\<close>

text \<open>\<open>brute_protection\<close> is asked to be boolean and to be a string: no value of it is accepted.\<close>

lemma brute_protection_rejected:
  "map_of (entry_props e) ''brute_protection'' = Some v \<Longrightarrow> check_status_entry e \<noteq> None"
  by (cases v) (simp_all add: check_status_entry_def check_all_None_iff prop_is_def)

text \<open>A validated configuration need not load.\<close>

lemma validated_status_does_not_load:
  "let config = default_config\<lparr>sc_entries := [(''status'', [\<lparr>entry_values = [VInteger 70000], entry_props = []\<rparr>])]\<rparr>
   in fst (status_validate_configuration config {}) = Inr () \<and>
      status_init example_status_env config = Inl ''out of range integral type conversion attempted''"
proof -
  have "accepts status_rules (default_config\<lparr>sc_entries := [(''status'', [\<lparr>entry_values = [VInteger 70000], entry_props = []\<rparr>])]\<rparr>)"
    by code_simp
  moreover have "status_init example_status_env (default_config\<lparr>sc_entries := [(''status'', [\<lparr>entry_values = [VInteger 70000], entry_props = []\<rparr>])]\<rparr>) =
    Inl ''out of range integral type conversion attempted''" by code_simp
  ultimately show ?thesis by (simp add: status_validate_configuration_def validate_rules_accepts)
qed

text \<open>
  \<open>allowed\<close> is documented as the addresses a code applies to, and \<open>not_allowed\<close> as those it does not
  apply to: the code has it the other way around.
\<close>

lemma allowed_is_exempt:
  "let e = \<lparr>entry_values = [VInteger 403], entry_props = [(''allowed'', VString ''0.0.0.1'')]\<rparr>;
       e' = \<lparr>entry_values = [VInteger 403], entry_props = [(''not_allowed'', VString ''0.0.0.1'')]\<rparr>
   in map_sum id (\<lambda>code. (not_applicable example_status_env code (V4 1), not_applicable example_status_env code (V4 2)))
        (status_code_of example_status_env e) = Inr (True, False) \<and>
      map_sum id (\<lambda>code. (not_applicable example_status_env code (V4 1), not_applicable example_status_env code (V4 2)))
        (status_code_of example_status_env e') = Inr (False, True)"
  by code_simp

end
