(* ===== verification/Static_Request.thy ===== *)
theory Static_Request
  imports Static_Module
begin

text \<open>The static file module hands back the request it was given, whatever it answers.\<close>

fun stops_with :: "request \<Rightarrow> 'a flow \<Rightarrow> bool" where
  "stops_with req (Fail e) \<longleftrightarrow> True"
| "stops_with req (Stop rd) \<longleftrightarrow> rd_request rd = Some req"
| "stops_with req (Go a) \<longleftrightarrow> True"

fun ends_with_request :: "request \<Rightarrow> 'a flow \<Rightarrow> bool" where
  "ends_with_request req (Fail e) \<longleftrightarrow> True"
| "ends_with_request req (Stop rd) \<longleftrightarrow> rd_request rd = Some req"
| "ends_with_request req (Go a) \<longleftrightarrow> False"

lemma ends_bind: "stops_with req f \<Longrightarrow> (\<And>a. ends_with_request req (g a)) \<Longrightarrow> ends_with_request req (bind_flow f g)"
  by (cases f) simp_all

lemma stops_bind: "stops_with req f \<Longrightarrow> (\<And>a. stops_with req (g a)) \<Longrightarrow> stops_with req (bind_flow f g)"
  by (cases f) simp_all

lemma ends_basic [simp]:
  "ends_with_request req (build_response req st hs body)" "ends_with_request req (fs_failure req e)"
  "stops_with req (build_response req st hs body)" "stops_with req (fs_failure req e)"
  "rd_request (with_headers req st hs) = Some req"
  by (simp_all add: build_response_def with_headers_def) (cases e; simp)+

lemma ends_serve_range: "ends_with_request req (serve_range env req p md rh etag ct cc vary)"
  by (simp add: serve_range_def Let_def split: option.split sum.split prod.split)

lemma ends_serve_full: "ends_with_request req (serve_full env req p md cp pre etag ct cc vary)"
  unfolding serve_full_def Let_def case_prod_beta by (simp only: ends_basic simp_thms split: if_split sum.split)

lemma ends_serve_directory: "ends_with_request req (serve_directory env req config p)"
  unfolding serve_directory_def Let_def by (simp split: sum.split fs_error.split)

lemmas ends_serve = ends_serve_range ends_serve_full ends_serve_directory

lemma stops_preconditions: "stops_with req (check_preconditions req etag vary cc)"
  unfolding check_preconditions_def Let_def by (intro stops_bind) (auto split: option.split)

lemma ends_serve_file: "ends_with_request req (fst (serve_file env req config p md c))"
proof -
  have "ends_with_request req (bind_flow (case etag of Some t \<Rightarrow> check_preconditions req t vary cc | None \<Rightarrow> Go ()) (\<lambda>_.
          case header_get ''range'' (rp_headers (req_parts req)) of
            None \<Rightarrow> serve_full env req p md cp pre etag ct cc vary
          | Some v \<Rightarrow>
              (case header_to_str v of
                 None \<Rightarrow> Stop (with_headers req 400 [(''vary'', vary)])
               | Some range_header \<Rightarrow> serve_range env req p md range_header etag ct cc vary)))" for etag vary cc cp pre ct
    by (intro ends_bind) (auto simp: stops_preconditions ends_serve split: option.split)
  then show ?thesis by (simp only: serve_file_def Let_def case_prod_beta fst_conv)
qed

lemma stops_find_index: "stops_with req (find_index env req dir is)"
  by (induction "is") (auto split: sum.split fs_error.split)

lemma ends_serve_path: "ends_with_request req (fst (serve_path env now req config key p cached c))"
proof (cases "st_metadata env p")
  case (Inl e)
  then show ?thesis by (simp add: serve_path_def)
next
  case (Inr md)
  let ?f = "if \<not> cached \<and> md_is_dir md then find_index env req p (index_names config) else Go None"
  have s: "stops_with req ?f" by (simp add: stops_find_index)
  show ?thesis
  proof (cases ?f)
    case (Go found)
    then show ?thesis unfolding serve_path_def Inr sum.case Go flow.case
      by (auto simp: Let_def ends_serve ends_serve_file split: prod.split)
  qed (use s in \<open>simp_all only: serve_path_def Inr sum.case flow.case fst_conv stops_with.simps ends_with_request.simps\<close>)
qed

lemma run_flow_request: "ends_with_request req f \<Longrightarrow> run_flow f = Inr rd \<Longrightarrow> rd_request rd = Some req"
  by (cases f) auto

lemma served_request:
  assumes "serve_path env now req config key p cached c = (f, c2)" "run_flow f = Inr rd"
  shows "rd_request rd = Some req"
  using run_flow_request [OF _ assms(2)] ends_serve_path [of req env now config key p cached c] by (simp add: assms(1))

lemma static_returns_request:
  assumes "fst (static_request_handler env now c req config) = Inr rd"
  shows "rd_request rd = Some req"
  using assms
  by (auto simp: static_request_handler_def with_headers_def resolve_path_def Let_def
      split: if_splits option.splits prod.splits dest!: served_request)

end
