(* ===== verification/Responses.thy ===== *)
theory Responses
  imports Static_Helpers Trailing_Module Url_Sanitizer Placeholders
begin

text \<open>
  What the request handler (\<open>ferron/src/request_handler.rs\<close>) does to every answer: the default and the
  configured error pages, the headers of the directives \<open>header\<close>, \<open>header_replace\<close> and
  \<open>header_remove\<close>, the \<open>Alt-Svc\<close> header for HTTP/3, and the content length for the access log. The
  reason phrases and header name parser of the crate \<open>http\<close>, the style sheets and the file system are
  parameters.
\<close>

section \<open>Error pages: \<open>error_pages.rs\<close> and \<open>generate_error_response\<close>\<close>

record page_env =
  pg_reason :: "nat \<Rightarrow> string option"
  pg_css :: "string list"
  pg_open :: "string \<Rightarrow> (string \<times> u64 option) option"
  pg_header_name :: "string \<Rightarrow> string option"

definition administrator :: "string option \<Rightarrow> string" where
  "administrator email = (case email of Some a \<Rightarrow> '' at '' @ a | None \<Rightarrow> [])"

definition status_descriptions :: "(nat \<times> string) list" where
  "status_descriptions =
     [(200, ''The request was successful!''),
      (201, ''A new resource was successfully created.''),
      (202, ''The request was accepted but hasn't been fully processed yet.''),
      (400, ''The request was invalid.''),
      (401, ''Authentication is required to access the resource.''),
      (402, ''Payment is required to access the resource.''),
      (403, ''You're not authorized to access this resource.''),
      (404, ''The requested resource wasn't found. Double-check the URL if entered manually.''),
      (405, ''The request method is not allowed for this resource.''),
      (406, ''The server cannot provide a response in an acceptable format.''),
      (407, ''Proxy authentication is required.''),
      (408, ''The request took too long and timed out.''),
      (409, ''There's a conflict with the current state of the server.''),
      (410, ''The requested resource has been permanently removed.''),
      (411, ''The request must include a Content-Length header.''),
      (412, ''The request doesn't meet the server's preconditions.''),
      (413, ''The request is too large for the server to process.''),
      (414, ''The requested URL is too long.''),
      (415, ''The server doesn't support the request's media type.''),
      (416, ''The requested content range is invalid or unavailable.''),
      (417, ''The expectation in the Expect header couldn't be met.''),
      (418, ''This server (a teapot) refuses to make coffee! '' @ map char_of [0xE2, 0x98, 0x95 :: nat]),
      (421, ''The request was directed to the wrong server.''),
      (422, ''The server couldn't process the provided content.''),
      (423, ''The requested resource is locked.''),
      (424, ''The request failed due to a dependency on another failed request.''),
      (425, ''The server refuses to process a request that might be replayed.''),
      (426, ''The client must upgrade its protocol to proceed.''),
      (428, ''A precondition is required for this request, but it wasn't included.''),
      (429, ''Too many requests were sent in a short period.''),
      (431, ''The request headers are too large.''),
      (451, ''Access to this resource is restricted due to legal reasons.''),
      (497, ''A non-TLS request was sent to an HTTPS server.''),
      (501, ''The server doesn't support the requested functionality.''),
      (502, ''The server, acting as a gateway, received an invalid response.''),
      (503, ''The server is temporarily unavailable (e.g., maintenance or overload). Try again later.''),
      (504, ''The server, acting as a gateway, timed out waiting for a response.''),
      (505, ''The HTTP version used in the request isn't supported.''),
      (506, ''The Variant header caused a content negotiation loop.''),
      (507, ''The server lacks sufficient storage to complete the request.''),
      (508, ''The server detected an infinite loop while processing the request.''),
      (509, ''Bandwidth limit exceeded on the server.''),
      (510, ''The server requires an extended HTTP request, but the client didn't send one.''),
      (511, ''Authentication is required to access the network.''),
      (598, ''The proxy server didn't receive a response in time.''),
      (599, ''The proxy server couldn't establish a connection in time.'')]"

definition status_description :: "nat \<Rightarrow> string option \<Rightarrow> string" where
  "status_description status email =
     (if status = 500 then ''The server encountered an unexpected error. You may need to contact the server administrator'' @
        administrator email @ '' to resolve the error.''
      else case map_of status_descriptions status of Some d \<Rightarrow> d | None \<Rightarrow> ''No description found for the status code.'')"

definition generate_default_error_page :: "page_env \<Rightarrow> nat \<Rightarrow> string option \<Rightarrow> string" where
  "generate_default_error_page env status email =
     (let code = dec_str (int status)
      in format_page
        (''<main class=\"error-container\">'' @ nl @ ''      <h1>'' @ nl @
         ''          <span class=\"error-code\">'' @ code @ ''</span>'' @ nl @ ''          '' @
         (case pg_reason env status of Some r \<Rightarrow> ''<span class=\"error-message\">'' @ anti_xss r @ ''</span>'' | None \<Rightarrow> []) @ nl @
         ''      </h1>'' @ nl @ ''      <p class=\"error-description\">'' @ anti_xss (status_description status email) @ ''</p>'' @ nl @
         ''  </main>'')
        (case pg_reason env status of Some r \<Rightarrow> code @ '' '' @ r | None \<Rightarrow> code) (pg_css env))"

text \<open>The first \<open>error_page\<close> for the status whose file opens: its content and length.\<close>

definition status_code_from :: "int \<Rightarrow> nat option" where
  "status_code_from n = (if 100 \<le> n \<and> n \<le> 999 then Some (nat n) else None)"

fun find_error_page :: "page_env \<Rightarrow> nat \<Rightarrow> entries \<Rightarrow> (string \<times> u64 option) option" where
  "find_error_page env status [] = None"
| "find_error_page env status (e # es) =
     (case entry_values e of
        v # vs \<Rightarrow>
          (case (Option.bind (as_i128 v) status_code_from, vs) of
             (Some page_status, VString page_path # _) \<Rightarrow>
               (if page_status \<noteq> status then find_error_page env status es
                else case pg_open env page_path of
                  Some page \<Rightarrow> Some page
                | None \<Rightarrow> find_error_page env status es)
           | _ \<Rightarrow> find_error_page env status es)
      | [] \<Rightarrow> find_error_page env status es)"

definition generate_error_response ::
  "page_env \<Rightarrow> nat \<Rightarrow> ('m, 'o) ServerConfiguration \<Rightarrow> header_map option \<Rightarrow> response" where
  "generate_error_response env status config hs =
     (let bare_body = generate_default_error_page env status (Option.bind (get_value_m ''server_administrator_email'' config) as_str);
          (body, content_length) =
            (case Option.bind (get_entries_m ''error_page'' config) (find_error_page env status) of
               Some (content, len) \<Rightarrow> (case len of Some n \<Rightarrow> take (unat n) content | None \<Rightarrow> content, len)
             | None \<Rightarrow> (bare_body, Some (of_nat (length bare_body))));
          kept = (case hs of Some h \<Rightarrow> filter (\<lambda>(n, v). n \<noteq> ''content-type'' \<and> n \<noteq> ''content-length'') h | None \<Rightarrow> [])
      in \<lparr>resp_status = status,
          resp_headers = kept @ (case content_length of Some n \<Rightarrow> [(''content-length'', dec_str (uint n))] | None \<Rightarrow> []) @
            [(''content-type'', ''text/html'')],
          resp_body = body\<rparr>)"

section \<open>Custom headers\<close>

text \<open>The directives: \<open>None\<close> stands for a value whose placeholders are never closed. A name must parse.\<close>

definition entry_texts :: "ServerConfigurationEntry \<Rightarrow> (string \<times> string) option" where
  "entry_texts e = (case entry_values e of VString n # VString v # _ \<Rightarrow> Some (n, v) | _ \<Rightarrow> None)"

fun collect_headers ::
  "page_env \<Rightarrow> bool \<Rightarrow> request_parts \<Rightarrow> SocketData option \<Rightarrow> entries \<Rightarrow> header_map \<Rightarrow> header_map option" where
  "collect_headers env keep parts socket [] hs = Some hs"
| "collect_headers env keep parts socket (e # es) hs =
     (case entry_texts e of
        None \<Rightarrow> collect_headers env keep parts socket es hs
      | Some (n, v) \<Rightarrow>
          if keep \<and> header_contains n hs then collect_headers env keep parts socket es hs
          else case pg_header_name env n of
            None \<Rightarrow> collect_headers env keep parts socket es hs
          | Some header_name \<Rightarrow>
              (case replace_header_placeholders v parts socket of
                 None \<Rightarrow> None
               | Some header_value \<Rightarrow>
                   collect_headers env keep parts socket es (if header_value_ok header_value then header_insert header_name header_value hs else hs)))"

definition first_string :: "ServerConfigurationEntry \<Rightarrow> string option" where
  "first_string e = (case entry_values e of VString n # _ \<Rightarrow> Some n | _ \<Rightarrow> None)"

definition entries_of :: "string \<Rightarrow> ('m, 'o) ServerConfiguration \<Rightarrow> entries" where
  "entries_of name config = (case get_entries_m name config of Some es \<Rightarrow> es | None \<Rightarrow> [])"

record custom_headers =
  headers_to_add :: header_map
  headers_to_replace :: header_map
  headers_to_remove :: "string list"

definition directive_headers ::
  "page_env \<Rightarrow> SocketData option \<Rightarrow> string \<Rightarrow> string \<Rightarrow> string \<Rightarrow> ('m, 'o) ServerConfiguration \<Rightarrow> request_parts \<Rightarrow> custom_headers option" where
  "directive_headers env socket add_name replace_name remove_name config parts =
     Option.bind (collect_headers env True parts socket (rev (entries_of add_name config)) []) (\<lambda>add.
     Option.bind (collect_headers env False parts socket (rev (entries_of replace_name config)) []) (\<lambda>replace.
     Some \<lparr>headers_to_add = add, headers_to_replace = replace,
       headers_to_remove = List.map_filter (\<lambda>e. Option.bind (first_string e) (pg_header_name env)) (rev (entries_of remove_name config))\<rparr>))"

definition custom_headers_of :: "page_env \<Rightarrow> ('m, 'o) ServerConfiguration \<Rightarrow> request_parts \<Rightarrow> custom_headers option" where
  "custom_headers_of env = directive_headers env None ''header'' ''header_replace'' ''header_remove''"

definition apply_headers :: "custom_headers \<Rightarrow> header_map \<Rightarrow> header_map" where
  "apply_headers ch hs =
     (let hs1 = foldl (\<lambda>h (n, v). if header_contains n h then h else header_insert n v h) hs (headers_to_add ch);
          hs2 = foldl (\<lambda>h (n, v). header_insert n v h) hs1 (headers_to_replace ch)
      in foldl (\<lambda>h n. header_remove n h) hs2 (rev (headers_to_remove ch)))"

definition add_custom_headers :: "custom_headers \<Rightarrow> response \<Rightarrow> response" where
  "add_custom_headers ch r = r\<lparr>resp_headers := apply_headers ch (resp_headers r)\<rparr>"

text \<open>
  \<open>String::from_utf8_lossy\<close>: the longest beginning of a character that does not go on, or else one byte,
  becomes U+FFFD.
\<close>

definition broken_length :: "string \<Rightarrow> nat" where
  "broken_length s =
     (case s of
        a # b # r \<Rightarrow>
          if byte_in 224 239 a \<and> byte_in (if of_char a = (224::nat) then 160 else 128) (if of_char a = (237::nat) then 159 else 191) b then 2
          else if byte_in 240 244 a \<and> byte_in (if of_char a = (240::nat) then 144 else 128) (if of_char a = (244::nat) then 143 else 191) b
          then (case r of c # _ \<Rightarrow> if cont_byte c then 3 else 2 | [] \<Rightarrow> 2)
          else 1
      | _ \<Rightarrow> 1)"

lemma broken_length_pos: "0 < broken_length s"
  by (auto simp: broken_length_def split: list.split)

function from_utf8_lossy :: "string \<Rightarrow> string" where
  "from_utf8_lossy s =
     (if s = [] then []
      else case utf8_tail s of
        Some r \<Rightarrow> take (length s - length r) s @ from_utf8_lossy r
      | None \<Rightarrow> map char_of [0xEF, 0xBF, 0xBD :: nat] @ from_utf8_lossy (drop (broken_length s) s))"
  by pat_completeness auto
termination
  by (relation "measure length") (auto dest: utf8_tail_shorter simp: broken_length_pos)

declare from_utf8_lossy.simps [simp del]

definition alt_svc_value :: "u16 \<Rightarrow> string" where
  "alt_svc_value p = ''h3=\":'' @ dec_str (uint p) @ ''\", h3-29=\":'' @ dec_str (uint p) @ [CHR 0x22]"

definition add_http3_alt_svc_header :: "u16 option \<Rightarrow> response \<Rightarrow> response" where
  "add_http3_alt_svc_header http3_alt_port r =
     (case http3_alt_port of
        None \<Rightarrow> r
      | Some p \<Rightarrow>
          (let v = (case header_get ''alt-svc'' (resp_headers r) of
               Some value \<Rightarrow> (let old = from_utf8_lossy value in if old \<noteq> alt_svc_value p then old @ '', '' @ alt_svc_value p else old)
             | None \<Rightarrow> alt_svc_value p)
           in if header_value_ok v then r\<lparr>resp_headers := header_insert ''alt-svc'' v (resp_headers r)\<rparr> else r))"

definition add_server_header :: "response \<Rightarrow> response" where
  "add_server_header r = r\<lparr>resp_headers := header_insert ''server'' ''Ferron'' (resp_headers r)\<rparr>"

definition dress_response :: "custom_headers \<Rightarrow> u16 option \<Rightarrow> response \<Rightarrow> response" where
  "dress_response ch http3_alt_port r = add_server_header (add_http3_alt_svc_header http3_alt_port (add_custom_headers ch r))"

text \<open>The length for the log: the header, or else what the body knows of its size (a parameter).\<close>

definition extract_content_length :: "(response \<Rightarrow> u64 option) \<Rightarrow> response \<Rightarrow> u64 option" where
  "extract_content_length size_hint r =
     (case Option.bind (Option.bind (header_get ''content-length'' (resp_headers r)) header_to_str) parse_u64 of
        Some n \<Rightarrow> Some n
      | None \<Rightarrow> size_hint r)"

section \<open>Error pages\<close>

text \<open>Every error response says the length of its body, when the file system told it, and has the type HTML.\<close>

lemma error_response_headers:
  "header_get_all ''content-type'' (resp_headers (generate_error_response env status config hs)) = [''text/html''] \<and>
   length (header_get_all ''content-length'' (resp_headers (generate_error_response env status config hs))) \<le> 1"
proof -
  have "filter (\<lambda>x. (case x of (n, v) \<Rightarrow> n \<noteq> ''content-type'' \<and> n \<noteq> ''content-length'') \<and> (case x of (n, v) \<Rightarrow> n = ''content-length'')) l = []"
    for l :: header_map by (auto simp: filter_empty_conv)
  then show ?thesis
    by (auto simp: generate_error_response_def Let_def header_get_all_def to_lowercase_def ascii_lower_def filter_empty_conv
        split: option.split)
qed

section \<open>Lossy decoding\<close>

lemma utf8_tail_suffix: "utf8_tail s = Some r \<Longrightarrow> take (length s - length r) s @ r = s"
  by (induction s rule: utf8_tail.induct) (auto split: if_splits list.splits)

lemma from_utf8_lossy_valid: "valid_utf8 s \<Longrightarrow> from_utf8_lossy s = s"
proof (induction s rule: length_induct)
  case (1 s)
  show ?case
  proof (cases "s = []")
    case False
    then obtain r where r: "utf8_tail s = Some r" "valid_utf8 r" using "1.prems" by (auto simp: valid_utf8.simps split: option.splits)
    then have "from_utf8_lossy r = r" using "1.IH" utf8_tail_shorter by blast
    with r False show ?thesis by (simp add: from_utf8_lossy.simps utf8_tail_suffix)
  qed (simp add: from_utf8_lossy.simps)
qed

section \<open>What the header directives do\<close>

text \<open>The names and values a directive sets, in the order of the configuration.\<close>

definition directive_value :: "page_env \<Rightarrow> request_parts \<Rightarrow> SocketData option \<Rightarrow> ServerConfigurationEntry \<Rightarrow> (string \<times> string) option" where
  "directive_value env parts socket e =
     Option.bind (entry_texts e) (\<lambda>(n, v). Option.bind (pg_header_name env n) (\<lambda>name.
       Option.bind (replace_header_placeholders v parts socket) (\<lambda>value. if header_value_ok value then Some (name, value) else None)))"

definition directive_values :: "page_env \<Rightarrow> request_parts \<Rightarrow> SocketData option \<Rightarrow> entries \<Rightarrow> (string \<times> string) list" where
  "directive_values env parts socket es = List.map_filter (directive_value env parts socket) es"

text \<open>\<open>HeaderName::from_str\<close> puts a name in lower case.\<close>

definition header_names_lower :: "page_env \<Rightarrow> bool" where
  "header_names_lower env \<longleftrightarrow> (\<forall>n m. pg_header_name env n = Some m \<longrightarrow> m = to_lowercase n)"

definition named :: "string \<Rightarrow> (string \<times> string) list \<Rightarrow> string option" where
  "named n nvs = map_option snd (find (\<lambda>(m, v). to_lowercase m = to_lowercase n) nvs)"

lemma named_simps [simp]:
  "named n [] = None"
  "named n ((m, v) # nvs) = (if to_lowercase m = to_lowercase n then Some v else named n nvs)"
  by (simp_all add: named_def)

lemma ascii_lower_idem: "ascii_lower (ascii_lower c) = ascii_lower c"
proof (cases "65 \<le> (of_char c :: nat) \<and> (of_char c :: nat) \<le> 90")
  case True
  then have "of_char (char_of ((of_char c :: nat) + 32) :: char) = (of_char c :: nat) + 32" by simp
  with True show ?thesis by (simp add: ascii_lower_def)
qed (auto simp: ascii_lower_def)

lemma to_lowercase_idem [simp]: "to_lowercase (to_lowercase s) = to_lowercase s"
  by (simp add: to_lowercase_def ascii_lower_idem)

text \<open>A header map as the code builds it: each name once, in lower case.\<close>

definition plain_map :: "header_map \<Rightarrow> bool" where
  "plain_map hs \<longleftrightarrow> distinct (map fst hs) \<and> (\<forall>(n, v) \<in> set hs. to_lowercase n = n)"

lemma plain_map_insert: "plain_map hs \<Longrightarrow> plain_map (header_insert n v hs)"
  by (auto simp: plain_map_def header_insert_def header_append_def header_remove_def distinct_map_filter)

lemma plain_map_named: "plain_map hs \<Longrightarrow> named n hs = header_get n hs"
  by (induction hs) (auto simp: plain_map_def header_get_def)

lemma named_append: "named n (xs @ ys) = (case named n xs of Some v \<Rightarrow> Some v | None \<Rightarrow> named n ys)"
  by (induction xs) auto

lemma named_rev: "plain_map hs \<Longrightarrow> named n (rev hs) = named n hs"
proof (induction hs)
  case (Cons x hs)
  obtain m v where x: "x = (m, v)" by (cases x)
  have p: "plain_map hs" "to_lowercase m = m" "m \<notin> fst ` set hs" using Cons.prems by (auto simp: plain_map_def x)
  have "named m hs = None" using p plain_map_named [OF p(1), of m] by (simp add: header_get_def map_of_eq_None_iff)
  moreover have "to_lowercase m = to_lowercase n \<Longrightarrow> named n hs = named m hs" by (simp add: named_def)
  ultimately show ?case using Cons.IH [OF p(1)] by (auto simp: x named_append split: option.split)
qed simp

text \<open>Collecting a directive: the first value met wins, or the last.\<close>

lemma collect_headers_plain:
  "collect_headers env keep parts socket es hs = Some r \<Longrightarrow> plain_map hs \<Longrightarrow> plain_map r"
  by (induction es arbitrary: hs) (auto simp: plain_map_insert split: option.splits if_splits)

lemma collect_headers_get:
  assumes "header_names_lower env" "collect_headers env keep parts socket es hs = Some r"
  shows "header_get n r =
    (if keep then (case header_get n hs of Some v \<Rightarrow> Some v | None \<Rightarrow> named n (directive_values env parts socket es))
     else (case named n (rev (directive_values env parts socket es)) of Some v \<Rightarrow> Some v | None \<Rightarrow> header_get n hs))"
  using assms(2)
proof (induction es arbitrary: hs)
  case (Cons e es)
  have dv: "directive_values env parts socket (e # es) =
      (case directive_value env parts socket e of Some x \<Rightarrow> [x] | None \<Rightarrow> []) @ directive_values env parts socket es"
    by (simp add: directive_values_def List.map_filter_simps split: option.split)
  show ?case
  proof (cases "directive_value env parts socket e")
    case None
    then have c: "collect_headers env keep parts socket es hs = Some r"
      using Cons.prems by (auto simp: directive_value_def split: option.splits prod.splits if_splits)
    have d: "directive_values env parts socket (e # es) = directive_values env parts socket es" using None dv by simp
    show ?thesis using Cons.IH [OF c] unfolding d .
  next
    case (Some x)
    then obtain raw v where e: "entry_texts e = Some (raw, v)" and m: "pg_header_name env raw = Some (fst x)"
      and val: "replace_header_placeholders v parts socket = Some (snd x)" "header_value_ok (snd x)"
      by (auto simp: directive_value_def bind_eq_Some_conv split: if_splits)
    have lc: "fst x = to_lowercase raw" using assms(1) m by (simp add: header_names_lower_def)
    then have same: "header_get raw h = header_get (fst x) h" for h by (simp add: header_get_def)
    have d: "directive_values env parts socket (e # es) = x # directive_values env parts socket es" using Some dv by simp
    show ?thesis
    proof (cases "keep \<and> header_contains raw hs")
      case True
      then have c: "collect_headers env keep parts socket es hs = Some r" using Cons.prems e by simp
      have "to_lowercase (fst x) = to_lowercase n \<Longrightarrow> header_get n hs = header_get raw hs"
        using lc by (simp add: header_get_def)
      with Cons.IH [OF c] True show ?thesis unfolding d
        by (cases x) (auto simp: header_contains_def split: option.split)
    next
      case False
      then have c: "collect_headers env keep parts socket es (header_insert (fst x) (snd x) hs) = Some r"
        using Cons.prems e m val by auto
      have k: "keep \<Longrightarrow> to_lowercase (fst x) = to_lowercase n \<Longrightarrow> header_get n hs = None"
        using False lc by (simp add: header_contains_def header_get_def)
      show ?thesis
      proof (cases keep)
        case True
        with Cons.IH [OF c] k show ?thesis unfolding d by (cases x) (auto simp: hm.get_ins split: option.split)
      next
        case False
        with Cons.IH [OF c] show ?thesis unfolding d by (cases x) (auto simp: hm.get_ins named_append split: option.split)
      qed
    qed
  qed
qed (simp add: directive_values_def List.map_filter_simps split: option.split)

text \<open>The final headers, for any headers to add, to replace and to remove.\<close>

lemma get_add_absent:
  "header_get n (foldl (\<lambda>h (n, v). if header_contains n h then h else header_insert n v h) hs nvs) =
     (case header_get n hs of Some v \<Rightarrow> Some v | None \<Rightarrow> named n nvs)"
proof (induction nvs arbitrary: hs)
  case (Cons x nvs)
  obtain m v where x: "x = (m, v)" by (cases x)
  have "to_lowercase m = to_lowercase n \<Longrightarrow> header_get m hs = header_get n hs" by (simp add: header_get_def)
  moreover have "header_contains m hs \<longleftrightarrow> header_get m hs \<noteq> None" by (simp add: header_contains_def)
  ultimately show ?case
    by (cases "header_contains m hs") (auto simp: x Cons.IH hm.get_ins split: option.split)
qed (simp split: option.split)

lemma apply_headers_get:
  "header_get n (apply_headers ch hs) =
     (if \<exists>m \<in> set (headers_to_remove ch). to_lowercase m = to_lowercase n then None
      else case named n (rev (headers_to_replace ch)) of
        Some v \<Rightarrow> Some v
      | None \<Rightarrow> (case header_get n hs of Some v \<Rightarrow> Some v | None \<Rightarrow> named n (headers_to_add ch)))"
  by (simp add: apply_headers_def Let_def hm.get_remove_all hm.get_insert_all get_add_absent named_def split: option.split prod.split)

lemma directive_headers_named:
  assumes "header_names_lower env" "directive_headers env socket add_name replace_name remove_name config parts = Some ch"
  shows "named n (headers_to_add ch) = named n (rev (directive_values env parts socket (entries_of add_name config)))"
    "named n (rev (headers_to_replace ch)) = named n (directive_values env parts socket (entries_of replace_name config))"
    "(\<exists>m \<in> set (headers_to_remove ch). to_lowercase m = to_lowercase n) \<longleftrightarrow>
      (\<exists>e \<in> set (entries_of remove_name config). \<exists>m. first_string e = Some m \<and> pg_header_name env m = Some (to_lowercase n))"
proof -
  obtain add replace where c: "collect_headers env True parts socket (rev (entries_of add_name config)) [] = Some add"
      "collect_headers env False parts socket (rev (entries_of replace_name config)) [] = Some replace"
    and ch: "headers_to_add ch = add" "headers_to_replace ch = replace"
      "headers_to_remove ch = List.map_filter (\<lambda>e. Option.bind (first_string e) (pg_header_name env)) (rev (entries_of remove_name config))"
    using assms(2) by (auto simp: directive_headers_def bind_eq_Some_conv)
  have "plain_map []" by (simp add: plain_map_def)
  then have plain: "plain_map add" "plain_map replace"
    using collect_headers_plain [OF c(1)] collect_headers_plain [OF c(2)] by blast+
  have rev: "directive_values env parts socket (rev es) = rev (directive_values env parts socket es)" for es
    by (simp add: directive_values_def List.map_filter_def rev_map rev_filter)
  show "named n (headers_to_add ch) = named n (rev (directive_values env parts socket (entries_of add_name config)))"
    using collect_headers_get [OF assms(1) c(1), of n] plain
    by (simp add: ch(1) plain_map_named rev header_get_def)
  show "named n (rev (headers_to_replace ch)) = named n (directive_values env parts socket (entries_of replace_name config))"
    using collect_headers_get [OF assms(1) c(2), of n] plain
    by (simp add: ch(2) named_rev plain_map_named rev header_get_def split: option.splits)
  show "(\<exists>m \<in> set (headers_to_remove ch). to_lowercase m = to_lowercase n) \<longleftrightarrow>
      (\<exists>e \<in> set (entries_of remove_name config). \<exists>m. first_string e = Some m \<and> pg_header_name env m = Some (to_lowercase n))"
    using assms(1) by (fastforce simp: ch(3) List.map_filter_def header_names_lower_def bind_eq_Some_conv)
qed

lemma directive_headers_get:
  assumes "header_names_lower env" "directive_headers env socket add_name replace_name remove_name config parts = Some ch"
  shows "header_get n (apply_headers ch hs) =
    (if \<exists>e \<in> set (entries_of remove_name config). \<exists>m. first_string e = Some m \<and> pg_header_name env m = Some (to_lowercase n) then None
     else case named n (directive_values env parts socket (entries_of replace_name config)) of
       Some v \<Rightarrow> Some v
     | None \<Rightarrow> (case header_get n hs of
         Some v \<Rightarrow> Some v
       | None \<Rightarrow> named n (rev (directive_values env parts socket (entries_of add_name config)))))"
  unfolding apply_headers_get directive_headers_named [OF assms] by (rule refl)

text \<open>A header that no directive names keeps all its values.\<close>

definition untouched ::
  "page_env \<Rightarrow> SocketData option \<Rightarrow> string \<Rightarrow> string \<Rightarrow> string \<Rightarrow> ('m, 'o) ServerConfiguration \<Rightarrow> request_parts \<Rightarrow> string \<Rightarrow> bool" where
  "untouched env socket add_name replace_name remove_name config parts n \<longleftrightarrow>
     named n (rev (directive_values env parts socket (entries_of add_name config))) = None \<and>
     named n (directive_values env parts socket (entries_of replace_name config)) = None \<and>
     (\<forall>e \<in> set (entries_of remove_name config). \<forall>m. first_string e = Some m \<longrightarrow> pg_header_name env m \<noteq> Some (to_lowercase n))"

lemma header_get_all_insert:
  "header_get_all n (header_insert m v h) = (if to_lowercase n = to_lowercase m then [v] else header_get_all n h)"
proof -
  have "[x \<leftarrow> h. (case x of (n', v) \<Rightarrow> n' \<noteq> k) \<and> (case x of (n', v) \<Rightarrow> n' = k)] = []" for k
    by (auto simp: filter_empty_conv)
  moreover have "[x \<leftarrow> h. (case x of (n', v) \<Rightarrow> n' \<noteq> k) \<and> (case x of (n', v) \<Rightarrow> n' = j)] = [x \<leftarrow> h. (case x of (n', v) \<Rightarrow> n' = j)]" if "j \<noteq> k" for j k
    using that by (intro filter_cong) auto
  ultimately show ?thesis
    by (auto simp: header_get_all_def header_insert_def header_append_def header_remove_def)
qed

lemma header_get_all_remove:
  "header_get_all n (header_remove m h) = (if to_lowercase n = to_lowercase m then [] else header_get_all n h)"
  using header_get_all_insert [of n m "[]" h] by (auto simp: header_insert_def header_append_def header_get_all_def split: if_splits)

lemma header_get_all_Some: "header_get_all n hs = [v] \<Longrightarrow> header_get n hs = Some v"
proof (induction hs)
  case (Cons x hs)
  then show ?case by (cases x) (auto simp: header_get_all_def header_get_def split: if_splits)
qed (simp add: header_get_all_def)

lemma apply_headers_keeps:
  assumes "named n (headers_to_add ch) = None" "named n (rev (headers_to_replace ch)) = None"
    "\<not> (\<exists>m \<in> set (headers_to_remove ch). to_lowercase m = to_lowercase n)"
  shows "header_get_all n (apply_headers ch hs) = header_get_all n hs"
proof -
  have add: "header_get_all n (foldl (\<lambda>h (n, v). if header_contains n h then h else header_insert n v h) h nvs) = header_get_all n h"
    if "named n nvs = None" for nvs h
    using that by (induction nvs arbitrary: h) (auto simp: header_get_all_insert split: if_splits)
  have replace: "header_get_all n (foldl (\<lambda>h (n, v). header_insert n v h) h nvs) = header_get_all n h"
    if "named n (rev nvs) = None" for nvs h
    using that by (induction nvs arbitrary: h) (auto simp: header_get_all_insert named_append split: if_splits option.splits)
  have remove: "header_get_all n (foldl (\<lambda>h n. header_remove n h) h ns) = header_get_all n h"
    if "\<not> (\<exists>m \<in> set ns. to_lowercase m = to_lowercase n)" for ns h
    using that by (induction ns arbitrary: h) (auto simp: header_get_all_remove)
  show ?thesis unfolding apply_headers_def Let_def
    using assms by (simp add: add replace remove)
qed

lemma untouched_keeps:
  assumes "header_names_lower env" "directive_headers env socket add_name replace_name remove_name config parts = Some ch"
    "untouched env socket add_name replace_name remove_name config parts n"
  shows "header_get_all n (apply_headers ch hs) = header_get_all n hs"
  using directive_headers_named [OF assms(1,2), of n] assms(3)
  by (intro apply_headers_keeps) (auto simp: untouched_def)

text \<open>
  C22: What the directives do to an answer: a header that is removed is absent; else the first
  \<open>header_replace\<close> of the name gives its value; else the value of the answer remains; else the last
  \<open>header\<close> of the name gives it. Names are compared without case, and entries whose name or value is no
  header are ignored.
\<close>

theorem directives_applied:
  assumes "header_names_lower env" "custom_headers_of env config parts = Some ch"
  shows "header_get n (resp_headers (add_custom_headers ch r)) =
    (if \<exists>e \<in> set (entries_of ''header_remove'' config). \<exists>m. first_string e = Some m \<and> pg_header_name env m = Some (to_lowercase n) then None
     else case named n (directive_values env parts None (entries_of ''header_replace'' config)) of
       Some v \<Rightarrow> Some v
     | None \<Rightarrow> (case header_get n (resp_headers r) of
         Some v \<Rightarrow> Some v
       | None \<Rightarrow> named n (rev (directive_values env parts None (entries_of ''header'' config)))))"
  using directive_headers_get [OF assms(1), of None _ _ _ config parts ch n "resp_headers r"] assms(2)
  by (simp add: custom_headers_of_def add_custom_headers_def)

text \<open>A configuration that gives one header twice with each directive.\<close>

definition example_page_env :: page_env where
  "example_page_env = \<lparr>pg_reason = \<lambda>s. None, pg_css = [], pg_open = \<lambda>p. None, pg_header_name = \<lambda>n. Some (to_lowercase n)\<rparr>"

definition twice :: "string \<Rightarrow> entries" where
  "twice n = [\<lparr>entry_values = [VString n, VString ''1''], entry_props = []\<rparr>, \<lparr>entry_values = [VString n, VString ''2''], entry_props = []\<rparr>]"

definition twice_config :: "(unit, unit) ServerConfiguration" where
  "twice_config = default_config\<lparr>sc_entries := [(''header'', twice ''A''), (''header_replace'', twice ''B''),
     (''header_remove'', [\<lparr>entry_values = [VString ''C''], entry_props = []\<rparr>])]\<rparr>"

text \<open>Of two \<open>header\<close> directives the last one counts, of two \<open>header_replace\<close> directives the first.\<close>

theorem directives_applied_witness:
  "\<exists>ch. custom_headers_of example_page_env twice_config (req_parts plain_request) = Some ch \<and>
     (let hs = resp_headers (add_custom_headers ch \<lparr>resp_status = 200, resp_headers = [(''c'', ''x''), (''b'', ''y'')], resp_body = []\<rparr>)
      in header_get ''a'' hs = Some ''2'' \<and> header_get ''b'' hs = Some ''1'' \<and> header_get ''c'' hs = None)"
proof -
  let ?r = "\<lparr>resp_status = 200, resp_headers = [(''c'', ''x''), (''b'', ''y'')], resp_body = []\<rparr>"
  let ?p = "req_parts plain_request"
  obtain ch where ch: "custom_headers_of example_page_env twice_config ?p = Some ch"
  proof -
    have "custom_headers_of example_page_env twice_config ?p \<noteq> None" by code_simp
    then show ?thesis using that by blast
  qed
  have lower: "header_names_lower example_page_env" by (simp add: header_names_lower_def example_page_env_def)
  have es: "entries_of ''header_remove'' twice_config = [\<lparr>entry_values = [VString ''C''], entry_props = []\<rparr>]"
    "named ''b'' (directive_values example_page_env ?p None (entries_of ''header_replace'' twice_config)) = Some ''1''"
    "named ''a'' (directive_values example_page_env ?p None (entries_of ''header_replace'' twice_config)) = None"
    "named ''a'' (rev (directive_values example_page_env ?p None (entries_of ''header'' twice_config))) = Some ''2''"
    "header_get ''a'' [(''c'', ''x''), (''b'', ''y'')] = None" "to_lowercase ''C'' = ''c''" "to_lowercase ''c'' = ''c''" "to_lowercase ''a'' = ''a''"
    "to_lowercase ''b'' = ''b''"
    by code_simp+
  have n: "pg_header_name example_page_env m = Some (to_lowercase m)" for m by (simp add: example_page_env_def)
  have "header_get ''a'' (resp_headers (add_custom_headers ch ?r)) = Some ''2''"
    "header_get ''b'' (resp_headers (add_custom_headers ch ?r)) = Some ''1''"
    "header_get ''c'' (resp_headers (add_custom_headers ch ?r)) = None"
    unfolding directives_applied [OF lower ch] by (simp_all add: es n first_string_def)
  with ch show ?thesis by (auto simp: Let_def)
qed

end
