(* ===== verification/Request_Handler.thy ===== *)
theory Request_Handler
  imports Responses Config_Pipeline Module_Api
begin

text \<open>
  The life of a request, \<open>ferron/src/request_handler.rs\<close>: normalisation, the choice of the configuration,
  the URL sanitizer, and the chain of the modules' handlers with the error configurations, the response
  handlers in reverse order, timeouts, logs, metrics and traces. A module's handlers (the trait
  \<open>ModuleHandlers\<close> of \<open>ferron-common/src/modules.rs\<close>) act on an abstract world, which also holds the clock
  and the file system; a call gets the milliseconds left and yields \<open>None\<close> when they do not suffice.
  Without a timeout a handler is assumed to return. The calls to the handlers and the messages sent are
  recorded as events, a request with its path, a message with the channel that receives it. A result \<open>None\<close> stands for a
  request that never ends, because of a configured text with an unclosed placeholder.
\<close>

section \<open>The chain of handlers\<close>

datatype 'l event =
    Log_Message 'l string
  | Access_Log 'l string
  | Start_Span string
  | End_Span string "string option"
  | Metric_Before string
  | Handle_Request string string
  | Modify_Response string
  | Metric_After string

record ('w, 'l) served =
  world :: 'w
  events :: "'l event list"

definition emit :: "'l event list \<Rightarrow> ('w, 'l) served \<Rightarrow> ('w, 'l) served" where
  "emit es s = s\<lparr>events := events s @ es\<rparr>"

type_synonym ('m, 'l, 'me, 't) config = "('m, ('l, 'me, 't) ObservabilityBackendChannels) ServerConfiguration"

record ('m, 'l, 'me, 't, 'w) ModuleHandlers =
  h_name :: string
  h_before :: "request \<Rightarrow> SocketData \<Rightarrow> 'w \<Rightarrow> 'w"
  h_request :: "nat option \<Rightarrow> request \<Rightarrow> ('m, 'l, 'me, 't) config \<Rightarrow> SocketData \<Rightarrow> 'w \<Rightarrow> (string + ResponseData) option \<times> 'w"
  h_response :: "nat option \<Rightarrow> response \<Rightarrow> 'w \<Rightarrow> (string + response) option \<times> 'w"
  h_after :: "'w \<Rightarrow> 'w"

record ('m, 'l, 'me, 't, 'w) server_env =
  ev_externs :: externs
  ev_page :: "'w \<Rightarrow> page_env"
  ev_handlers :: "'m \<Rightarrow> ('m, 'l, 'me, 't, 'w) ModuleHandlers"
  ev_elapsed :: "'w \<Rightarrow> nat"
  ev_trace_opened :: "'t \<Rightarrow> bool"
  ev_timestamp :: "string \<Rightarrow> 'w \<Rightarrow> string"
  ev_size_hint :: "response \<Rightarrow> u64 option"
  ev_authority :: "uri \<Rightarrow> string option"
  ev_set_path :: "string \<Rightarrow> uri \<Rightarrow> string + uri"

text \<open>What stays the same while the handlers run.\<close>

record ('m, 'l, 'me, 't, 'w) serving =
  sv_env :: "('m, 'l, 'me, 't, 'w) server_env"
  sv_configurations :: "('m, ('l, 'me, 't) ObservabilityBackendChannels) ServerConfigurations"
  sv_alt_port :: "u16 option"
  sv_timeout :: "nat option"
  sv_headers :: custom_headers
  sv_log_parts :: "request_parts option"
  sv_error_parts :: "request_parts option"

definition loggers :: "('m, 'l, 'me, 't) config \<Rightarrow> 'l list" where
  "loggers c = log_channels (sc_observability c)"

definition metrics_enabled :: "('m, 'l, 'me, 't) config \<Rightarrow> bool" where
  "metrics_enabled c \<longleftrightarrow> metric_channels (sc_observability c) \<noteq> []"

definition trace_senders :: "('m, 'l, 'me, 't, 'w) server_env \<Rightarrow> ('m, 'l, 'me, 't) config \<Rightarrow> 't list" where
  "trace_senders env c = filter (ev_trace_opened env) (trace_channels (sc_observability c))"

definition handlers_of :: "('m, 'l, 'me, 't, 'w) server_env \<Rightarrow> ('m, 'l, 'me, 't) config \<Rightarrow> ('m, 'l, 'me, 't, 'w) ModuleHandlers list" where
  "handlers_of env c = map (ev_handlers env) (sc_modules c)"

subsection \<open>Logs\<close>

definition log_all :: "'l list \<Rightarrow> string \<Rightarrow> ('w, 'l) served \<Rightarrow> ('w, 'l) served" where
  "log_all ls msg = emit (map (\<lambda>l. Log_Message l msg) ls)"

definition or_default :: "string \<Rightarrow> string option \<Rightarrow> string" where
  "or_default d x = (case x of Some s \<Rightarrow> s | None \<Rightarrow> d)"

definition combined_log_format :: string where
  "combined_log_format = ''{client_ip} - {auth_user} [{timestamp}] \"{method} {path_and_query} {version}\" {status_code} {content_length} \"{header:Referer}\" \"{header:User-Agent}\"''"

definition log_access ::
  "('m, 'l, 'me, 't, 'w) server_env \<Rightarrow> 'l list \<Rightarrow> request_parts \<Rightarrow> SocketData \<Rightarrow> string option \<Rightarrow> response \<Rightarrow> string option \<Rightarrow> string option \<Rightarrow>
     ('w, 'l) served \<Rightarrow> ('w, 'l) served option" where
  "log_access env ls parts socket auth r date_format log_format s =
     map_option (\<lambda>line. emit (map (\<lambda>l. Access_Log l line) ls) s)
       (replace_log_placeholders (or_default combined_log_format log_format) parts socket auth
          (ev_timestamp env (or_default ''%d/%b/%Y:%H:%M:%S %z'' date_format) (world s))
          (of_nat (resp_status r)) (extract_content_length (ev_size_hint env) r))"

definition config_str :: "string \<Rightarrow> ('m, 'o) ServerConfiguration \<Rightarrow> string option" where
  "config_str name c = Option.bind (get_value_m name c) as_str"

definition finalize_response_and_log ::
  "('m, 'l, 'me, 't, 'w) serving \<Rightarrow> ('m, 'l, 'me, 't) config \<Rightarrow> string option \<Rightarrow> SocketData \<Rightarrow> response \<Rightarrow> ('w, 'l) served \<Rightarrow>
     (response \<times> ('w, 'l) served) option" where
  "finalize_response_and_log sv c auth socket response s =
     (let r = dress_response (sv_headers sv) (sv_alt_port sv) response
      in case sv_log_parts sv of
           Some parts \<Rightarrow>
             if loggers c \<noteq> []
             then map_option (\<lambda>s'. (r, s'))
               (log_access (sv_env sv) (loggers c) parts socket auth r (config_str ''log_date_format'' c) (config_str ''log_format'' c) s)
             else Some (r, s)
         | None \<Rightarrow> Some (r, s))"

subsection \<open>Metrics, spans and timeouts\<close>

definition run_before ::
  "('m, 'l, 'me, 't) config \<Rightarrow> ('m, 'l, 'me, 't, 'w) ModuleHandlers \<Rightarrow> request \<Rightarrow> SocketData \<Rightarrow> ('w, 'l) served \<Rightarrow> ('w, 'l) served" where
  "run_before c h req socket s =
     (if metrics_enabled c then emit [Metric_Before (h_name h)] s\<lparr>world := h_before h req socket (world s)\<rparr> else s)"

definition run_after :: "('m, 'l, 'me, 't) config \<Rightarrow> ('m, 'l, 'me, 't, 'w) ModuleHandlers \<Rightarrow> ('w, 'l) served \<Rightarrow> ('w, 'l) served" where
  "run_after c h s = (if metrics_enabled c then emit [Metric_After (h_name h)] s\<lparr>world := h_after h (world s)\<rparr> else s)"

definition start_spans :: "('m, 'l, 'me, 't, 'w) server_env \<Rightarrow> ('m, 'l, 'me, 't) config \<Rightarrow> string \<Rightarrow> ('w, 'l) served \<Rightarrow> ('w, 'l) served" where
  "start_spans env c name = emit (map (\<lambda>_. Start_Span name) (trace_senders env c))"

definition end_spans :: "('m, 'l, 'me, 't, 'w) server_env \<Rightarrow> ('m, 'l, 'me, 't) config \<Rightarrow> string \<Rightarrow> string option \<Rightarrow> ('w, 'l) served \<Rightarrow> ('w, 'l) served" where
  "end_spans env c name err = emit (map (\<lambda>_. End_Span name err) (trace_senders env c))"

abbreviation "timed_out_message \<equiv> ''The client or server has timed out''"

definition outcome_error :: "(string + 'a) option \<Rightarrow> string option" where
  "outcome_error r = (case r of None \<Rightarrow> Some timed_out_message | Some (Inl e) \<Rightarrow> Some e | Some (Inr _) \<Rightarrow> None)"

text \<open>The time left: \<open>None\<close> when the timeout has passed, \<open>Some None\<close> when there is none.\<close>

definition time_left :: "nat option \<Rightarrow> nat \<Rightarrow> nat option option" where
  "time_left limit elapsed = (case limit of None \<Rightarrow> Some None | Some d \<Rightarrow> if elapsed \<le> d then Some (Some (d - elapsed)) else None)"

definition call_request ::
  "('m, 'l, 'me, 't, 'w) serving \<Rightarrow> ('m, 'l, 'me, 't) config \<Rightarrow> ('m, 'l, 'me, 't, 'w) ModuleHandlers \<Rightarrow> request \<Rightarrow> SocketData \<Rightarrow> ('w, 'l) served \<Rightarrow>
     (string + ResponseData) option \<times> ('w, 'l) served" where
  "call_request sv c h req socket s =
     (case time_left (sv_timeout sv) (ev_elapsed (sv_env sv) (world s)) of
        None \<Rightarrow> (None, s)
      | Some left \<Rightarrow> (let (r, w) = h_request h left req c socket (world s) in (r, emit [Handle_Request (h_name h) (uri_path (rp_uri (req_parts req)))] s\<lparr>world := w\<rparr>)))"

definition call_response ::
  "('m, 'l, 'me, 't, 'w) serving \<Rightarrow> ('m, 'l, 'me, 't, 'w) ModuleHandlers \<Rightarrow> response \<Rightarrow> ('w, 'l) served \<Rightarrow> (string + response) option \<times> ('w, 'l) served" where
  "call_response sv h response s =
     (case time_left (sv_timeout sv) (ev_elapsed (sv_env sv) (world s)) of
        None \<Rightarrow> (None, s)
      | Some left \<Rightarrow> (let (r, w) = h_response h left response (world s) in (r, emit [Modify_Response (h_name h)] s\<lparr>world := w\<rparr>)))"

subsection \<open>Response handlers\<close>

text \<open>The result: a timeout, an answer already finished and logged, or the modified response.\<close>

datatype modified = Out_Of_Time | Finished_Response response | Modified_Response response

fun execute_response_modifying_handlers ::
  "('m, 'l, 'me, 't, 'w) serving \<Rightarrow> ('m, 'l, 'me, 't) config \<Rightarrow> string option \<Rightarrow> SocketData \<Rightarrow>
     ('m, 'l, 'me, 't, 'w) ModuleHandlers list \<Rightarrow> response \<Rightarrow> ('w, 'l) served \<Rightarrow> (modified \<times> ('w, 'l) served) option" where
  "execute_response_modifying_handlers sv c auth socket [] response s = Some (Modified_Response response, s)"
| "execute_response_modifying_handlers sv c auth socket (h # hs) response s =
     (let name = h_name h @ ''::response_modifying_handler'';
          (r, s1) = call_response sv h response (start_spans (sv_env sv) c name s);
          s2 = end_spans (sv_env sv) c name (outcome_error r) s1
      in case r of
           None \<Rightarrow> Some (Out_Of_Time, fold (run_after c) hs s2)
         | Some (Inl err) \<Rightarrow>
             (let s3 = log_all (loggers c) (''Unexpected error while serving a request: '' @ err) s2
              in map_option (\<lambda>(final, s4). (Finished_Response final, fold (run_after c) hs s4))
                   (finalize_response_and_log sv c auth socket
                      (generate_error_response (ev_page (sv_env sv) (world s3)) 500 c None) s3))
         | Some (Inr response') \<Rightarrow> execute_response_modifying_handlers sv c auth socket hs response' (run_after c h s2))"

definition answer ::
  "('m, 'l, 'me, 't, 'w) serving \<Rightarrow> ('m, 'l, 'me, 't) config \<Rightarrow> string option \<Rightarrow> SocketData \<Rightarrow>
     ('m, 'l, 'me, 't, 'w) ModuleHandlers list \<Rightarrow> response \<Rightarrow> ('w, 'l) served \<Rightarrow> ((string + response) \<times> ('w, 'l) served) option" where
  "answer sv c auth socket executed response s =
     Option.bind (execute_response_modifying_handlers sv c auth socket executed (dress_response (sv_headers sv) (sv_alt_port sv) response) s)
       (\<lambda>(m, s'). case m of
          Out_Of_Time \<Rightarrow> Some (Inl timed_out_message, s')
        | Finished_Response r \<Rightarrow> Some (Inr r, s')
        | Modified_Response r \<Rightarrow>
            (case sv_log_parts sv of
               None \<Rightarrow> Some (Inr r, s')
             | Some parts \<Rightarrow> map_option (\<lambda>s''. (Inr r, s''))
                 (log_access (sv_env sv) (loggers c) parts socket auth r (config_str ''log_date_format'' c) (config_str ''log_format'' c) s')))"

subsection \<open>Request handlers\<close>

definition error_page :: "('m, 'l, 'me, 't, 'w) serving \<Rightarrow> ('m, 'l, 'me, 't) config \<Rightarrow> nat \<Rightarrow> header_map option \<Rightarrow> ('w, 'l) served \<Rightarrow> response" where
  "error_page sv c status hs s = generate_error_response (ev_page (sv_env sv) (world s)) status c hs"

definition fresh_request_data :: RequestData where
  "fresh_request_data = \<lparr>auth_user = None, original_url = None, error_status_code = None\<rparr>"

text \<open>The error configuration for a status and the request it gets, unless it is already in use.\<close>

definition error_switch ::
  "('m, 'l, 'me, 't, 'w) serving \<Rightarrow> ('m, 'l, 'me, 't) config \<Rightarrow> bool \<Rightarrow> nat \<Rightarrow> request option \<Rightarrow> (('m, 'l, 'me, 't) config \<times> request) option" where
  "error_switch sv c is_error status req_option =
     (if is_error then None
      else case find_error_configuration (sv_configurations sv) (sc_filters c) (of_nat status) of
        None \<Rightarrow> None
      | Some error_configuration \<Rightarrow>
          map_option (\<lambda>req. (error_configuration, req\<lparr>req_data := map_option (\<lambda>d. d\<lparr>error_status_code := Some status\<rparr>) (req_data req)\<rparr>))
            (case req_option of
               Some req \<Rightarrow> Some req
             | None \<Rightarrow> map_option (\<lambda>parts. \<lparr>req_parts = parts, req_body = [], req_data = Some fresh_request_data\<rparr>) (sv_error_parts sv)))"

definition handle ::
  "('m, 'l, 'me, 't, 'w) serving \<Rightarrow> ('m, 'l, 'me, 't) config \<Rightarrow> ('m, 'l, 'me, 't, 'w) ModuleHandlers \<Rightarrow> request \<Rightarrow> SocketData \<Rightarrow> ('w, 'l) served \<Rightarrow>
     (string + ResponseData) option \<times> ('w, 'l) served" where
  "handle sv c h req socket s =
     (let name = h_name h @ ''::request_handler'';
          (r, s1) = call_request sv c h req socket (start_spans (sv_env sv) c name (run_before c h req socket s))
      in (r, end_spans (sv_env sv) c name (outcome_error r) s1))"

definition auth_after :: "ResponseData \<Rightarrow> string option \<Rightarrow> string option" where
  "auth_after rd auth = (case Option.bind (rd_request rd) req_data of Some d \<Rightarrow> auth_user d | None \<Rightarrow> auth)"

definition socket_after :: "ResponseData \<Rightarrow> SocketData \<Rightarrow> SocketData" where
  "socket_after rd socket = (case rd_new_remote_address rd of Some a \<Rightarrow> socket\<lparr>remote_addr := a\<rparr> | None \<Rightarrow> socket)"

text \<open>The loop. \<open>executed\<close> is the stack of the handlers that were called.\<close>

function run_handlers ::
  "('m, 'l, 'me, 't, 'w) serving \<Rightarrow> bool \<Rightarrow> ('m, 'l, 'me, 't) config \<Rightarrow> string option \<Rightarrow> SocketData \<Rightarrow>
     ('m, 'l, 'me, 't, 'w) ModuleHandlers list \<Rightarrow> ('m, 'l, 'me, 't, 'w) ModuleHandlers list \<Rightarrow> request \<Rightarrow> ('w, 'l) served \<Rightarrow>
     ((string + response) \<times> ('w, 'l) served) option" where
  "run_handlers sv is_error c auth socket executed [] req s =
     answer sv c auth socket executed (error_page sv c 404 None s) s"
| "run_handlers sv is_error c auth socket executed (h # hs) req s =
     (let (r, s1) = handle sv c h req socket s; executed' = h # executed
      in case r of
           None \<Rightarrow> Some (Inl timed_out_message, fold (run_after c) executed' s1)
         | Some (Inl err) \<Rightarrow>
             answer sv c auth socket executed' (error_page sv c 500 None s1)
               (log_all (loggers c) (''Unexpected error while serving a request: '' @ err) s1)
         | Some (Inr rd) \<Rightarrow>
             (let auth' = auth_after rd auth; socket' = socket_after rd socket
              in case rd_response rd of
                   Some response \<Rightarrow> answer sv c auth' socket' executed' response s1
                 | None \<Rightarrow>
                     (case rd_response_status rd of
                        Some status \<Rightarrow>
                          (case error_switch sv c is_error status (rd_request rd) of
                             Some (c', req') \<Rightarrow>
                               run_handlers sv True c' auth' socket' [] (handlers_of (sv_env sv) c') req' (fold (run_after c) executed' s1)
                           | None \<Rightarrow> answer sv c auth' socket' executed' (error_page sv c status (rd_response_headers rd) s1) s1)
                      | None \<Rightarrow>
                          (case rd_request rd of
                             Some req' \<Rightarrow> run_handlers sv is_error c auth' socket' executed' hs req' s1
                           | None \<Rightarrow> answer sv c auth' socket' executed' (error_page sv c 404 None s1) s1))))"
  by pat_completeness auto
termination
  by (relation "measures [\<lambda>(sv, is_error, _). if is_error then 0 else 1, \<lambda>(sv, is_error, c, auth, socket, executed, hs, _). length hs]")
    (auto simp: error_switch_def split: if_splits)

section \<open>Before the handlers\<close>

subsection \<open>Normalisation\<close>

definition with_headers_of :: "(header_map \<Rightarrow> header_map) \<Rightarrow> request_parts \<Rightarrow> request_parts" where
  "with_headers_of f parts = parts\<lparr>rp_headers := f (rp_headers parts)\<rparr>"

definition add_host :: "string option \<Rightarrow> header_map \<Rightarrow> header_map" where
  "add_host authority hs =
     (case authority of
        Some a \<Rightarrow> if \<not> header_contains ''host'' hs \<and> header_value_ok a then header_append ''host'' a hs else hs
      | None \<Rightarrow> hs)"

definition join_cookies :: "header_map \<Rightarrow> header_map" where
  "join_cookies hs =
     (let cookies = List.map_filter header_to_str (header_get_all ''cookie'' hs); v = join_with ''; '' cookies
      in if cookies \<noteq> [] \<and> header_value_ok v then header_insert ''cookie'' v hs else hs)"

definition normalize_parts :: "('m, 'l, 'me, 't, 'w) server_env \<Rightarrow> request_parts \<Rightarrow> request_parts" where
  "normalize_parts env parts =
     (if rp_version parts = HTTP_2 \<or> rp_version parts = HTTP_3
      then with_headers_of (\<lambda>hs. join_cookies (add_host (ev_authority env (rp_uri parts)) hs)) parts
      else parts)"

definition host_of :: "string \<Rightarrow> string" where
  "host_of host_header =
     (let lower = to_lowercase host_header in if lower \<noteq> [] \<and> last lower = CHR ''.'' then butlast lower else lower)"

definition sanitize_host :: "header_map \<Rightarrow> string + header_map" where
  "sanitize_host hs =
     (case header_get ''host'' hs of
        None \<Rightarrow> Inr hs
      | Some v \<Rightarrow>
          (case header_to_str v of
             None \<Rightarrow> Inl ''failed to convert header to a str''
           | Some host_header \<Rightarrow>
               if host_of host_header \<noteq> host_header
               then if header_value_ok (host_of host_header) then Inr (header_insert ''host'' (host_of host_header) hs)
                    else Inl ''failed to parse header value''
               else Inr hs))"

definition rsplit_once :: "char \<Rightarrow> string \<Rightarrow> (string \<times> string) option" where
  "rsplit_once c s = map_option (\<lambda>(a, b). (rev b, rev a)) (split_once c (rev s))"

definition hostname_determinant :: "header_map \<Rightarrow> string option" where
  "hostname_determinant hs =
     map_option (\<lambda>h. case rsplit_once CHR '':'' h of
         Some (left, right) \<Rightarrow> if parse_unsigned (2 ^ 16 - 1) right \<noteq> None then left else h
       | None \<Rightarrow> h)
       (Option.bind (header_get ''host'' hs) header_to_str)"

definition timeout_of :: "('m, 'o) ServerConfiguration option \<Rightarrow> nat option" where
  "timeout_of global_configuration =
     (let v = Option.bind (Option.bind global_configuration (get_entry_m ''timeout''))
          (\<lambda>e. if entry_values e = [] then None else Some (last (entry_values e)))
      in if (case v of Some x \<Rightarrow> is_null x | None \<Rightarrow> False) then None
         else Some (unat (word_of_int (case Option.bind v as_i128 of Some n \<Rightarrow> n | None \<Rightarrow> 300000) :: u64)))"

subsection \<open>The URL sanitizer\<close>

fun url_error_text :: "url_error \<Rightarrow> string" where
  "url_error_text URI_malformed = ''URI malformed''"
| "url_error_text Invalid_hex = ''Invalid hex''"
| "url_error_text Invalid_UTF8 = ''Invalid UTF-8 in result''"

text \<open>\<open>None\<close>: the URL stays as it is.\<close>

definition sanitize_request ::
  "('m, 'l, 'me, 't, 'w) server_env \<Rightarrow> ('m, 'l, 'me, 't) config \<Rightarrow> request_parts \<Rightarrow> string + request_parts option" where
  "sanitize_request env c parts =
     (if option_value_bool ''disable_url_sanitizer'' c then Inr None
      else case sanitize_url (uri_path (rp_uri parts)) (option_value_bool ''allow_double_slashes'' c) of
        Inl err \<Rightarrow> Inl (url_error_text err)
      | Inr path \<Rightarrow>
          if path = uri_path (rp_uri parts) then Inr None
          else map_sum id (\<lambda>u. Some (parts\<lparr>rp_uri := u\<rparr>)) (ev_set_path env (path @ query_suffix (rp_uri parts)) (rp_uri parts)))"

subsection \<open>Answers without handlers\<close>

text \<open>Before a configuration is known: the log formats and channels of the global configuration.\<close>

definition early_answer ::
  "('m, 'l, 'me, 't, 'w) server_env \<Rightarrow> u16 option \<Rightarrow> ('m, 'l, 'me, 't) config option \<Rightarrow> nat \<Rightarrow> string \<Rightarrow> request_parts \<Rightarrow> SocketData \<Rightarrow>
     ('w, 'l) served \<Rightarrow> ((string + response) \<times> ('w, 'l) served) option" where
  "early_answer env alt_port global status msg parts socket s =
     (let ls = (case global of Some g \<Rightarrow> loggers g | None \<Rightarrow> []);
          s1 = log_all ls msg s;
          r = \<lparr>resp_status = status, resp_headers = [(''content-type'', ''text/html'')],
               resp_body = generate_default_error_page (ev_page env (world s1)) status None\<rparr>
      in map_option (\<lambda>s2. (Inr (add_server_header (add_http3_alt_svc_header alt_port r)), s2))
           (log_access env ls parts socket None r (Option.bind global (config_str ''log_date_format''))
              (Option.bind global (config_str ''log_format'')) s1))"

definition finish :: "('m, 'l, 'me, 't, 'w) serving \<Rightarrow> ('m, 'l, 'me, 't) config \<Rightarrow> SocketData \<Rightarrow> response \<Rightarrow> ('w, 'l) served \<Rightarrow>
     ((string + response) \<times> ('w, 'l) served) option" where
  "finish sv c socket r s = map_option (\<lambda>(r', s'). (Inr r', s')) (finalize_response_and_log sv c None socket r s)"

text \<open>A request turned away after its configuration was found.\<close>

definition reject ::
  "('m, 'l, 'me, 't, 'w) serving \<Rightarrow> ('m, 'l, 'me, 't) config \<Rightarrow> string \<Rightarrow> request_parts \<Rightarrow> SocketData \<Rightarrow> ('w, 'l) served \<Rightarrow>
     ((string + response) \<times> ('w, 'l) served) option" where
  "reject sv c msg parts socket s =
     (let s1 = log_all (loggers c) msg s; page = ev_page (sv_env sv) (world s1)
      in Option.bind (custom_headers_of page c parts) (\<lambda>ch.
           finish (sv\<lparr>sv_headers := ch\<rparr>) c socket (generate_error_response page 400 c None) s1))"

definition star_response :: "('m, 'l, 'me, 't, 'w) serving \<Rightarrow> ('m, 'l, 'me, 't) config \<Rightarrow> request_parts \<Rightarrow> ('w, 'l) served \<Rightarrow> response" where
  "star_response sv c parts s =
     (let allow = [(''allow'', ''GET, POST, HEAD, OPTIONS'')]
      in if rp_method parts = ''OPTIONS'' then \<lparr>resp_status = 204, resp_headers = allow, resp_body = []\<rparr>
         else error_page sv c 400 (Some allow) s)"

text \<open>ACME challenges: a token and the response to it, while one is being solved.\<close>

definition acme_response :: "(string \<times> string) option list \<Rightarrow> string \<Rightarrow> response option" where
  "acme_response resolvers path =
     Option.bind (strip_prefix ''/.well-known/acme-challenge/'' path) (\<lambda>challenge_token.
       map_option (\<lambda>(_, acme). \<lparr>resp_status = 200, resp_headers = [(''content-type'', ''application/octet-stream'')], resp_body = acme\<rparr>)
         (find (\<lambda>(token, _). token = challenge_token) (List.map_filter id resolvers)))"

text \<open>Whether the parts of the request are kept for an error configuration.\<close>

definition has_error_configuration :: "('m, 'o) ServerConfigurations \<Rightarrow> ServerConfigurationFilters \<Rightarrow> bool" where
  "has_error_configuration scs filters \<longleftrightarrow>
     list_ex (\<lambda>c. let f = sc_filters c
       in is_host f \<and> hostname f = hostname filters \<and> ip f = ip filters \<and> port f = port filters \<and>
          (condition f = None \<or> option_eq conditions_eq (condition f) (condition filters)) \<and>
          error_handler_status f \<noteq> None) (scs_inner scs)"

text \<open>From the final configuration on.\<close>

definition serve_modules ::
  "('m, 'l, 'me, 't, 'w) serving \<Rightarrow> ('m, 'l, 'me, 't) config \<Rightarrow> (string \<times> string) option list \<Rightarrow> request \<Rightarrow> SocketData \<Rightarrow> ('w, 'l) served \<Rightarrow>
     ((string + response) \<times> ('w, 'l) served) option" where
  "serve_modules sv c resolvers req socket s =
     (let parts = req_parts req
      in Option.bind (custom_headers_of (ev_page (sv_env sv) (world s)) c parts) (\<lambda>ch.
           let sv1 = sv\<lparr>sv_headers := ch\<rparr>
           in if uri_path (rp_uri parts) = ''*'' then finish sv1 c socket (star_response sv1 c parts s) s
              else case acme_response resolvers (uri_path (rp_uri parts)) of
                Some r \<Rightarrow> finish sv1 c socket r s
              | None \<Rightarrow>
                  run_handlers
                    (sv1\<lparr>sv_error_parts := (if has_error_configuration (sv_configurations sv) (sc_filters c)
                       then Some (with_headers_of (header_insert ''content-length'' ''0'') parts) else None)\<rparr>)
                    False c None socket [] (handlers_of (sv_env sv) c) (req\<lparr>req_data := Some fresh_request_data\<rparr>) s))"

text \<open>The sanitizer, and the second look at the configurations for the sanitized URL.\<close>

definition serve_configuration ::
  "('m, 'l, 'me, 't, 'w) serving \<Rightarrow> ('m, 'l, 'me, 't) config \<Rightarrow> (string \<times> string) option list \<Rightarrow> request \<Rightarrow> SocketData \<Rightarrow> ('w, 'l) served \<Rightarrow>
     ((string + response) \<times> ('w, 'l) served) option" where
  "serve_configuration sv c resolvers req socket s =
     (case sanitize_request (sv_env sv) c (req_parts req) of
        Inl err \<Rightarrow> reject sv c (''URL sanitation error: '' @ err) (req_parts req) socket s
      | Inr None \<Rightarrow> serve_modules sv c resolvers req socket s
      | Inr (Some parts) \<Rightarrow>
          (case find_configuration (ev_externs (sv_env sv)) (sv_configurations sv) parts (hostname_determinant (rp_headers parts)) socket of
             None \<Rightarrow> None
           | Some (Inr found) \<Rightarrow>
               serve_modules sv (case found of Some c' \<Rightarrow> c' | None \<Rightarrow> c) resolvers (req\<lparr>req_parts := parts\<rparr>) socket s
           | Some (Inl err) \<Rightarrow> reject sv c (''Cannot determine server configuration: '' @ err) parts socket s))"

record ('m, 'l, 'me, 't) incoming =
  in_configurations :: "('m, ('l, 'me, 't) ObservabilityBackendChannels) ServerConfigurations"
  in_alt_port :: "u16 option"
  in_socket :: SocketData
  in_proxy_client :: "SocketAddr option"
  in_proxy_server :: "SocketAddr option"
  in_resolvers :: "(string \<times> string) option list"

definition socket_of :: "('m, 'l, 'me, 't) incoming \<Rightarrow> SocketData" where
  "socket_of inc =
     (let sd = in_socket inc
      in sd\<lparr>remote_addr := (case in_proxy_client inc of Some a \<Rightarrow> a | None \<Rightarrow> remote_addr sd),
            local_addr := (case in_proxy_server inc of Some a \<Rightarrow> a | None \<Rightarrow> local_addr sd)\<rparr>)"

definition request_handler ::
  "('m, 'l, 'me, 't, 'w) server_env \<Rightarrow> ('m, 'l, 'me, 't) incoming \<Rightarrow> request \<Rightarrow> ('w, 'l) served \<Rightarrow> ((string + response) \<times> ('w, 'l) served) option" where
  "request_handler env inc req0 s =
     (let scs = in_configurations inc; alt_port = in_alt_port inc; socket = socket_of inc;
          global = find_global_configuration scs;
          parts = normalize_parts env (req_parts req0)
      in case sanitize_host (rp_headers parts) of
           Inl err \<Rightarrow> early_answer env alt_port global 400 (''Host header sanitation error: '' @ err) parts socket s
         | Inr hs \<Rightarrow>
             (let parts1 = parts\<lparr>rp_headers := hs\<rparr>; req = req0\<lparr>req_parts := parts1\<rparr>
              in case find_configuration (ev_externs env) scs parts1 (hostname_determinant hs) socket of
                   None \<Rightarrow> None
                 | Some (Inl err) \<Rightarrow> early_answer env alt_port global 500 (''Cannot determine server configuration: '' @ err) parts1 socket s
                 | Some (Inr None) \<Rightarrow> early_answer env alt_port global 500 ''Cannot determine server configuration'' parts1 socket s
                 | Some (Inr (Some c)) \<Rightarrow>
                     serve_configuration \<lparr>sv_env = env, sv_configurations = scs, sv_alt_port = alt_port, sv_timeout = timeout_of global,
                         sv_headers = \<lparr>headers_to_add = [], headers_to_replace = [], headers_to_remove = []\<rparr>,
                         sv_log_parts = (if (case global of Some g \<Rightarrow> loggers g \<noteq> [] | None \<Rightarrow> False) \<or> loggers c \<noteq> [] then Some parts1 else None),
                         sv_error_parts = None\<rparr>
                       c (in_resolvers inc) req socket s))"

end
