(* ===== verification/Request_Chain.thy ===== *)
theory Request_Chain
  imports Request_Handler "HOL-Library.Sublist"
begin

text \<open>
  What the chain of handlers guarantees, whatever the modules do: the order of the calls, the balance of
  the metrics, and the access log. Each lemma describes the events an operation appends by three
  projections: the calls of the handlers, the metrics begun and ended, and the lines of the access log.
  The specification is \<open>chain_of\<close>: which handlers the phases of a request call, of which configuration.
\<close>

section \<open>Projections of the events\<close>

fun call_of :: "'l event \<Rightarrow> (bool \<times> string) option" where
  "call_of (Handle_Request n p) = Some (True, n)"
| "call_of (Modify_Response n) = Some (False, n)"
| "call_of _ = None"

fun begun_of :: "'l event \<Rightarrow> string option" where
  "begun_of (Metric_Before n) = Some n"
| "begun_of _ = None"

fun ended_of :: "'l event \<Rightarrow> string option" where
  "ended_of (Metric_After n) = Some n"
| "ended_of _ = None"

fun access_of :: "'l event \<Rightarrow> ('l \<times> string) option" where
  "access_of (Access_Log l line) = Some (l, line)"
| "access_of _ = None"

definition calls :: "'l event list \<Rightarrow> (bool \<times> string) list" where "calls = List.map_filter call_of"
definition begun :: "'l event list \<Rightarrow> string multiset" where "begun es = mset (List.map_filter begun_of es)"
definition ended :: "'l event list \<Rightarrow> string multiset" where "ended es = mset (List.map_filter ended_of es)"
definition access_lines :: "'l event list \<Rightarrow> ('l \<times> string) list" where "access_lines = List.map_filter access_of"

lemma map_filter_append [simp]: "List.map_filter f (xs @ ys) = List.map_filter f xs @ List.map_filter f ys"
  by (simp add: List.map_filter_def)

lemma projections_append [simp]:
  "calls (xs @ ys) = calls xs @ calls ys" "begun (xs @ ys) = begun xs + begun ys"
  "ended (xs @ ys) = ended xs + ended ys" "access_lines (xs @ ys) = access_lines xs @ access_lines ys"
  by (simp_all add: calls_def begun_def ended_def access_lines_def)

lemma map_filter_const: "List.map_filter f (map (\<lambda>_. e) xs) = (case f e of None \<Rightarrow> [] | Some y \<Rightarrow> map (\<lambda>_. y) xs)"
  by (induction xs) (auto simp: List.map_filter_simps split: option.split)

lemma projections_basic [simp]:
  "calls [] = []" "begun [] = {#}" "ended [] = {#}" "access_lines [] = []"
  "calls (e # es) = (case call_of e of None \<Rightarrow> [] | Some c \<Rightarrow> [c]) @ calls es"
  "begun (e # es) = (case begun_of e of None \<Rightarrow> {#} | Some n \<Rightarrow> {#n#}) + begun es"
  "ended (e # es) = (case ended_of e of None \<Rightarrow> {#} | Some n \<Rightarrow> {#n#}) + ended es"
  "access_lines (e # es) = (case access_of e of None \<Rightarrow> [] | Some l \<Rightarrow> [l]) @ access_lines es"
  by (simp_all add: calls_def begun_def ended_def access_lines_def List.map_filter_simps split: option.split)

lemma projections_const [simp]:
  "calls (map (\<lambda>_. e) xs) = (case call_of e of None \<Rightarrow> [] | Some y \<Rightarrow> map (\<lambda>_. y) xs)"
  "begun (map (\<lambda>_. e) xs) = (case begun_of e of None \<Rightarrow> {#} | Some y \<Rightarrow> mset (map (\<lambda>_. y) xs))"
  "ended (map (\<lambda>_. e) xs) = (case ended_of e of None \<Rightarrow> {#} | Some y \<Rightarrow> mset (map (\<lambda>_. y) xs))"
  "access_lines (map (\<lambda>_. e) xs) = (case access_of e of None \<Rightarrow> [] | Some y \<Rightarrow> map (\<lambda>_. y) xs)"
  by (simp_all add: calls_def begun_def ended_def access_lines_def map_filter_const split: option.split)

lemma projections_logs [simp]:
  "calls (map (\<lambda>l. Log_Message l msg) ls) = []" "begun (map (\<lambda>l. Log_Message l msg) ls) = {#}"
  "ended (map (\<lambda>l. Log_Message l msg) ls) = {#}" "access_lines (map (\<lambda>l. Log_Message l msg) ls) = []"
  "calls (map (\<lambda>l. Access_Log l msg) ls) = []" "begun (map (\<lambda>l. Access_Log l msg) ls) = {#}"
  "ended (map (\<lambda>l. Access_Log l msg) ls) = {#}" "access_lines (map (\<lambda>l. Access_Log l msg) ls) = map (\<lambda>l. (l, msg)) ls"
  by (induction ls) simp_all

section \<open>The events of the operations\<close>

lemma events_simps [simp]:
  "events (emit es s) = events s @ es"
  "events (log_all ls msg s) = events s @ map (\<lambda>l. Log_Message l msg) ls"
  "events (start_spans env c n s) = events s @ map (\<lambda>_. Start_Span n) (trace_senders env c)"
  "events (end_spans env c n e s) = events s @ map (\<lambda>_. End_Span n e) (trace_senders env c)"
  "events (run_before c h req socket s) = events s @ (if metrics_enabled c then [Metric_Before (h_name h)] else [])"
  "events (run_after c h s) = events s @ (if metrics_enabled c then [Metric_After (h_name h)] else [])"
  by (simp_all add: emit_def log_all_def start_spans_def end_spans_def run_before_def run_after_def)

lemma world_simps [simp]:
  "world (emit es s) = world s" "world (log_all ls msg s) = world s"
  "world (start_spans env c n s) = world s" "world (end_spans env c n e s) = world s"
  by (simp_all add: emit_def log_all_def start_spans_def end_spans_def)

lemma events_fold_after [simp]:
  "events (fold (run_after c) hs s) = events s @ (if metrics_enabled c then map (\<lambda>h. Metric_After (h_name h)) hs else [])"
  by (induction hs arbitrary: s) auto

lemma projections_after [simp]:
  "calls (map (\<lambda>h. Metric_After (h_name h)) hs) = []" "begun (map (\<lambda>h. Metric_After (h_name h)) hs) = {#}"
  "ended (map (\<lambda>h. Metric_After (h_name h)) hs) = mset (map h_name hs)" "access_lines (map (\<lambda>h. Metric_After (h_name h)) hs) = []"
  by (induction hs) simp_all

lemma log_access_events:
  "log_access env ls parts socket auth r df lf s = Some s' \<Longrightarrow>
     \<exists>line. events s' = events s @ map (\<lambda>l. Access_Log l line) ls \<and> world s' = world s"
  by (auto simp: log_access_def)

text \<open>One line in each access log of a configuration, if the parts of the request were kept for it.\<close>

definition logged_in :: "('m, 'l, 'me, 't, 'w) serving \<Rightarrow> ('m, 'l, 'me, 't) config \<Rightarrow> ('l \<times> string) list \<Rightarrow> bool" where
  "logged_in sv c ls \<longleftrightarrow> (\<exists>line. ls = (if sv_log_parts sv = None then [] else map (\<lambda>l. (l, line)) (loggers c)))"

lemma finalize_events:
  assumes "finalize_response_and_log sv c auth socket response s = Some (r, s')"
  shows "\<exists>es. events s' = events s @ es \<and> calls es = [] \<and> begun es = {#} \<and> ended es = {#} \<and> logged_in sv c (access_lines es)"
  using assms
  by (auto simp: finalize_response_and_log_def logged_in_def Let_def split: option.splits if_splits dest!: log_access_events)

definition mset_names :: "('m, 'l, 'me, 't) config \<Rightarrow> ('m, 'l, 'me, 't, 'w) ModuleHandlers list \<Rightarrow> string multiset" where
  "mset_names c hs = (if metrics_enabled c then mset (map h_name hs) else {#})"

lemma call_response_events:
  assumes "call_response sv h response s = (r, s')"
  shows "\<exists>n. events s' = events s @ (if n then [Modify_Response (h_name h)] else []) \<and> (r \<noteq> None \<longrightarrow> n)"
proof (cases "time_left (sv_timeout sv) (ev_elapsed (sv_env sv) (world s))")
  case None
  then show ?thesis using assms by (intro exI [of _ False]) (simp add: call_response_def)
next
  case (Some b)
  then show ?thesis using assms by (intro exI [of _ True]) (auto simp: call_response_def split: prod.splits)
qed

lemma call_request_events:
  assumes "call_request sv c h req socket s = (r, s')"
  shows "\<exists>n. events s' = events s @ (if n then [Handle_Request (h_name h) (uri_path (rp_uri (req_parts req)))] else []) \<and> (r \<noteq> None \<longrightarrow> n)"
proof (cases "time_left (sv_timeout sv) (ev_elapsed (sv_env sv) (world s))")
  case None
  then show ?thesis using assms by (intro exI [of _ False]) (simp add: call_request_def)
next
  case (Some b)
  then show ?thesis using assms by (intro exI [of _ True]) (auto simp: call_request_def split: prod.splits)
qed

text \<open>
  The response handlers: they are called from the top of the stack. \<open>k\<close> is the number of those that gave a
  response; if one did not, it is the only one that does not get its final metrics.
\<close>

definition fails :: "('m, 'l, 'me, 't, 'w) ModuleHandlers \<Rightarrow> bool" where
  "fails h \<longleftrightarrow> (\<exists>left r w err w'. h_response h left r w = (Some (Inl err), w'))"

lemma call_response_fails: "call_response sv h response s = (Some (Inl err), s') \<Longrightarrow> fails h"
  by (fastforce simp: call_response_def fails_def split: option.splits prod.splits)

lemma mset_names_simps [simp]:
  "mset_names c [] = {#}" "mset_names c (h # hs) = (if metrics_enabled c then {#h_name h#} else {#}) + mset_names c hs"
  "mset_names c (xs @ ys) = mset_names c xs + mset_names c ys" "mset_names c (rev xs) = mset_names c xs"
  by (auto simp: mset_names_def)

definition stopped :: "('m, 'l, 'me, 't, 'w) ModuleHandlers list \<Rightarrow> modified \<Rightarrow> nat \<Rightarrow> nat \<Rightarrow> bool" where
  "stopped hs m j k \<longleftrightarrow>
     (case m of
        Modified_Response _ \<Rightarrow> k = length hs \<and> j = k
      | Finished_Response _ \<Rightarrow> k < length hs \<and> j = Suc k \<and> fails (hs ! k)
      | Out_Of_Time \<Rightarrow> k < length hs \<and> j \<in> {k, Suc k})"

lemma execute_events:
  fixes s :: "('w, 'l) served"
  assumes "execute_response_modifying_handlers sv c auth socket hs response s = Some (m, s')"
  shows "\<exists>es j k. events s' = events s @ es \<and> calls es = map (\<lambda>h. (False, h_name h)) (take j hs) \<and>
    begun es = {#} \<and> ended es = mset_names c (take k hs @ drop (Suc k) hs) \<and> stopped hs m j k \<and>
    (case m of Finished_Response _ \<Rightarrow> logged_in sv c (access_lines es) | _ \<Rightarrow> access_lines es = [])"
  using assms
proof (induction hs arbitrary: response s)
  case Nil
  then show ?case by (auto simp: stopped_def intro!: exI [of _ "[]"])
next
  case (Cons h hs)
  let ?name = "h_name h @ ''::response_modifying_handler''"
  let ?s0 = "start_spans (sv_env sv) c ?name s"
  obtain r s1 where call: "call_response sv h response ?s0 = (r, s1)" by force
  let ?s2 = "end_spans (sv_env sv) c ?name (outcome_error r) s1"
  obtain n where s1: "events s1 = events ?s0 @ (if n then [Modify_Response (h_name h)] else [])" "r \<noteq> None \<longrightarrow> n"
    using call_response_events [OF call] by blast
  define pre :: "'l event list" where "pre = map (\<lambda>_. Start_Span ?name) (trace_senders (sv_env sv) c) @ (if n then [Modify_Response (h_name h)] else []) @
      map (\<lambda>_. End_Span ?name (outcome_error r)) (trace_senders (sv_env sv) c)"
  have s2: "events ?s2 = events s @ pre" by (simp add: s1 pre_def)
  have pre: "calls pre = (if n then [(False, h_name h)] else [])" "begun pre = {#}" "ended pre = {#}" "access_lines pre = []"
    by (auto simp: pre_def)
  note step = Cons.prems [unfolded execute_response_modifying_handlers.simps(2) Let_def call prod.case]
  consider (Out) "r = None" | (Error) err where "r = Some (Inl err)" | (Ok) response' where "r = Some (Inr response')"
    by (cases r; cases "the r") auto
  then show ?case
  proof cases
    case Out
    let ?es = "pre @ (if metrics_enabled c then map (\<lambda>h. Metric_After (h_name h)) hs else [])"
    have "events s' = events s @ ?es" "m = Out_Of_Time" using step Out s2 by auto
    then show ?thesis
      by (intro exI [of _ ?es] exI [of _ "if n then 1 else 0"] exI [of _ 0]) (simp add: pre stopped_def mset_names_def)
  next
    case Error
    let ?s3 = "log_all (loggers c) (''Unexpected error while serving a request: '' @ err) ?s2"
    obtain final s4 where f: "finalize_response_and_log sv c auth socket
        (generate_error_response (ev_page (sv_env sv) (world ?s3)) 500 c None) ?s3 = Some (final, s4)"
      and m: "m = Finished_Response final" "s' = fold (run_after c) hs s4"
      using step Error by (auto simp: Let_def)
    obtain fe where fe: "events s4 = events ?s3 @ fe" "calls fe = []" "begun fe = {#}" "ended fe = {#}" "logged_in sv c (access_lines fe)"
      using finalize_events [OF f] by blast
    let ?es = "pre @ map (\<lambda>l. Log_Message l (''Unexpected error while serving a request: '' @ err)) (loggers c) @ fe @
      (if metrics_enabled c then map (\<lambda>h. Metric_After (h_name h)) hs else [])"
    have "events s' = events s @ ?es" using s2 fe m by simp
    moreover have "fails h" using call_response_fails call Error by blast
    ultimately show ?thesis using s1(2) Error
      by (intro exI [of _ ?es] exI [of _ 1] exI [of _ 0]) (simp add: pre fe m stopped_def mset_names_def)
  next
    case Ok
    have "execute_response_modifying_handlers sv c auth socket hs response' (run_after c h ?s2) = Some (m, s')"
      using step Ok by simp
    from Cons.IH [OF this] obtain es j k where IH: "events s' = events (run_after c h ?s2) @ es"
      "calls es = map (\<lambda>h. (False, h_name h)) (take j hs)" "begun es = {#}" "ended es = mset_names c (take k hs @ drop (Suc k) hs)"
      "stopped hs m j k" "case m of Finished_Response _ \<Rightarrow> logged_in sv c (access_lines es) | _ \<Rightarrow> access_lines es = []" by blast
    let ?es = "pre @ (if metrics_enabled c then [Metric_After (h_name h)] else []) @ es"
    have "events s' = events s @ ?es" using s2 IH(1) by simp
    moreover have "ended ?es = mset_names c (take (Suc k) (h # hs) @ drop (Suc (Suc k)) (h # hs))" using IH(4) by (auto simp: pre)
    moreover have "stopped (h # hs) m (Suc j) (Suc k)" using IH(5) by (auto simp: stopped_def split: modified.splits)
    ultimately show ?thesis using IH s1(2) Ok
      by (intro exI [of _ ?es] exI [of _ "Suc j"] exI [of _ "Suc k"]) (simp add: pre cong: modified.case_cong)
  qed
qed

text \<open>What an answer adds: the response handlers, the end of the metrics, and the line of the access log.\<close>

definition answer_shape ::
  "('m, 'l, 'me, 't, 'w) serving \<Rightarrow> ('m, 'l, 'me, 't) config \<Rightarrow> ('m, 'l, 'me, 't, 'w) ModuleHandlers list \<Rightarrow> string + response \<Rightarrow>
     'l event list \<Rightarrow> nat \<Rightarrow> nat \<Rightarrow> bool" where
  "answer_shape sv c executed r es j k \<longleftrightarrow>
     calls es = map (\<lambda>h. (False, h_name h)) (take j executed) \<and> begun es = {#} \<and>
     ended es = mset_names c (take k executed @ drop (Suc k) executed) \<and> k \<le> length executed \<and>
     (case r of
        Inl _ \<Rightarrow> access_lines es = [] \<and> k < length executed
      | Inr _ \<Rightarrow> logged_in sv c (access_lines es) \<and> j = min (Suc k) (length executed) \<and> (k < length executed \<longrightarrow> fails (executed ! k)))"

lemma answer_events:
  assumes "answer sv c auth socket executed response s = Some (r, s')"
  shows "\<exists>es j k. events s' = events s @ es \<and> answer_shape sv c executed r es j k"
proof -
  let ?d = "dress_response (sv_headers sv) (sv_alt_port sv) response"
  obtain m s1 where e: "execute_response_modifying_handlers sv c auth socket executed ?d s = Some (m, s1)"
    using assms by (auto simp: answer_def bind_eq_Some_conv)
  obtain es j k where es: "events s1 = events s @ es"
    "calls es = map (\<lambda>h. (False, h_name h)) (take j executed)" "begun es = {#}"
    "ended es = mset_names c (take k executed @ drop (Suc k) executed)" "stopped executed m j k"
    "case m of Finished_Response _ \<Rightarrow> logged_in sv c (access_lines es) | _ \<Rightarrow> access_lines es = []"
    using execute_events [OF e] by blast
  note a = assms [unfolded answer_def e bind.simps prod.case]
  show ?thesis
  proof (cases m)
    case Out_Of_Time
    with a es show ?thesis by (intro exI [of _ es] exI [of _ j] exI [of _ k]) (auto simp: answer_shape_def stopped_def)
  next
    case (Finished_Response x)
    with a es show ?thesis by (intro exI [of _ es] exI [of _ j] exI [of _ k]) (auto simp: answer_shape_def stopped_def)
  next
    case (Modified_Response x)
    show ?thesis
    proof (cases "sv_log_parts sv")
      case None
      with a es Modified_Response show ?thesis
        by (intro exI [of _ es] exI [of _ j] exI [of _ k]) (auto simp: answer_shape_def stopped_def logged_in_def)
    next
      case (Some parts)
      obtain s2 where l: "log_access (sv_env sv) (loggers c) parts socket auth x (config_str ''log_date_format'' c)
          (config_str ''log_format'' c) s1 = Some s2" and r: "r = Inr x" "s' = s2"
        using a Modified_Response Some by auto
      obtain line where "events s2 = events s1 @ map (\<lambda>l. Access_Log l line) (loggers c)" using log_access_events [OF l] by blast
      with es Modified_Response Some r show ?thesis
        by (intro exI [of _ "es @ map (\<lambda>l. Access_Log l line) (loggers c)"] exI [of _ j] exI [of _ k])
          (auto simp: answer_shape_def stopped_def logged_in_def)
    qed
  qed
qed

lemma handle_events:
  assumes "handle sv c h req socket s = (r, s')"
  shows "\<exists>es n. events s' = events s @ es \<and> calls es = (if n then [(True, h_name h)] else []) \<and> (r \<noteq> None \<longrightarrow> n) \<and>
    begun es = mset_names c [h] \<and> ended es = {#} \<and> access_lines es = []"
proof -
  let ?name = "h_name h @ ''::request_handler''"
  let ?s0 = "start_spans (sv_env sv) c ?name (run_before c h req socket s)"
  obtain q s1 where call: "call_request sv c h req socket ?s0 = (q, s1)" by force
  obtain n where n: "events s1 = events ?s0 @ (if n then [Handle_Request (h_name h) (uri_path (rp_uri (req_parts req)))] else [])" "q \<noteq> None \<longrightarrow> n"
    using call_request_events [OF call] by blast
  have r: "r = q" "s' = end_spans (sv_env sv) c ?name (outcome_error q) s1" using assms call by (auto simp: handle_def Let_def)
  let ?es = "(if metrics_enabled c then [Metric_Before (h_name h)] else []) @ map (\<lambda>_. Start_Span ?name) (trace_senders (sv_env sv) c) @
    (if n then [Handle_Request (h_name h) (uri_path (rp_uri (req_parts req)))] else []) @
    map (\<lambda>_. End_Span ?name (outcome_error q)) (trace_senders (sv_env sv) c)"
  show ?thesis using n r by (intro exI [of _ ?es] exI [of _ n]) auto
qed

section \<open>The phases of a request\<close>

text \<open>
  How the request handlers of one configuration end: the time runs out, there is a response, or a status that
  an error configuration may answer. With it come the number of handlers that were reached, and what
  they leave.
\<close>

datatype phase = Ran_Out | Responds response | Ends_With nat "request option" "header_map option"

fun request_phase ::
  "('m, 'l, 'me, 't, 'w) serving \<Rightarrow> ('m, 'l, 'me, 't) config \<Rightarrow> string option \<Rightarrow> SocketData \<Rightarrow> ('m, 'l, 'me, 't, 'w) ModuleHandlers list \<Rightarrow>
     request \<Rightarrow> ('w, 'l) served \<Rightarrow> phase \<times> nat \<times> string option \<times> SocketData \<times> ('w, 'l) served" where
  "request_phase sv c auth socket [] req s = (Responds (error_page sv c 404 None s), 0, auth, socket, s)"
| "request_phase sv c auth socket (h # hs) req s =
     (case handle sv c h req socket s of
        (None, s1) \<Rightarrow> (Ran_Out, 1, auth, socket, s1)
      | (Some (Inl err), s1) \<Rightarrow>
          (Responds (error_page sv c 500 None s1), 1, auth, socket, log_all (loggers c) (''Unexpected error while serving a request: '' @ err) s1)
      | (Some (Inr rd), s1) \<Rightarrow>
          (case (rd_response rd, rd_response_status rd, rd_request rd) of
             (Some response, _, _) \<Rightarrow> (Responds response, 1, auth_after rd auth, socket_after rd socket, s1)
           | (None, Some status, q) \<Rightarrow> (Ends_With status q (rd_response_headers rd), 1, auth_after rd auth, socket_after rd socket, s1)
           | (None, None, None) \<Rightarrow> (Responds (error_page sv c 404 None s1), 1, auth_after rd auth, socket_after rd socket, s1)
           | (None, None, Some req') \<Rightarrow> apsnd (apfst Suc) (request_phase sv c (auth_after rd auth) (socket_after rd socket) hs req' s1)))"

definition switch ::
  "('m, 'l, 'me, 't, 'w) serving \<Rightarrow> ('m, 'l, 'me, 't) config \<Rightarrow> bool \<Rightarrow> phase \<Rightarrow> (('m, 'l, 'me, 't) config \<times> request) option" where
  "switch sv c is_error p = (case p of Ends_With status q hs \<Rightarrow> error_switch sv c is_error status q | _ \<Rightarrow> None)"

definition phase_response :: "('m, 'l, 'me, 't, 'w) serving \<Rightarrow> ('m, 'l, 'me, 't) config \<Rightarrow> phase \<Rightarrow> ('w, 'l) served \<Rightarrow> response" where
  "phase_response sv c p s =
     (case p of Responds r \<Rightarrow> r | Ends_With status q hs \<Rightarrow> error_page sv c status hs s | Ran_Out \<Rightarrow> error_page sv c 404 None s)"

text \<open>The loop is its request handlers, then either the error configuration or the response handlers.\<close>

lemma run_handlers_phases:
  "run_handlers sv e c auth socket executed hs req s =
     (case request_phase sv c auth socket hs req s of
        (p, n, auth', socket', s1) \<Rightarrow>
          (case switch sv c e p of
             Some (c', req') \<Rightarrow>
               run_handlers sv True c' auth' socket' [] (handlers_of (sv_env sv) c') req' (fold (run_after c) (rev (take n hs) @ executed) s1)
           | None \<Rightarrow>
               if p = Ran_Out then Some (Inl timed_out_message, fold (run_after c) (rev (take n hs) @ executed) s1)
               else answer sv c auth' socket' (rev (take n hs) @ executed) (phase_response sv c p s1) s1))"
proof (induction hs arbitrary: auth socket executed req s)
  case Nil
  then show ?case by (simp add: switch_def phase_response_def)
next
  case (Cons h hs)
  obtain q s1 where h: "handle sv c h req socket s = (q, s1)" by force
  consider (Out) "q = None" | (Error) err where "q = Some (Inl err)" | (Ok) rd where "q = Some (Inr rd)"
    by (cases q; cases "the q") auto
  then show ?case
  proof cases
    case Ok
    show ?thesis
    proof (cases "rd_response rd")
      case no_response: None
      show ?thesis
      proof (cases "rd_response_status rd")
        case no_status: None
        show ?thesis
        proof (cases "rd_request rd")
          case (Some req')
          obtain p n a so s2 where p: "request_phase sv c (auth_after rd auth) (socket_after rd socket) hs req' s1 = (p, n, a, so, s2)"
            by (metis prod.exhaust)
          show ?thesis
            by (simp add: h Ok no_response no_status Some Let_def Cons.IH p split: option.split)
        qed (simp add: h Ok no_response no_status Let_def switch_def phase_response_def)
      qed (simp add: h Ok no_response Let_def switch_def phase_response_def split: option.split)
    qed (simp add: h Ok Let_def switch_def phase_response_def)
  qed (simp_all add: h Let_def switch_def phase_response_def)
qed

lemma request_phase_events:
  assumes "request_phase sv c auth socket hs req s = (p, n, auth', socket', s')"
  shows "n \<le> length hs \<and> (\<exists>es. events s' = events s @ es \<and> (p \<noteq> Ran_Out \<longrightarrow> calls es = map (\<lambda>h. (True, h_name h)) (take n hs)) \<and>
    begun es = mset_names c (take n hs) \<and> ended es = {#} \<and> access_lines es = [])"
  using assms
proof (induction hs arbitrary: auth socket req s p n)
  case Nil
  then show ?case by (auto intro: exI [of _ "[]"])
next
  case (Cons h hs)
  obtain q s1 where h: "handle sv c h req socket s = (q, s1)" by force
  obtain es m where es: "events s1 = events s @ es" "calls es = (if m then [(True, h_name h)] else [])" "q \<noteq> None \<longrightarrow> m"
    "begun es = mset_names c [h]" "ended es = {#}" "access_lines es = []"
    using handle_events [OF h] by blast
  have one: ?case if "n = 1" "events s' = events s1 @ map (\<lambda>l. Log_Message l msg) ls" "q = None \<longrightarrow> p = Ran_Out" for msg and ls :: "'b list"
    using that es by (auto intro!: exI [of _ "es @ map (\<lambda>l. Log_Message l msg) ls"])
  consider (Out) "q = None" | (Error) err where "q = Some (Inl err)" | (Ok) rd where "q = Some (Inr rd)"
    by (cases q; cases "the q") auto
  then show ?case
  proof cases
    case Out
    then show ?thesis using Cons.prems h by (intro one [of _ "[]"]) auto
  next
    case Error
    then show ?thesis using Cons.prems h by (intro one [of "''Unexpected error while serving a request: '' @ err" "loggers c"]) auto
  next
    case Ok
    show ?thesis
    proof (cases "rd_response rd = None \<and> rd_response_status rd = None \<and> rd_request rd \<noteq> None")
      case True
      then obtain req' where r: "rd_response rd = None" "rd_response_status rd = None" "rd_request rd = Some req'" by blast
      obtain n' where n': "request_phase sv c (auth_after rd auth) (socket_after rd socket) hs req' s1 = (p, n', auth', socket', s')" "n = Suc n'"
        using Cons.prems h Ok r by (cases "request_phase sv c (auth_after rd auth) (socket_after rd socket) hs req' s1") auto
      from Cons.IH [OF n'(1)] obtain fs where fs: "n' \<le> length hs" "events s' = events s1 @ fs"
        "p \<noteq> Ran_Out \<longrightarrow> calls fs = map (\<lambda>h. (True, h_name h)) (take n' hs)" "begun fs = mset_names c (take n' hs)"
        "ended fs = {#}" "access_lines fs = []" by blast
      show ?thesis using es fs n'(2) Ok by (auto intro!: exI [of _ "es @ fs"])
    next
      case False
      then show ?thesis using Cons.prems h Ok by (intro one [of _ "[]"]) (auto split: option.splits)
    qed
  qed
qed

text \<open>
  The chains of a request: the handlers that were reached before an error configuration took over, the
  configuration that answers, the handlers of it that were reached, and whether these ran out of time.
\<close>

definition chain_of ::
  "('m, 'l, 'me, 't, 'w) serving \<Rightarrow> ('m, 'l, 'me, 't) config \<Rightarrow> string option \<Rightarrow> SocketData \<Rightarrow> request \<Rightarrow> ('w, 'l) served \<Rightarrow>
     ('m, 'l, 'me, 't, 'w) ModuleHandlers list \<times> ('m, 'l, 'me, 't) config \<times> ('m, 'l, 'me, 't, 'w) ModuleHandlers list \<times> bool" where
  "chain_of sv c auth socket req s =
     (let hs = handlers_of (sv_env sv) c
      in case request_phase sv c auth socket hs req s of
           (p, n, auth', socket', s1) \<Rightarrow>
             (case switch sv c False p of
                None \<Rightarrow> ([], c, take n hs, p = Ran_Out)
              | Some (c', req') \<Rightarrow>
                  (let hs' = handlers_of (sv_env sv) c'
                   in case request_phase sv c' auth' socket' hs' req' (fold (run_after c) (rev (take n hs)) s1) of
                        (p', n', _) \<Rightarrow> (take n hs, c', take n' hs', p' = Ran_Out))))"

text \<open>The last chain: its request handlers, then the same handlers in reverse.\<close>

definition last_chain ::
  "('m, 'l, 'me, 't, 'w) serving \<Rightarrow> ('m, 'l, 'me, 't) config \<Rightarrow> ('m, 'l, 'me, 't, 'w) ModuleHandlers list \<Rightarrow> bool \<Rightarrow>
     string + response \<Rightarrow> 'l event list \<Rightarrow> bool" where
  "last_chain sv c called ran_out r es \<longleftrightarrow>
     (\<exists>es1 es2. es = es1 @ es2 \<and> begun es1 = mset_names c called \<and> ended es1 = {#} \<and> access_lines es1 = [] \<and>
       (if ran_out then isl r \<and> begun es2 = {#} \<and> ended es2 = mset_names c called \<and> access_lines es2 = []
        else calls es1 = map (\<lambda>h. (True, h_name h)) called \<and> (\<exists>j k. answer_shape sv c (rev called) r es2 j k)))"

lemma run_last_chain:
  assumes "run_handlers sv e c auth socket [] hs req s = Some (r, s')"
    and "request_phase sv c auth socket hs req s = (p, n, auth', socket', s1)" "switch sv c e p = None"
  shows "\<exists>es. events s' = events s @ es \<and> last_chain sv c (take n hs) (p = Ran_Out) r es"
proof -
  obtain es where es: "events s1 = events s @ es" "p \<noteq> Ran_Out \<longrightarrow> calls es = map (\<lambda>h. (True, h_name h)) (take n hs)"
    "begun es = mset_names c (take n hs)" "ended es = {#}" "access_lines es = []"
    using request_phase_events [OF assms(2)] by blast
  note run = assms(1) [unfolded run_handlers_phases [of sv e c auth socket "[]" hs] assms(2) prod.case assms(3) option.case append_Nil2]
  show ?thesis
  proof (cases "p = Ran_Out")
    case True
    let ?after = "if metrics_enabled c then map (\<lambda>h. Metric_After (h_name h)) (rev (take n hs)) else []"
    have "events s' = events s @ es @ ?after" "isl r" using run True es(1) by auto
    moreover have "calls ?after = []" "begun ?after = {#}" "ended ?after = mset_names c (take n hs)" "access_lines ?after = []"
      by (simp_all add: mset_names_def)
    ultimately show ?thesis using True es unfolding last_chain_def
      by (intro exI [of _ "es @ ?after"] conjI exI [of _ es] exI [of _ ?after]) simp_all
  next
    case False
    with run have "answer sv c auth' socket' (rev (take n hs)) (phase_response sv c p s1) s1 = Some (r, s')" by simp
    then obtain fs j k where "events s' = events s1 @ fs" "answer_shape sv c (rev (take n hs)) r fs j k"
      using answer_events by blast
    with es False show ?thesis unfolding last_chain_def by (intro exI [of _ "es @ fs"]) auto
  qed
qed

lemma chain_events:
  assumes "run_handlers sv False c auth socket [] (handlers_of (sv_env sv) c) req s = Some (r, s')"
    and "chain_of sv c auth socket req s = (first, c', called, ran_out)"
  shows "\<exists>es1 es2. events s' = events s @ es1 @ es2 \<and> calls es1 = map (\<lambda>h. (True, h_name h)) first \<and>
    begun es1 = mset_names c first \<and> ended es1 = mset_names c first \<and> access_lines es1 = [] \<and> last_chain sv c' called ran_out r es2"
proof -
  let ?hs = "handlers_of (sv_env sv) c"
  obtain p n auth' socket' s1 where p: "request_phase sv c auth socket ?hs req s = (p, n, auth', socket', s1)" by (metis prod.exhaust)
  show ?thesis
  proof (cases "switch sv c False p")
    case None
    then have "first = []" "c' = c" "called = take n ?hs" "ran_out = (p = Ran_Out)"
      using assms(2) by (auto simp: chain_of_def p)
    moreover obtain es where "events s' = events s @ es" "last_chain sv c (take n ?hs) (p = Ran_Out) r es"
      using run_last_chain [OF assms(1) p None] by blast
    ultimately show ?thesis by (intro exI [of _ "[]"] exI [of _ es]) simp
  next
    case (Some x)
    obtain d req' where x: "x = (d, req')" by (cases x)
    let ?s2 = "fold (run_after c) (rev (take n ?hs)) s1" and ?ds = "handlers_of (sv_env sv) d"
    obtain p' n' a so s3 where p': "request_phase sv d auth' socket' ?ds req' ?s2 = (p', n', a, so, s3)" by (metis prod.exhaust)
    have "(take n ?hs, d, take n' ?ds, p' = Ran_Out) = (first, c', called, ran_out)"
      using assms(2) unfolding chain_of_def Let_def p prod.case Some x option.case p' .
    then have eq: "first = take n ?hs" "c' = d" "called = take n' ?ds" "ran_out = (p' = Ran_Out)"
      by (elim Pair_inject; simp)+
    have run: "run_handlers sv True d auth' socket' [] ?ds req' ?s2 = Some (r, s')"
      using assms(1) [unfolded run_handlers_phases [of sv False c auth socket "[]" ?hs] p prod.case Some x option.case] by simp
    have "switch sv d True p' = None" by (simp add: switch_def error_switch_def split: phase.split)
    from run_last_chain [OF run p' this] obtain fs where fs: "events s' = events ?s2 @ fs" "last_chain sv c' called ran_out r fs"
      by (auto simp: eq)
    have "p \<noteq> Ran_Out" using Some by (auto simp: switch_def)
    then obtain es where es: "events s1 = events s @ es" "calls es = map (\<lambda>h. (True, h_name h)) (take n ?hs)"
      "begun es = mset_names c (take n ?hs)" "ended es = {#}" "access_lines es = []"
      using request_phase_events [OF p] by blast
    let ?after = "if metrics_enabled c then map (\<lambda>h. Metric_After (h_name h)) (rev (take n ?hs)) else []"
    have "calls ?after = []" "begun ?after = {#}" "ended ?after = mset_names c (take n ?hs)" "access_lines ?after = []"
      by (simp_all add: mset_names_def)
    with es fs show ?thesis by (intro exI [of _ "es @ ?after"] exI [of _ fs]) (simp add: eq)
  qed
qed

section \<open>The guarantees\<close>

text \<open>
  C7: The response of an answered request passes back through exactly the handlers that its request reached in
  the configuration that answers, in the opposite order; only a response handler that fails ends this
  early, and it is then the last one called. If an error configuration takes over, the handlers reached before
  it see no response.
\<close>

theorem response_passes_back:
  assumes "run_handlers sv False c auth socket [] (handlers_of (sv_env sv) c) req s = Some (Inr response, s')"
    and "chain_of sv c auth socket req s = (first, c', called, ran_out)"
  shows "\<exists>es j. events s' = events s @ es \<and> j \<le> length called \<and>
    calls es = map (\<lambda>h. (True, h_name h)) (first @ called) @ map (\<lambda>h. (False, h_name h)) (take j (rev called)) \<and>
    (j < length called \<longrightarrow> 0 < j \<and> fails (rev called ! (j - 1)))"
proof -
  obtain es1 es2 where es: "events s' = events s @ es1 @ es2" "calls es1 = map (\<lambda>h. (True, h_name h)) first"
    "last_chain sv c' called ran_out (Inr response) es2"
    using chain_events [OF assms] by blast
  obtain fs1 fs2 j k where fs: "es2 = fs1 @ fs2" "calls fs1 = map (\<lambda>h. (True, h_name h)) called"
    "answer_shape sv c' (rev called) (Inr response) fs2 j k"
    using es(3) by (auto simp: last_chain_def split: if_splits)
  then have a: "calls fs2 = map (\<lambda>h. (False, h_name h)) (take j (rev called))" "j = min (Suc k) (length called)"
    "k < length called \<longrightarrow> fails (rev called ! k)" by (simp_all add: answer_shape_def)
  have "j < length called \<longrightarrow> 0 < j \<and> fails (rev called ! (j - 1))" using a(2,3) by auto
  with es(1,2) fs(1,2) a(1,2) show ?thesis by (intro exI [of _ "es1 @ es2"] exI [of _ j]) simp
qed

text \<open>
  C24: Every handler whose metrics begin has them ended, and these are exactly the handlers that the request
  reached, with one exception: a response handler that failed or ran out of time. If a request
  handler ran out of time, nothing is missing.
\<close>

theorem chain_metrics_balance:
  assumes "run_handlers sv False c auth socket [] (handlers_of (sv_env sv) c) req s = Some (r, s')"
    and "chain_of sv c auth socket req s = (first, c', called, ran_out)"
  shows "\<exists>es lost. events s' = events s @ es \<and> begun es = mset_names c first + mset_names c' called \<and> begun es = ended es + mset_names c' lost \<and>
    (lost = [] \<or> \<not> ran_out \<and> (\<exists>k < length called. lost = [rev called ! k] \<and> (isl r \<or> fails (rev called ! k))))"
proof -
  obtain es1 es2 where es: "events s' = events s @ es1 @ es2" "begun es1 = mset_names c first" "ended es1 = mset_names c first"
    "last_chain sv c' called ran_out r es2"
    using chain_events [OF assms] by blast
  obtain fs1 fs2 where fs: "es2 = fs1 @ fs2" "begun fs1 = mset_names c' called" "ended fs1 = {#}"
    "if ran_out then begun fs2 = {#} \<and> ended fs2 = mset_names c' called else \<exists>j k. answer_shape sv c' (rev called) r fs2 j k"
    using es(4) unfolding last_chain_def by (metis (no_types, lifting))
  show ?thesis
  proof (cases ran_out)
    case True
    with es fs show ?thesis by (intro exI [of _ "es1 @ es2"] exI [of _ "[]"]) simp
  next
    case False
    then obtain j k where a: "answer_shape sv c' (rev called) r fs2 j k" using fs(4) by auto
    let ?r = "rev called" and ?lost = "if k < length called then [rev called ! k] else []"
    have f2: "begun fs2 = {#}" "ended fs2 = mset_names c' (take k ?r @ drop (Suc k) ?r)" "k \<le> length called"
      "k < length called \<longrightarrow> isl r \<or> fails (?r ! k)" using a by (auto simp: answer_shape_def split: sum.splits)
    have "mset_names c' ?r = mset_names c' (take k ?r @ drop (Suc k) ?r) + mset_names c' ?lost"
    proof (cases "k < length called")
      case True
      then have "?r = take k ?r @ ?r ! k # drop (Suc k) ?r" by (simp add: id_take_nth_drop)
      then have "mset_names c' ?r = mset_names c' (take k ?r @ ?r ! k # drop (Suc k) ?r)" by (rule arg_cong)
      with True show ?thesis by (simp only: mset_names_simps) simp
    qed (use f2(3) in simp)
    then have "mset_names c' called = ended fs2 + mset_names c' ?lost" using f2(2) by simp
    with es fs False f2 show ?thesis
      by (intro exI [of _ "es1 @ es2"] exI [of _ ?lost]) (auto simp: add.assoc)
  qed
qed

text \<open>
  C26: A request that is answered leaves one line in each access log of the configuration that answered it, and in
  no other log, if the parts of the request were kept for the logs; one that runs out of time leaves none.
\<close>

theorem answered_request_logged_once:
  assumes "run_handlers sv False c auth socket [] (handlers_of (sv_env sv) c) req s = Some (r, s')"
    and "chain_of sv c auth socket req s = (first, c', called, ran_out)"
  shows "\<exists>es line. events s' = events s @ es \<and>
    access_lines es = (if isl r \<or> sv_log_parts sv = None then [] else map (\<lambda>l. (l, line)) (loggers c'))"
proof -
  obtain es1 es2 where es: "events s' = events s @ es1 @ es2" "access_lines es1 = []" "last_chain sv c' called ran_out r es2"
    using chain_events [OF assms] by blast
  have "\<exists>line. access_lines es2 = (if isl r \<or> sv_log_parts sv = None then [] else map (\<lambda>l. (l, line)) (loggers c'))"
    using es(3) by (cases r) (auto simp: last_chain_def answer_shape_def logged_in_def split: if_splits)
  with es(1,2) show ?thesis by (intro exI [of _ "es1 @ es2"]) auto
qed

text \<open>A response handler that fails leaves its own metrics without an end.\<close>

lemma failing_response_handler_not_ended:
  assumes "execute_response_modifying_handlers sv c auth socket (h # hs) response s = Some (m, s')"
    and "\<And>left w. \<exists>err w'. h_response h left response w = (Some (Inl err), w')"
  shows "\<exists>es. events s' = events s @ es \<and> ended es = mset_names c hs"
proof -
  let ?s = "start_spans (sv_env sv) c (h_name h @ ''::response_modifying_handler'') s"
  obtain r s1 where r: "call_response sv h response ?s = (r, s1)" by fastforce
  have "r = None \<or> (\<exists>err. r = Some (Inl err))"
    using r assms(2) by (auto simp: call_response_def split: option.splits prod.splits) (metis prod.inject)+
  moreover obtain b where "events s1 = events ?s @ (if b then [Modify_Response (h_name h)] else [])"
    using call_response_events [OF r] by blast
  ultimately show ?thesis
    using assms(1) r
    by (auto simp: Let_def mset_names_def split: if_splits dest!: finalize_events)
qed

section \<open>An example server\<close>

text \<open>Modules by number: 0 passes a request on, 1 answers it, and every other one answers with the status 404.\<close>

definition example_handlers :: "nat \<Rightarrow> (nat, nat, unit, unit, unit) ModuleHandlers" where
  "example_handlers m = \<lparr>h_name = (if m = 0 then ''pass'' else if m = 1 then ''page'' else ''missing''),
     h_before = \<lambda>req socket w. w,
     h_request = \<lambda>left req c socket w. (Some (Inr (if m = 1 then with_response req \<lparr>resp_status = 200, resp_headers = [], resp_body = ''ok''\<rparr>
        else if m = 0 then pass_on req else with_status req 404)), w),
     h_response = \<lambda>left r w. (Some (Inr r), w),
     h_after = \<lambda>w. w\<rparr>"

definition example_server :: "(nat, nat, unit, unit, unit) server_env" where
  "example_server = \<lparr>ev_externs = no_externs, ev_page = \<lambda>w. example_page_env, ev_handlers = example_handlers, ev_elapsed = \<lambda>w. 0,
     ev_trace_opened = \<lambda>t. True, ev_timestamp = \<lambda>f w. ''now'', ev_size_hint = \<lambda>r. None, ev_authority = \<lambda>u. None,
     ev_set_path = \<lambda>t u. Inr (u\<lparr>uri_path := takeWhile (\<lambda>c. c \<noteq> CHR ''?'') t\<rparr>)\<rparr>"

text \<open>A host with a handler for the error 404 that has a log of its own.\<close>

definition observed_config :: "nat list \<Rightarrow> nat list \<Rightarrow> ErrorHandlerStatus option \<Rightarrow> (nat, nat, unit, unit) config" where
  "observed_config ls ms st = \<lparr>sc_entries = [(''log_format'', [\<lparr>entry_values = [VString ''x''], entry_props = []\<rparr>])],
     sc_filters = \<lparr>is_host = True, hostname = None, ip = None, port = None, condition = None, error_handler_status = st\<rparr>,
     sc_modules = ms, sc_observability = \<lparr>log_channels = ls, metric_channels = [()], trace_channels = []\<rparr>\<rparr>"

definition example_serving :: "(nat, nat, unit, unit, unit) serving" where
  "example_serving = \<lparr>sv_env = example_server,
     sv_configurations = configurations_new [observed_config [1, 2] [2] None, observed_config [3] [0, 1] (Some (Status 404))],
     sv_alt_port = None, sv_timeout = None, sv_headers = \<lparr>headers_to_add = [], headers_to_replace = [], headers_to_remove = []\<rparr>,
     sv_log_parts = Some (req_parts plain_request), sv_error_parts = Some (req_parts plain_request)\<rparr>"

definition example_run :: "nat list \<Rightarrow> ((string + response) \<times> (unit, nat) served) option" where
  "example_run ms = run_handlers example_serving False (observed_config [1, 2] ms None) None (client_socket (V4 1)) []
     (handlers_of example_server (observed_config [1, 2] ms None)) plain_request \<lparr>world = (), events = []\<rparr>"

lemma example_env [simp]: "sv_env example_serving = example_server"
  by (simp add: example_serving_def)

abbreviation example_chain :: "nat list \<Rightarrow>
    (nat, nat, unit, unit, unit) ModuleHandlers list \<times> (nat, nat, unit, unit) config \<times> (nat, nat, unit, unit, unit) ModuleHandlers list \<times> bool" where
  "example_chain ms \<equiv> chain_of example_serving (observed_config [1, 2] ms None) None (client_socket (V4 1)) plain_request \<lparr>world = (), events = []\<rparr>"

lemma example_answered:
  obtains response s' first c' called where "example_run [0, 1] = Some (Inr response, s')"
    "example_chain [0, 1] = (first, c', called, False)"
    "map h_name first = []" "map h_name called = [''pass'', ''page'']" "loggers c' = [1, 2]"
proof -
  obtain first c' called b where c: "example_chain [0, 1] = (first, c', called, b)" by (metis prod.exhaust)
  have "case example_run [0, 1] of Some (Inr _, _) \<Rightarrow> True | _ \<Rightarrow> False" by code_simp
  then obtain response s' where r: "example_run [0, 1] = Some (Inr response, s')"
    by (auto split: option.splits sum.splits)
  have "case example_chain [0, 1] of (first, c', called, b) \<Rightarrow>
      map h_name first = [] \<and> map h_name called = [''pass'', ''page''] \<and> loggers c' = [1, 2] \<and> \<not> b" by code_simp
  then have "map h_name first = [] \<and> map h_name called = [''pass'', ''page''] \<and> loggers c' = [1, 2] \<and> \<not> b"
    unfolding c prod.case .
  then have b: "b = False" "map h_name first = []" "map h_name called = [''pass'', ''page'']" "loggers c' = [1, 2]" by blast+
  with c have "example_chain [0, 1] = (first, c', called, False)" by simp
  from that [OF r this] b show ?thesis by blast
qed

lemma example_never_fails: "h \<in> set (handlers_of example_server c) \<Longrightarrow> \<not> fails h"
  by (auto simp: handlers_of_def example_server_def example_handlers_def fails_def)

lemma chain_of_called: "chain_of sv c auth socket req s = (first, c', called, ran_out) \<Longrightarrow> set called \<subseteq> set (handlers_of (sv_env sv) c')"
  by (auto simp: chain_of_def Let_def split: prod.splits option.splits dest: in_set_takeD)

theorem response_passes_back_witness:
  "\<exists>response s'. example_run [0, 1] = Some (Inr response, s') \<and>
     calls (events s') = [(True, ''pass''), (True, ''page''), (False, ''page''), (False, ''pass'')]"
proof (rule example_answered)
  fix response s' first c' called
  assume r: "example_run [0, 1] = Some (Inr response, s')" "example_chain [0, 1] = (first, c', called, False)"
    and n: "map h_name first = []" "map h_name called = [''pass'', ''page'']"
  obtain j where j: "calls (events s') = map (\<lambda>h. (True, h_name h)) (first @ called) @ map (\<lambda>h. (False, h_name h)) (take j (rev called))"
      "j < length called \<longrightarrow> 0 < j \<and> fails (rev called ! (j - 1))" "j \<le> length called"
    using response_passes_back [OF r(1) [unfolded example_run_def, folded example_env] r(2)] by auto
  have "set called \<subseteq> set (handlers_of example_server c')" using chain_of_called [OF r(2)] by simp
  moreover have "rev called ! (j - 1) \<in> set called" if "j < length called" using that by (metis less_imp_diff_less length_rev nth_mem set_rev)
  ultimately have "j = length called" using j(2,3) example_never_fails by (meson le_neq_implies_less subsetD)
  have m: "map (\<lambda>h. (b, h_name h)) xs = map (Pair b) (map h_name xs)" for b and xs :: "(nat, nat, unit, unit, unit) ModuleHandlers list" by simp
  have "calls (events s') = map (Pair True) (map h_name first @ map h_name called) @ map (Pair False) (rev (map h_name called))"
    unfolding j(1) \<open>j = length called\<close> by (simp add: rev_map)
  with r(1) n show ?thesis by simp
qed

theorem chain_metrics_balance_witness:
  "\<exists>response s'. example_run [0, 1] = Some (Inr response, s') \<and> begun (events s') = ended (events s')"
proof (rule example_answered)
  fix response s' first c' called
  assume r: "example_run [0, 1] = Some (Inr response, s')" "example_chain [0, 1] = (first, c', called, False)"
  from chain_metrics_balance [OF r(1) [unfolded example_run_def, folded example_env] r(2)]
  obtain es lost where l: "events s' = [] @ es" "begun es = ended es + mset_names c' lost"
      "lost = [] \<or> (\<exists>k < length called. lost = [rev called ! k] \<and> (isl (Inr response :: string + response) \<or> fails (rev called ! k)))"
    by auto
  have "set called \<subseteq> set (handlers_of example_server c')" using chain_of_called [OF r(2)] by simp
  moreover have "rev called ! k \<in> set called" if "k < length called" for k using that by (metis length_rev nth_mem set_rev)
  ultimately have "\<not> fails (rev called ! k)" if "k < length called" for k using that example_never_fails by blast
  then have "lost = []" using l(3) by auto
  with r(1) l(1,2) show ?thesis by auto
qed

theorem answered_request_logged_once_witness:
  "\<exists>response s' line. example_run [0, 1] = Some (Inr response, s') \<and> access_lines (events s') = [(1, line), (2, line)]"
proof (rule example_answered)
  fix response s' first c' called
  assume r: "example_run [0, 1] = Some (Inr response, s')" "example_chain [0, 1] = (first, c', called, False)" "loggers c' = [1, 2]"
  have "sv_log_parts example_serving \<noteq> None" by (simp add: example_serving_def)
  with answered_request_logged_once [OF r(1) [unfolded example_run_def, folded example_env] r(2)] r(1,3) show ?thesis by auto
qed

end
