(* ===== verification/Server_Safety.thy ===== *)
theory Server_Safety
  imports Static_Safety Static_Request Request_Chain Blocklist_Module Limit_Module Rewrite_Module
begin

text \<open>
  The request handler together with the URL sanitizer and the static file module: two servers whose
  handlers agree on sanitized requests give the same answers, so that the confinement of the static
  file module to its root carries over to the whole server.
\<close>

section \<open>The path that reaches the handlers\<close>

text \<open>The sanitizer adds no character that ends the path of a URL.\<close>

definition ends_path :: "char \<Rightarrow> bool" where
  "ends_path c \<longleftrightarrow> c = CHR ''?'' \<or> c = CHR ''#''"

definition pure_path :: "string \<Rightarrow> bool" where
  "pure_path s \<longleftrightarrow> (\<forall>c \<in> set s. \<not> ends_path c)"


lemma pure_path_simps [simp]:
  "pure_path []" "pure_path (c # s) \<longleftrightarrow> \<not> ends_path c \<and> pure_path s" "pure_path (s @ t) \<longleftrightarrow> pure_path s \<and> pure_path t"
  by (auto simp: pure_path_def)







text \<open>A request whose path may reach a handler.\<close>

definition req_path :: "request \<Rightarrow> string" where
  "req_path req = uri_path (rp_uri (req_parts req))"

definition good_path :: "string \<Rightarrow> bool" where
  "good_path p \<longleftrightarrow> p = [] \<or> safe_path p"


section \<open>Handlers that agree\<close>

text \<open>The same server with other handlers.\<close>

definition with_handlers ::
  "('m \<Rightarrow> ('m, 'l, 'me, 't, 'w) ModuleHandlers) \<Rightarrow> ('m, 'l, 'me, 't, 'w) serving \<Rightarrow> ('m, 'l, 'me, 't, 'w) serving" where
  "with_handlers G sv = sv\<lparr>sv_env := (sv_env sv)\<lparr>ev_handlers := G\<rparr>\<rparr>"

lemma with_handlers_fields [simp]:
  "sv_env (with_handlers G sv) = (sv_env sv)\<lparr>ev_handlers := G\<rparr>" "sv_configurations (with_handlers G sv) = sv_configurations sv"
  "sv_alt_port (with_handlers G sv) = sv_alt_port sv" "sv_timeout (with_handlers G sv) = sv_timeout sv"
  "sv_headers (with_handlers G sv) = sv_headers sv" "sv_log_parts (with_handlers G sv) = sv_log_parts sv"
  "sv_error_parts (with_handlers G sv) = sv_error_parts sv"
  by (simp_all add: with_handlers_def)

lemma with_handlers_updates [simp]:
  "(with_handlers G sv)\<lparr>sv_headers := ch\<rparr> = with_handlers G (sv\<lparr>sv_headers := ch\<rparr>)"
  "(with_handlers G sv)\<lparr>sv_error_parts := ep\<rparr> = with_handlers G (sv\<lparr>sv_error_parts := ep\<rparr>)"
  by (simp_all add: with_handlers_def)

lemma log_access_handlers [simp]: "log_access (ev\<lparr>ev_handlers := G\<rparr>) = log_access ev"
  by (simp add: log_access_def fun_eq_iff)

lemma spans_handlers [simp]:
  "start_spans (ev\<lparr>ev_handlers := G\<rparr>) = start_spans ev" "end_spans (ev\<lparr>ev_handlers := G\<rparr>) = end_spans ev"
  by (simp_all add: start_spans_def end_spans_def trace_senders_def fun_eq_iff)

lemma operations_handlers [simp]:
  "finalize_response_and_log (with_handlers G sv) = finalize_response_and_log sv"
  "error_page (with_handlers G sv) = error_page sv" "error_switch (with_handlers G sv) = error_switch sv"
  "call_response (with_handlers G sv) = call_response sv" "call_request (with_handlers G sv) = call_request sv"
  unfolding finalize_response_and_log_def error_page_def error_switch_def call_response_def call_request_def fun_eq_iff
    with_handlers_fields log_access_handlers by simp_all

lemma answers_handlers [simp]:
  "finish (with_handlers G sv) = finish sv" "star_response (with_handlers G sv) = star_response sv"
  unfolding finish_def star_response_def fun_eq_iff operations_handlers by simp_all

lemma reject_handlers [simp]: "reject (with_handlers G sv) = reject sv"
  unfolding reject_def fun_eq_iff with_handlers_fields with_handlers_updates answers_handlers by simp







section \<open>A server with the static file module\<close>




text \<open>A module that passes on sanitized requests only, given one.\<close>

definition keeps_paths :: "('m, 'l, 'me, 't, 'r) ModuleHandlers \<Rightarrow> bool" where
  "keeps_paths h \<longleftrightarrow> (\<forall>left req c socket w rd req'. good_path (req_path req) \<longrightarrow>
     fst (h_request h left req c socket w) = Some (Inr rd) \<longrightarrow> rd_request rd = Some req' \<longrightarrow> good_path (req_path req'))"


definition limit_handlers :: "'tb token_lib \<Rightarrow> ('r \<Rightarrow> nat) \<Rightarrow> ('m, 'l, 'me, 't, 'tb LimitModule \<times> 'r) ModuleHandlers" where
  "limit_handlers lib clock =
     \<lparr>h_name = ''LimitModuleHandlers'', h_before = \<lambda>req socket w. w,
      h_request = \<lambda>left req c socket w. (let (r, m) = limit_request_handler lib (clock (snd w)) (fst w) req socket in (Some (Inr r), m, snd w)),
      h_response = \<lambda>left r w. (Some (Inr r), w), h_after = \<lambda>w. w\<rparr>"


lemma limit_keeps_paths: "keeps_paths (limit_handlers lib clock)"
  by (auto simp: keeps_paths_def limit_handlers_def limit_request_handler_def Let_def
      split: prod.splits if_splits)

text \<open>
  The module that rewrites URLs does not: what it writes is not sanitized again. The rule of the example takes
  the first \<open>.html\<close> out of the path, and so turns a sanitized path into one that leaves the root.
\<close>

fun without_first :: "string \<Rightarrow> string \<Rightarrow> string" where
  "without_first x [] = []"
| "without_first x (c # s) = (if starts_with x (c # s) then drop (length x) (c # s) else c # without_first x s)"

definition extension_env :: "string rewrite_env" where
  "extension_env = example_rewrite_env\<lparr>rx_replace := \<lambda>rx s r. without_first rx s\<rparr>"

lemma rewritten_url_not_sanitized:
  "sanitize_url ''/...html/etc'' False = Inr ''/...html/etc''"
  "(case fst (rewrite_request_handler extension_env 0 [example_rule ''.html'' [] False] metadata_cache_new
      (tracked_request ''/...html/etc'' None) (root_config None ''/srv'')) of
     Inr rd \<Rightarrow> map_option req_path (rd_request rd) | Inl _ \<Rightarrow> None) = Some ''/../etc''"
  by code_simp+






section \<open>An example site\<close>








end
