(* ===== verification/Cache_Module.thy ===== *)
theory Cache_Module
  imports Module_Api Responses "HOL-Library.List_Lexorder" "HOL-Library.Char_ord"
begin

text \<open>
  The HTTP cache module, \<open>ferron-modules-builtin/src/optional/cache.rs\<close>. The caches of the crate
  \<open>quick_cache\<close> and the parser of \<open>Cache-Control\<close> are parameters (\<open>cache_env\<close>): a lookup may change the
  cache (what it evicts later) and an insertion may evict entries. Times and durations are milliseconds.
  A body is the list of its frames.
\<close>

section \<open>Cache control and decisions\<close>

datatype Cachability = Public | Private | NoCache | OnlyIfCached

record CacheControl =
  cachability :: "Cachability option"
  max_age :: "nat option"
  s_max_age :: "nat option"
  no_store :: bool

definition DEFAULT_MAX_CACHE_RESPONSE_SIZE :: u64 where "DEFAULT_MAX_CACHE_RESPONSE_SIZE = 2097152"
definition DEFAULT_MAX_CACHE_ENTRIES :: u64 where "DEFAULT_MAX_CACHE_ENTRIES = 1024"
definition DEFAULT_MAX_AGE :: nat where "DEFAULT_MAX_AGE = 300 * 1000"
definition CACHE_HEADER_NAME :: string where "CACHE_HEADER_NAME = ''X-Ferron-Cache''"

record CacheEntry =
  ce_status :: nat
  ce_headers :: header_map
  ce_body :: string
  ce_timestamp :: nat
  ce_control :: "CacheControl option"

record ('q, 'v) cache_env =
  q_get :: "string \<Rightarrow> 'q \<Rightarrow> CacheEntry option \<times> 'q"
  q_insert :: "string \<Rightarrow> CacheEntry \<Rightarrow> 'q \<Rightarrow> 'q \<times> nat"
  q_retain :: "(CacheEntry \<Rightarrow> bool) \<Rightarrow> 'q \<Rightarrow> 'q \<times> nat"
  q_len :: "'q \<Rightarrow> nat"
  v_get :: "string \<Rightarrow> 'v \<Rightarrow> string list option \<times> 'v"
  v_insert :: "string \<Rightarrow> string list \<Rightarrow> 'v \<Rightarrow> 'v"
  cc_from_value :: "string \<Rightarrow> CacheControl option"

record CacheDecision =
  decision_flags :: "8 word"

definition NO_STORE :: "8 word" where "NO_STORE = 1"
definition NO_CACHE :: "8 word" where "NO_CACHE = 2"
definition CACHEABLE_METHOD :: "8 word" where "CACHEABLE_METHOD = 4"


definition set_flag :: "8 word \<Rightarrow> CacheDecision \<Rightarrow> CacheDecision" where
  "set_flag f d = d\<lparr>decision_flags := decision_flags d OR f\<rparr>"

definition has_flag :: "8 word \<Rightarrow> CacheDecision \<Rightarrow> bool" where
  "has_flag f d \<longleftrightarrow> (decision_flags d AND f) \<noteq> 0"


definition decision_new :: CacheDecision where
  "decision_new = \<lparr>decision_flags = 0\<rparr>"

definition decision_from_request :: "(string \<Rightarrow> CacheControl option) \<Rightarrow> request_parts \<Rightarrow> CacheDecision" where
  "decision_from_request from_value parts =
     (let d = (if rp_method parts \<in> {''GET'', ''HEAD''} then set_flag CACHEABLE_METHOD decision_new else set_flag NO_STORE decision_new)
      in if has_flag NO_STORE d then d
         else if header_contains ''upgrade'' (rp_headers parts) then set_flag NO_STORE d
         else case Option.bind (Option.bind (header_get ''cache-control'' (rp_headers parts)) header_to_str) from_value of
           None \<Rightarrow> d
         | Some cc \<Rightarrow>
             (let d1 = (if no_store cc then set_flag NO_STORE d else d)
              in if cachability cc = Some NoCache then set_flag NO_CACHE d1 else d1))"

section \<open>Keys\<close>

definition extract_uri_parts :: "request_parts \<Rightarrow> string \<times> string \<times> string option" where
  "extract_uri_parts parts =
     ((case Option.bind (header_get ''host'' (rp_headers parts)) header_to_str of Some h \<Rightarrow> h | None \<Rightarrow> []),
      uri_path (rp_uri parts), uri_query (rp_uri parts))"

definition build_cache_key :: "string \<Rightarrow> bool \<Rightarrow> string \<Rightarrow> string \<Rightarrow> string option \<Rightarrow> string" where
  "build_cache_key method enc host path query =
     method @ '' '' @ (if enc then ''https://'' else ''http://'') @ host @ path @
     (case query of Some q \<Rightarrow> CHR ''?'' # q | None \<Rightarrow> [])"

definition header_text :: "string \<Rightarrow> header_map \<Rightarrow> string" where
  "header_text name hs =
     (case header_get name hs of
        None \<Rightarrow> []
      | Some v \<Rightarrow> (case header_to_str v of Some s \<Rightarrow> s | None \<Rightarrow> from_utf8_lossy v))"

definition vary_line :: "header_map \<Rightarrow> string \<Rightarrow> string" where
  "vary_line hs name = name @ '': '' @ header_text name hs"

definition build_vary_key :: "string \<Rightarrow> string list \<Rightarrow> header_map \<Rightarrow> string" where
  "build_vary_key base_key vary_headers request_headers =
     base_key @ [CHR 0x0A] @ join_with [CHR 0x0A] (map (vary_line request_headers) vary_headers)"

section \<open>Bodies\<close>

datatype body_frame = Data string | Trailers | Broken string

record framed =
  fr_status :: nat
  fr_headers :: header_map
  fr_frames :: "body_frame list"

text \<open>
  \<open>collect_body\<close> with the bytes already in the buffer: an error, or whether all was collected, the buffer and
  the frames that are left.
\<close>

fun collect_body :: "u64 option \<Rightarrow> body_frame list \<Rightarrow> string \<Rightarrow> string + bool \<times> string \<times> body_frame list" where
  "collect_body limit [] buffer = Inr (True, buffer, [])"
| "collect_body limit (Broken e # frames) buffer = Inl e"
| "collect_body limit (Trailers # frames) buffer = collect_body limit frames buffer"
| "collect_body limit (Data bytes # frames) buffer =
     (if (case limit of Some m \<Rightarrow> length buffer + length bytes > unat m | None \<Rightarrow> False) then Inr (False, buffer, frames)
      else collect_body limit frames (buffer @ bytes))"

section \<open>The module\<close>

record ('q, 'v) CacheModule =
  cm_cache :: 'q
  cm_vary_cache :: 'v
  track_evictions :: nat

record CacheModuleHandlers =
  vary_configured :: "string list"
  ignore_configured :: "string list"
  maximum_cached_response_size :: "u64 option"
  cache_key :: "string option"
  ch_request_headers :: header_map
  has_authorization :: bool
  cached :: bool
  ch_no_store :: bool
  metric_cache_hit :: "bool option"
  metric_cache_evictions_expired :: "nat option"

definition cache_handlers_new :: CacheModuleHandlers where
  "cache_handlers_new = \<lparr>vary_configured = [], ignore_configured = [], maximum_cached_response_size = None, cache_key = None,
     ch_request_headers = [], has_authorization = False, cached = False, ch_no_store = False, metric_cache_hit = None,
     metric_cache_evictions_expired = None\<rparr>"

definition maximum_cache_entries :: "('m, 'o) ServerConfiguration option \<Rightarrow> u64 option" where
  "maximum_cache_entries global_config =
     (case Option.bind (Option.bind global_config (get_entry_m ''cache_max_entries''))
         (\<lambda>e. case entry_values e of [] \<Rightarrow> None | v # _ \<Rightarrow> Some v) of
        None \<Rightarrow> Some DEFAULT_MAX_CACHE_ENTRIES
      | Some v \<Rightarrow> if is_null v then None
                  else Some (case as_i128 v of Some n \<Rightarrow> word_of_int n | None \<Rightarrow> DEFAULT_MAX_CACHE_ENTRIES))"

text \<open>The capacity of both caches: one more than configured, or unlimited.\<close>

definition cache_capacity :: "u64 option \<Rightarrow> u64" where
  "cache_capacity entries = (case entries of None \<Rightarrow> - 1 | Some v \<Rightarrow> if v = - 1 then - 1 else v + 1)"

definition cache_init :: "(u64 \<Rightarrow> 'q) \<Rightarrow> (u64 \<Rightarrow> 'v) \<Rightarrow> ('m, 'o) ServerConfiguration option \<Rightarrow> ('q, 'v) CacheModule" where
  "cache_init q_new v_new global_config =
     (let n = cache_capacity (maximum_cache_entries global_config)
      in \<lparr>cm_cache = q_new n, cm_vary_cache = v_new n, track_evictions = 0\<rparr>)"

definition cache_loader_new :: "'h ModuleCache" where
  "cache_loader_new = module_cache_new []"

definition cache_load_module ::
  "(u64 \<Rightarrow> 'q) \<Rightarrow> (u64 \<Rightarrow> 'v) \<Rightarrow> ('m, 'o) ServerConfiguration option \<Rightarrow> ('m, 'o) ServerConfiguration \<Rightarrow> ('q, 'v) CacheModule ModuleCache \<Rightarrow>
     (string + ('q, 'v) CacheModule) \<times> ('q, 'v) CacheModule ModuleCache" where
  "cache_load_module q_new v_new global_config config c =
     cache_get_or_init (\<lambda>_. Inr (cache_init q_new v_new global_config)) config c"

definition cache_requirements :: "string list" where
  "cache_requirements = [''cache'']"

definition cache_rules :: "(string \<times> entry_check) list" where
  "cache_rules =
     [one_value ''cache'' is_bool ''Invalid cache enabling option'',
      one_value ''cache_max_entries'' (or_null (int_in (\<lambda>n. 0 \<le> n))) ''Invalid maximum cache entries configuration'',
      one_value ''cache_max_response_size'' (or_null (int_in (\<lambda>n. 0 \<le> n))) ''Invalid maximum cache response size configuration'',
      every_value ''cache_vary'' is_string ''Invalid varying request headers configuration'',
      every_value ''cache_ignore'' is_string ''Invalid ignored cache response headers configuration'']"

definition cache_validate_configuration ::
  "('m, 'o) ServerConfiguration \<Rightarrow> string set \<Rightarrow> (string + unit) \<times> string set" where
  "cache_validate_configuration = validate_rules cache_rules"

definition extract_cache_config :: "('m, 'o) ServerConfiguration \<Rightarrow> CacheModuleHandlers \<Rightarrow> CacheModuleHandlers" where
  "extract_cache_config config h = h\<lparr>
     vary_configured := List.map_filter as_str (get_values_m ''cache_vary'' config),
     ignore_configured := List.map_filter as_str (get_values_m ''cache_ignore'' config),
     maximum_cached_response_size := Option.bind (get_value_m ''cache_max_response_size'' config)
       (\<lambda>v. if is_null v then None
            else Some (case as_i128 v of Some n \<Rightarrow> word_of_int n | None \<Rightarrow> DEFAULT_MAX_CACHE_RESPONSE_SIZE))\<rparr>"

definition lifetime :: "CacheControl option \<Rightarrow> nat" where
  "lifetime cc =
     (case Option.bind cc (\<lambda>cc. case s_max_age cc of Some a \<Rightarrow> Some a | None \<Rightarrow> max_age cc) of
        Some a \<Rightarrow> a | None \<Rightarrow> DEFAULT_MAX_AGE)"

definition fresh_at :: "nat \<Rightarrow> CacheEntry \<Rightarrow> bool" where
  "fresh_at now e \<longleftrightarrow> now - ce_timestamp e \<le> lifetime (ce_control e)"

definition cleanup_expired_entries :: "('q, 'v) cache_env \<Rightarrow> nat \<Rightarrow> 'q \<Rightarrow> 'q \<times> nat" where
  "cleanup_expired_entries env now q = q_retain env (fresh_at now) q"

definition should_cache_response :: "CacheControl option \<Rightarrow> bool \<Rightarrow> bool" where
  "should_cache_response cc authorization =
     (case cc of
        None \<Rightarrow> False
      | Some c \<Rightarrow>
          if no_store c then False
          else case cachability c of
            Some Private \<Rightarrow> False
          | Some Public \<Rightarrow> True
          | _ \<Rightarrow> \<not> authorization \<and> (max_age c \<noteq> None \<or> s_max_age c \<noteq> None))"

subsection \<open>Requests\<close>

text \<open>The lookup: an entry that is fresh, or none.\<close>

definition look_up ::
  "('q, 'v) cache_env \<Rightarrow> nat \<Rightarrow> string \<Rightarrow> header_map \<Rightarrow> ('q, 'v) CacheModule \<Rightarrow> CacheEntry option \<times> ('q, 'v) CacheModule" where
  "look_up env now key hs m =
     (let (vary, v) = v_get env key (cm_vary_cache m); m1 = m\<lparr>cm_vary_cache := v\<rparr>
      in case vary of
           None \<Rightarrow> (None, m1)
         | Some processed_vary \<Rightarrow>
             (let (e, q) = q_get env (build_vary_key key processed_vary hs) (cm_cache m1); m2 = m1\<lparr>cm_cache := q\<rparr>
              in case e of
                   None \<Rightarrow> (None, m2)
                 | Some entry \<Rightarrow> (if fresh_at now entry then Some entry else None, m2)))"

definition request_key :: "request_parts \<Rightarrow> bool \<Rightarrow> string" where
  "request_key parts enc =
     (let (host, path, query) = extract_uri_parts parts in build_cache_key (rp_method parts) enc host path query)"

definition cache_request_handler ::
  "('q, 'v) cache_env \<Rightarrow> nat \<Rightarrow> CacheModuleHandlers \<Rightarrow> request \<Rightarrow> ('m, 'o) ServerConfiguration \<Rightarrow> bool \<Rightarrow> ('q, 'v) CacheModule \<Rightarrow>
     ResponseData \<times> CacheModuleHandlers \<times> ('q, 'v) CacheModule" where
  "cache_request_handler env now h0 req config enc m =
     (let parts = req_parts req; h = extract_cache_config config h0; decision = decision_from_request (cc_from_value env) parts
      in if has_flag NO_STORE decision then (pass_on req, h\<lparr>ch_no_store := True\<rparr>, m)
         else let key = request_key parts enc;
                  (hit, m') = (if has_flag NO_CACHE decision then (None, m) else look_up env now key (rp_headers parts) m)
           in case hit of
                Some e \<Rightarrow> (with_response req \<lparr>resp_status = ce_status e, resp_headers = ce_headers e, resp_body = ce_body e\<rparr>,
                    h\<lparr>cached := True\<rparr>, m')
              | None \<Rightarrow> (pass_on req, h\<lparr>ch_request_headers := rp_headers parts, cache_key := Some key,
                    has_authorization := header_contains ''authorization'' (rp_headers parts)\<rparr>, m'))"

subsection \<open>Responses\<close>

definition mark :: "string \<Rightarrow> framed \<Rightarrow> framed" where
  "mark v r = r\<lparr>fr_headers := header_insert CACHE_HEADER_NAME v (fr_headers r)\<rparr>"

definition response_control :: "(string \<Rightarrow> CacheControl option) \<Rightarrow> header_map \<Rightarrow> CacheControl option" where
  "response_control from_value hs = Option.bind (Option.bind (header_get ''cache-control'' hs) header_to_str) from_value"

definition process_vary :: "string list \<Rightarrow> header_map \<Rightarrow> string list" where
  "process_vary configured hs =
     remdups_adj (sort (configured @
       concat (map (\<lambda>v. map trim (split_on CHR '','' v)) (List.map_filter header_to_str (header_get_all ''vary'' hs)))))"

definition store_response ::
  "('q, 'v) cache_env \<Rightarrow> nat \<Rightarrow> string \<Rightarrow> CacheModuleHandlers \<Rightarrow> framed \<Rightarrow> string \<Rightarrow> ('q, 'v) CacheModule \<Rightarrow>
     CacheModuleHandlers \<times> ('q, 'v) CacheModule" where
  "store_response env now key h r body m =
     (let processed_vary = process_vary (vary_configured h) (fr_headers r)
      in if ''*'' \<in> set processed_vary then (h, m)
         else let v = v_insert env key processed_vary (cm_vary_cache m);
                  written_headers = foldl (\<lambda>hs n. header_remove n hs) (fr_headers r) (ignore_configured h);
                  (q1, expired) = cleanup_expired_entries env now (cm_cache m);
                  h' = h\<lparr>metric_cache_evictions_expired := map_option (\<lambda>n. n + expired) (metric_cache_evictions_expired h)\<rparr>;
                  (q2, evicted) = q_insert env (build_vary_key key processed_vary (ch_request_headers h))
                    \<lparr>ce_status = fr_status r, ce_headers = written_headers, ce_body = body, ce_timestamp = now,
                     ce_control = response_control (cc_from_value env) (fr_headers r)\<rparr> q1
           in (h', m\<lparr>cm_cache := q2, cm_vary_cache := v,
                  track_evictions := (if metric_cache_evictions_expired h' = None then 0 else track_evictions m + evicted)\<rparr>))"

definition cache_response_handler ::
  "('q, 'v) cache_env \<Rightarrow> nat \<Rightarrow> CacheModuleHandlers \<Rightarrow> framed \<Rightarrow> ('q, 'v) CacheModule \<Rightarrow>
     (string + framed) \<times> CacheModuleHandlers \<times> ('q, 'v) CacheModule" where
  "cache_response_handler env now h0 r m =
     (if ch_no_store h0 then (Inr (mark ''BYPASS'' r), h0, m)
      else if cached h0 then (Inr (mark ''HIT'' r), h0\<lparr>metric_cache_hit := Some True\<rparr>, m)
      else let h = h0\<lparr>metric_cache_hit := Some False\<rparr>
        in case cache_key h of
             None \<Rightarrow> (Inr r, h, m)
           | Some key \<Rightarrow>
               if should_cache_response (response_control (cc_from_value env) (fr_headers r)) (has_authorization h)
               then (case collect_body (maximum_cached_response_size h) (fr_frames r) [] of
                   Inl e \<Rightarrow> (Inl e, h, m)
                 | Inr (collected, buffer, rest) \<Rightarrow>
                     if \<not> collected
                     then (Inr (mark ''MISS'' (r\<lparr>fr_frames := Data buffer # filter (\<lambda>f. f \<noteq> Trailers) rest\<rparr>)), h, m)
                     else let (h', m') = store_response env now key h r buffer m
                       in (Inr (mark ''MISS'' (r\<lparr>fr_frames := [Data buffer]\<rparr>)), h', m'))
               else (Inr (mark ''MISS'' r), h, m))"

subsection \<open>Metrics\<close>

definition cache_metric_before :: "CacheModuleHandlers \<Rightarrow> CacheModuleHandlers" where
  "cache_metric_before h = h\<lparr>metric_cache_evictions_expired := Some 0\<rparr>"

text \<open>Name, attribute and value of each metric sent.\<close>

definition cache_metric_after ::
  "('q, 'v) cache_env \<Rightarrow> CacheModuleHandlers \<Rightarrow> ('q, 'v) CacheModule \<Rightarrow>
     (string \<times> string \<times> nat) list \<times> CacheModuleHandlers \<times> ('q, 'v) CacheModule" where
  "cache_metric_after env h m =
     (let expired = (case metric_cache_evictions_expired h of Some n \<Rightarrow> n | None \<Rightarrow> 0); size = track_evictions m
      in ((case metric_cache_hit h of Some hit \<Rightarrow> [(''ferron.cache.lookups'', if hit then ''hit'' else ''miss'', 1)] | None \<Rightarrow> []) @
          [(''ferron.cache.items'', [], q_len env (cm_cache m))] @
          (if size > 0 then [(''ferron.cache.evictions'', ''size'', size)] else []) @
          (if expired > 0 then [(''ferron.cache.evictions'', ''expired'', expired)] else []),
        h\<lparr>metric_cache_hit := None\<rparr>, m\<lparr>track_evictions := 0\<rparr>))"

section \<open>What the decisions mean\<close>

lemma flags_of_decision:
  "has_flag NO_STORE (decision_from_request fv p) \<longleftrightarrow> rp_method p \<notin> {''GET'', ''HEAD''} \<or> header_contains ''upgrade'' (rp_headers p) \<or>
     (\<exists>cc. response_control fv (rp_headers p) = Some cc \<and> no_store cc)"
  "rp_method p \<in> {''GET'', ''HEAD''} \<Longrightarrow> \<not> header_contains ''upgrade'' (rp_headers p) \<Longrightarrow>
     has_flag NO_CACHE (decision_from_request fv p) \<longleftrightarrow> (\<exists>cc. response_control fv (rp_headers p) = Some cc \<and> cachability cc = Some NoCache)"
  by (auto simp: decision_from_request_def response_control_def has_flag_def set_flag_def decision_new_def NO_STORE_def NO_CACHE_def
      CACHEABLE_METHOD_def Let_def split: option.split)

section \<open>What the body keeps\<close>

fun data_of :: "body_frame list \<Rightarrow> string" where
  "data_of [] = []"
| "data_of (Data b # fs) = b @ data_of fs"
| "data_of (_ # fs) = data_of fs"

fun intact :: "body_frame \<Rightarrow> bool" where
  "intact (Broken e) \<longleftrightarrow> False"
| "intact _ \<longleftrightarrow> True"

definition too_long :: "u64 option \<Rightarrow> nat \<Rightarrow> bool" where
  "too_long limit n \<longleftrightarrow> (case limit of Some m \<Rightarrow> n > unat m | None \<Rightarrow> False)"

lemma data_of_append [simp]: "data_of (fs @ gs) = data_of fs @ data_of gs"
  by (induction fs rule: data_of.induct) auto

lemma data_of_no_trailers [simp]: "data_of (filter (\<lambda>f. f \<noteq> Trailers) fs) = data_of fs"
  by (induction fs rule: data_of.induct) auto

lemma collect_body_all:
  "collect_body limit fs buf = Inr (True, b, rest) \<Longrightarrow> rest = [] \<and> b = buf @ data_of fs"
  by (induction limit fs buf rule: collect_body.induct) (auto split: option.splits if_splits)

lemma collect_body_short:
  "list_all intact fs \<Longrightarrow> \<not> too_long limit (length buf + length (data_of fs)) \<Longrightarrow> collect_body limit fs buf = Inr (True, buf @ data_of fs, [])"
  by (induction limit fs buf rule: collect_body.induct) (auto simp: too_long_def split: option.splits)

lemma collect_body_cut:
  "collect_body limit fs buf = Inr (False, b, rest) \<Longrightarrow>
     \<exists>pre bytes. fs = pre @ Data bytes # rest \<and> b = buf @ data_of pre \<and> too_long limit (length b + length bytes)"
proof (induction limit fs buf rule: collect_body.induct)
  case (3 limit fs buf)
  then obtain pre bytes where "fs = pre @ Data bytes # rest" "b = buf @ data_of pre" "too_long limit (length b + length bytes)" by auto
  then show ?case by (intro exI [of _ "Trailers # pre"] exI [of _ bytes]) simp
next
  case (4 limit bytes fs buf)
  show ?case
  proof (cases "too_long limit (length buf + length bytes)")
    case True
    with 4(2) show ?thesis
      by (intro exI [of _ "[]"] exI [of _ bytes]) (auto simp: too_long_def split: option.splits)
  next
    case False
    with 4 obtain pre more where "fs = pre @ Data more # rest" "b = (buf @ bytes) @ data_of pre" "too_long limit (length b + length more)"
      by (auto simp: too_long_def split: option.splits)
    then show ?thesis by (intro exI [of _ "Data bytes # pre"] exI [of _ more]) simp
  qed
qed simp_all

lemma collect_body_error: "list_all intact fs \<Longrightarrow> collect_body limit fs buf \<noteq> Inl e"
  by (induction limit fs buf rule: collect_body.induct) (auto split: option.splits)

lemma collect_body_bounded:
  "collect_body limit fs buf = Inr (collected, b, rest) \<Longrightarrow> \<not> too_long limit (length buf) \<Longrightarrow> \<not> too_long limit (length b)"
proof (induction limit fs buf rule: collect_body.induct)
  case (4 limit bytes fs buf)
  then show ?case
    by (cases "too_long limit (length buf + length bytes)") (auto simp: too_long_def split: option.splits)
qed simp_all

text \<open>Whether the body of a response is collected for the cache.\<close>

definition collects :: "('q, 'v) cache_env \<Rightarrow> CacheModuleHandlers \<Rightarrow> framed \<Rightarrow> bool" where
  "collects env h r \<longleftrightarrow> \<not> ch_no_store h \<and> \<not> cached h \<and> cache_key h \<noteq> None \<and>
     should_cache_response (response_control (cc_from_value env) (fr_headers r)) (has_authorization h)"

lemma response_not_collected:
  assumes "cache_response_handler env now h r m = (Inr r', h', m')" "\<not> collects env h r"
  shows "r' = r \<or> (\<exists>v. r' = mark v r)"
  using assms by (auto simp: cache_response_handler_def collects_def Let_def split: if_splits option.splits)

lemma response_collected:
  assumes "cache_response_handler env now h r m = (Inr r', h', m')" "collects env h r"
  shows "\<exists>collected b rest. collect_body (maximum_cached_response_size h) (fr_frames r) [] = Inr (collected, b, rest) \<and>
    r' = mark ''MISS'' (r\<lparr>fr_frames := Data b # (if collected then [] else filter (\<lambda>f. f \<noteq> Trailers) rest)\<rparr>)"
proof (cases "collect_body (maximum_cached_response_size h) (fr_frames r) []")
  case (Inl e)
  then show ?thesis using assms by (auto simp: cache_response_handler_def collects_def)
next
  case (Inr x)
  obtain collected b rest where x: "x = (collected, b, rest)" by (metis prod.exhaust)
  with Inr assms show ?thesis
    by (intro exI [of _ collected] exI [of _ b] exI [of _ rest])
      (auto simp: cache_response_handler_def collects_def split: prod.splits if_splits)
qed

text \<open>
  C16: A response whose body fits the size limit passes the cache with its status, with its data byte for byte,
  and with its headers but for the header \<open>X-Ferron-Cache\<close> of the module, whether it is stored or not. Only its
  trailers may be dropped, and only if the body is collected for the cache.
\<close>

theorem cache_body_transparent:
  assumes "cache_response_handler env now h r m = (Inr r', h', m')"
    and "\<not> too_long (maximum_cached_response_size h) (length (data_of (fr_frames r)))"
  shows "fr_status r' = fr_status r \<and> data_of (fr_frames r') = data_of (fr_frames r) \<and>
    (\<exists>v. fr_headers r' = fr_headers r \<or> fr_headers r' = header_insert CACHE_HEADER_NAME v (fr_headers r)) \<and>
    (fr_frames r' = fr_frames r \<or> collects env h r \<and> fr_frames r' = [Data (data_of (fr_frames r))])"
proof (cases "collects env h r")
  case False
  then show ?thesis using response_not_collected [OF assms(1)] by (auto simp: mark_def)
next
  case True
  obtain collected b rest where c: "collect_body (maximum_cached_response_size h) (fr_frames r) [] = Inr (collected, b, rest)"
    and r': "r' = mark ''MISS'' (r\<lparr>fr_frames := Data b # (if collected then [] else filter (\<lambda>f. f \<noteq> Trailers) rest)\<rparr>)"
    using response_collected [OF assms(1) True] by blast
  have collected
  proof (rule ccontr)
    assume "\<not> collected"
    with c obtain pre bytes where "fr_frames r = pre @ Data bytes # rest" "b = data_of pre" "too_long (maximum_cached_response_size h) (length b + length bytes)"
      using collect_body_cut [of "maximum_cached_response_size h" "fr_frames r" "[]"] by auto
    with assms(2) show False by (auto simp: too_long_def split: option.splits)
  qed
  with c have "b = data_of (fr_frames r)" using collect_body_all by fastforce
  with r' \<open>collected\<close> True show ?thesis by (auto simp: mark_def)
qed

text \<open>Above the limit the first chunk that crosses it is missing from what the client gets.\<close>

lemma crossing_chunk_lost:
  assumes "cache_response_handler env now h r m = (Inr r', h', m')" "collects env h r"
    and "too_long (maximum_cached_response_size h) (length (data_of (fr_frames r)))"
  shows "\<exists>pre bytes rest. fr_frames r = pre @ Data bytes # rest \<and> \<not> too_long (maximum_cached_response_size h) (length (data_of pre)) \<and>
    too_long (maximum_cached_response_size h) (length (data_of pre) + length bytes) \<and> data_of (fr_frames r') = data_of pre @ data_of rest"
proof -
  let ?max = "maximum_cached_response_size h"
  obtain collected b rest where c: "collect_body ?max (fr_frames r) [] = Inr (collected, b, rest)"
    and r': "r' = mark ''MISS'' (r\<lparr>fr_frames := Data b # (if collected then [] else filter (\<lambda>f. f \<noteq> Trailers) rest)\<rparr>)"
    using response_collected [OF assms(1,2)] by blast
  have nb: "\<not> too_long ?max (length b)" by (rule collect_body_bounded [OF c]) (simp add: too_long_def split: option.split)
  have "\<not> collected"
  proof
    assume collected
    with c have "b = data_of (fr_frames r)" using collect_body_all by fastforce
    with nb assms(3) show False by simp
  qed
  with c obtain pre bytes where "fr_frames r = pre @ Data bytes # rest" "b = data_of pre" "too_long ?max (length b + length bytes)"
    using collect_body_cut [of ?max "fr_frames r" "[]"] by auto
  with nb r' \<open>\<not> collected\<close> show ?thesis by (intro exI [of _ pre] exI [of _ bytes] exI [of _ rest]) (simp add: mark_def)
qed

section \<open>Keys tell requests apart\<close>

definition plain_host :: "string \<Rightarrow> bool" where
  "plain_host h \<longleftrightarrow> CHR ''/'' \<notin> set h"

definition plain_target :: "request_parts \<Rightarrow> bool" where
  "plain_target p \<longleftrightarrow> CHR '' '' \<notin> set (rp_method p) \<and> plain_host (fst (extract_uri_parts p)) \<and>
     starts_with ''/'' (uri_path (rp_uri p)) \<and> CHR ''?'' \<notin> set (uri_path (rp_uri p))"

lemma split_at: "c \<notin> set a \<Longrightarrow> c \<notin> set a' \<Longrightarrow> a @ c # b = a' @ c # b' \<longleftrightarrow> a = a' \<and> b = b'"
proof (induction a arbitrary: a')
  case Nil
  then show ?case by (cases a') auto
next
  case (Cons x a)
  then show ?case by (cases a') auto
qed

lemma split_at_or_end:
  assumes "c \<notin> set a" "c \<notin> set a'"
  shows "a @ (case q of Some x \<Rightarrow> c # x | None \<Rightarrow> []) = a' @ (case q' of Some x \<Rightarrow> c # x | None \<Rightarrow> []) \<longleftrightarrow> a = a' \<and> q = q'"
  using assms by (cases q; cases q') (auto simp: split_at)

text \<open>
  The key of a request determines its method, scheme, host, path and query, if its host has no slash.
\<close>

theorem request_key_injective:
  assumes "plain_target p" "plain_target p'"
  shows "request_key p enc = request_key p' enc' \<longleftrightarrow>
    rp_method p = rp_method p' \<and> enc = enc' \<and> extract_uri_parts p = extract_uri_parts p'"
proof -
  obtain h path q where p: "extract_uri_parts p = (h, path, q)" by (metis prod.exhaust)
  obtain h' path' q' where p': "extract_uri_parts p' = (h', path', q')" by (metis prod.exhaust)
  have plain: "plain_host h" "plain_host h'" "CHR ''?'' \<notin> set path" "CHR ''?'' \<notin> set path'"
    using assms p p' by (auto simp: plain_target_def extract_uri_parts_def)
  obtain r r' where r: "path = CHR ''/'' # r" "path' = CHR ''/'' # r'"
    using assms p p' by (cases path; cases path') (auto simp: plain_target_def extract_uri_parts_def starts_with_def)
  have scheme: "(if enc then ''https://'' else ''http://'') @ x = (if enc' then ''https://'' else ''http://'') @ x' \<longleftrightarrow> enc = enc' \<and> x = x'" for x x'
    by auto
  have "request_key p enc = request_key p' enc' \<longleftrightarrow> rp_method p = rp_method p' \<and>
      (if enc then ''https://'' else ''http://'') @ h @ path @ (case q of Some q \<Rightarrow> CHR ''?'' # q | None \<Rightarrow> []) =
      (if enc' then ''https://'' else ''http://'') @ h' @ path' @ (case q' of Some q \<Rightarrow> CHR ''?'' # q | None \<Rightarrow> [])"
    using split_at [of "CHR '' ''" "rp_method p" "rp_method p'"] assms
    by (simp add: request_key_def build_cache_key_def p p' plain_target_def)
  also have "\<dots> \<longleftrightarrow> rp_method p = rp_method p' \<and> enc = enc' \<and> h = h' \<and> path = path' \<and> q = q'"
    using plain r split_at [of "CHR ''/''" h h'] split_at_or_end [of "CHR ''?''" r r' q q']
    unfolding scheme by (simp add: plain_host_def)
  finally show ?thesis by (simp add: p p')
qed

theorem request_key_injective_witness:
  "plain_target (req_parts plain_request) \<and> request_key (req_parts plain_request) True \<noteq> request_key (req_parts plain_request) False"
proof -
  have "plain_target (req_parts plain_request)" by code_simp
  then show ?thesis using request_key_injective [of "req_parts plain_request" "req_parts plain_request" True False] by simp
qed

text \<open>With a slash in the host, two requests for different hosts share a key.\<close>

lemma slash_in_host_shares_key:
  "build_cache_key method enc (host @ ''/x'') path query = build_cache_key method enc host (''/x'' @ path) query"
  by (simp add: build_cache_key_def)

section \<open>An example cache\<close>

text \<open>Association lists that forget nothing, and a parser that knows three values.\<close>

definition example_control :: "string \<Rightarrow> CacheControl option" where
  "example_control v =
     (if v = ''max-age=3'' then Some \<lparr>cachability = None, max_age = Some 3, s_max_age = None, no_store = False\<rparr>
      else if v = ''no-cache, max-age=3'' then Some \<lparr>cachability = Some NoCache, max_age = Some 3, s_max_age = None, no_store = False\<rparr>
      else if v = ''no-store'' then Some \<lparr>cachability = None, max_age = None, s_max_age = None, no_store = True\<rparr>
      else None)"

definition list_cache :: "((string \<times> CacheEntry) list, (string \<times> string list) list) cache_env" where
  "list_cache = \<lparr>q_get = \<lambda>k q. (map_of q k, q), q_insert = \<lambda>k e q. ((k, e) # q, 0),
     q_retain = \<lambda>P q. (filter (\<lambda>(k, e). P e) q, length (filter (\<lambda>(k, e). \<not> P e) q)), q_len = length,
     v_get = \<lambda>k v. (map_of v k, v), v_insert = \<lambda>k l v. (k, l) # v, cc_from_value = example_control\<rparr>"

definition empty_module :: "((string \<times> CacheEntry) list, (string \<times> string list) list) CacheModule" where
  "empty_module = \<lparr>cm_cache = [], cm_vary_cache = [], track_evictions = 0\<rparr>"

definition cache_config :: "(unit, unit) ServerConfiguration" where
  "cache_config = default_config\<lparr>sc_entries := [(''cache_max_response_size'', [\<lparr>entry_values = [VInteger 5], entry_props = []\<rparr>])]\<rparr>"

definition cacheable :: "nat \<Rightarrow> string \<Rightarrow> string list \<Rightarrow> framed" where
  "cacheable status control chunks = \<lparr>fr_status = status, fr_headers = [(''cache-control'', control)], fr_frames = map Data chunks\<rparr>"

text \<open>One request on an empty module, with its response.\<close>

definition exchange ::
  "request \<Rightarrow> framed \<Rightarrow> ((string \<times> CacheEntry) list, (string \<times> string list) list) CacheModule \<Rightarrow>
     (string + framed) \<times> CacheModuleHandlers \<times> ((string \<times> CacheEntry) list, (string \<times> string list) list) CacheModule" where
  "exchange req r m =
     (let (rd, h, m1) = cache_request_handler list_cache 0 cache_handlers_new req cache_config False m
      in cache_response_handler list_cache 0 h r m1)"

theorem cache_body_transparent_witness:
  "\<exists>r' h m'. exchange plain_request (cacheable 200 ''max-age=3'' [''ab'', ''cd'']) empty_module = (Inr r', h, m') \<and>
     data_of (fr_frames r') = ''abcd'' \<and> fr_status r' = 200"
proof -
  let ?r = "cacheable 200 ''max-age=3'' [''ab'', ''cd'']"
  obtain rd h m1 where q: "cache_request_handler list_cache 0 cache_handlers_new plain_request cache_config False empty_module = (rd, h, m1)"
    by (metis prod.exhaust)
  obtain x h' m' where x: "cache_response_handler list_cache 0 h ?r m1 = (x, h', m')" by (metis prod.exhaust)
  have "case exchange plain_request ?r empty_module of (Inr r', _, _) \<Rightarrow> True | _ \<Rightarrow> False" by code_simp
  then obtain r' where r': "x = Inr r'"
    using x by (auto simp: exchange_def q split: sum.splits)
  have "case cache_request_handler list_cache 0 cache_handlers_new plain_request cache_config False empty_module of
      (_, h, _) \<Rightarrow> \<not> too_long (maximum_cached_response_size h) (length (data_of (fr_frames ?r)))" by code_simp
  then have "\<not> too_long (maximum_cached_response_size h) (length (data_of (fr_frames ?r)))" by (simp add: q)
  from cache_body_transparent [OF x [unfolded r'] this] have "data_of (fr_frames r') = ''abcd''" "fr_status r' = 200"
    by (simp_all add: cacheable_def)
  with r' x q show ?thesis by (simp add: exchange_def)
qed

lemma crossing_chunk_lost_example:
  "case exchange plain_request (cacheable 200 ''max-age=3'' [''abc'', ''def'', ''g'']) empty_module of
     (Inr r', _, _) \<Rightarrow> data_of (fr_frames r') = ''abcg'' | _ \<Rightarrow> False"
  by code_simp

text \<open>
  Partial and conditional answers are stored like any other: after a response with the status 206 or 304 the next
  request, without \<open>Range\<close> or \<open>If-None-Match\<close>, gets it too. So does one after a response with \<open>no-cache\<close>.
\<close>

definition answered_from_cache :: "framed \<Rightarrow> nat option" where
  "answered_from_cache r =
     (let (_, _, m) = exchange plain_request r empty_module;
          (rd, _, _) = cache_request_handler list_cache 2 cache_handlers_new plain_request cache_config False m
      in map_option resp_status (rd_response rd))"

lemma partial_content_reused:
  "answered_from_cache (cacheable 206 ''max-age=3'' [''abc'']) = Some 206"
  "answered_from_cache (cacheable 304 ''max-age=3'' []) = Some 304"
  "answered_from_cache (cacheable 200 ''no-cache, max-age=3'' [''abc'']) = Some 200"
  "answered_from_cache (cacheable 200 ''no-store'' [''abc'']) = None"
  by code_simp+

lemma size_unlimited_by_default:
  "maximum_cached_response_size (extract_cache_config default_config cache_handlers_new) = None"
  by code_simp

end
