(* ===== verification/Cache_Safety.thy ===== *)
theory Cache_Safety
  imports Cache_Module
begin

text \<open>
  Every answer of the cache was the cacheable response to an equivalent request, and is not older than it may be. The
  steps of all requests may interleave in any way; the caches may forget entries at any time.
\<close>

section \<open>The key with the varying headers\<close>

definition one_line :: "string \<Rightarrow> bool" where
  "one_line s \<longleftrightarrow> CHR 0x0A \<notin> set s"

definition header_token :: "string \<Rightarrow> bool" where
  "header_token n \<longleftrightarrow> one_line n \<and> CHR '':'' \<notin> set n"

lemma one_line_simps [simp]:
  "one_line []" "one_line (a @ b) \<longleftrightarrow> one_line a \<and> one_line b" "one_line (c # s) \<longleftrightarrow> c \<noteq> CHR 0x0A \<and> one_line s"
  by (auto simp: one_line_def)

lemma from_utf8_lossy_one_line: "one_line s \<Longrightarrow> one_line (from_utf8_lossy s)"
proof (induction s rule: from_utf8_lossy.induct)
  case (1 s)
  show ?case
  proof (cases "s = []")
    case True
    then show ?thesis by (simp add: from_utf8_lossy.simps)
  next
    case s: False
    show ?thesis
    proof (cases "utf8_tail s")
      case None
      have "one_line (map char_of [0xEF, 0xBF, 0xBD :: nat])" by code_simp
      moreover have "one_line (drop (broken_length s) s)" using 1(3) by (auto simp: one_line_def dest: in_set_dropD)
      ultimately show ?thesis using 1(1) [OF s None] s None unfolding from_utf8_lossy.simps [of s] by simp
    next
      case (Some r)
      obtain a where a: "s = a @ r" using utf8_tail_suffix [OF Some] by metis
      have "one_line (from_utf8_lossy r)" using 1(2) [OF s Some] 1(3) by (simp add: a)
      moreover have "one_line (take (length s - length r) s)" using 1(3) by (auto simp: one_line_def dest: in_set_takeD)
      ultimately show ?thesis using s Some unfolding from_utf8_lossy.simps [of s] by simp
    qed
  qed
qed

lemma header_to_str_one_line: "header_to_str v = Some s \<Longrightarrow> one_line s"
  by (auto simp: header_to_str_def one_line_def split: if_splits)

lemma host_one_line: "one_line (fst (extract_uri_parts p))"
  by (cases "Option.bind (header_get ''host'' (rp_headers p)) header_to_str")
    (auto simp: extract_uri_parts_def bind_eq_Some_conv header_to_str_one_line)

definition one_line_headers :: "header_map \<Rightarrow> bool" where
  "one_line_headers hs \<longleftrightarrow> (\<forall>(n, v) \<in> set hs. one_line v)"

lemma header_text_one_line: "one_line_headers hs \<Longrightarrow> one_line (header_text n hs)"
  by (auto simp: header_text_def header_get_def header_to_str_def one_line_headers_def from_utf8_lossy_one_line
      split: option.split dest!: map_of_SomeD)

lemma vary_line_injective:
  assumes "header_token n" "header_token n'" "vary_line hs n = vary_line hs' n'"
  shows "n = n' \<and> header_text n hs = header_text n hs'"
  using assms split_at [of "CHR '':''" n n'] by (auto simp: vary_line_def header_token_def)

lemma split_join_lines:
  "list_all one_line ls \<Longrightarrow> ls \<noteq> [] \<Longrightarrow> split_on (CHR 0x0A) (join_with [CHR 0x0A] ls) = ls"
proof (induction ls rule: induct_list012)
  case (3 l m ls)
  then show ?case by (simp add: split_on_append_sep split_on_single one_line_def)
qed (simp_all add: split_on_single one_line_def)

lemma join_lines_injective:
  assumes "list_all one_line ls" "list_all one_line ls'" "[] \<notin> set ls" "[] \<notin> set ls'" "join_with [CHR 0x0A] ls = join_with [CHR 0x0A] ls'"
  shows "ls = ls'"
proof -
  have nil: "join_with [CHR 0x0A] xs = [] \<longleftrightarrow> xs = []" if "[] \<notin> set xs" for xs
    using that by (induction xs rule: induct_list012) auto
  show ?thesis
    using nil [OF assms(3)] nil [OF assms(4)] split_join_lines [OF assms(1)] split_join_lines [OF assms(2)] assms(5) by metis
qed

lemma vary_key_injective:
  assumes "one_line k" "one_line k'" "list_all header_token ns" "list_all header_token ns'"
    and "one_line_headers hs" "one_line_headers hs'" "build_vary_key k ns hs = build_vary_key k' ns' hs'"
  shows "k = k' \<and> ns = ns' \<and> (\<forall>n \<in> set ns. header_text n hs = header_text n hs')"
proof -
  have lines: "list_all one_line (map (vary_line hs) ns)" if "list_all header_token ns" "one_line_headers hs" for ns hs
    using that by (auto simp: list_all_iff vary_line_def header_token_def header_text_one_line)
  have e: "k @ CHR 0x0A # join_with [CHR 0x0A] (map (vary_line hs) ns) = k' @ CHR 0x0A # join_with [CHR 0x0A] (map (vary_line hs') ns')"
    using assms(7) by (simp add: build_vary_key_def)
  have "k = k' \<and> join_with [CHR 0x0A] (map (vary_line hs) ns) = join_with [CHR 0x0A] (map (vary_line hs') ns')"
    by (rule split_at [THEN iffD1, OF _ _ e]) (use assms(1,2) in \<open>simp_all add: one_line_def\<close>)
  then have "k = k'" and j: "join_with [CHR 0x0A] (map (vary_line hs) ns) = join_with [CHR 0x0A] (map (vary_line hs') ns')" by blast+
  have "map (vary_line hs) ns = map (vary_line hs') ns'"
    by (rule join_lines_injective [OF lines lines _ _ j]) (use assms in \<open>auto simp: vary_line_def\<close>)
  moreover have "map (vary_line hs) ns = map (vary_line hs') ns' \<Longrightarrow> list_all header_token ns \<Longrightarrow> list_all header_token ns' \<Longrightarrow>
      ns = ns' \<and> (\<forall>n \<in> set ns. header_text n hs = header_text n hs')" for ns ns'
    by (induction ns ns' rule: list_induct2') (auto dest: vary_line_injective)
  ultimately show ?thesis using assms(3,4) \<open>k = k'\<close> by blast
qed

section \<open>All requests to a module\<close>

text \<open>What \<open>quick_cache\<close> promises: it invents no entries.\<close>

definition forgetful :: "('q, 'v) cache_env \<Rightarrow> ('q \<Rightarrow> (string \<times> CacheEntry) set) \<Rightarrow> ('v \<Rightarrow> string list set) \<Rightarrow> bool" where
  "forgetful env entries varies \<longleftrightarrow>
     (\<forall>k q e q'. q_get env k q = (e, q') \<longrightarrow> entries q' \<subseteq> entries q \<and> (\<forall>x. e = Some x \<longrightarrow> (k, x) \<in> entries q)) \<and>
     (\<forall>k e q q' n. q_insert env k e q = (q', n) \<longrightarrow> entries q' \<subseteq> insert (k, e) (entries q)) \<and>
     (\<forall>P q q' n. q_retain env P q = (q', n) \<longrightarrow> entries q' \<subseteq> entries q) \<and>
     (\<forall>k v l v'. v_get env k v = (l, v') \<longrightarrow> varies v' \<subseteq> varies v \<and> (\<forall>x. l = Some x \<longrightarrow> x \<in> varies v)) \<and>
     (\<forall>k l v. varies (v_insert env k l v) \<subseteq> insert l (varies v))"

lemma forgetful_get:
  assumes "forgetful env entries varies" "q_get env k q = (e, q')"
  shows "entries q' \<subseteq> entries q" "e = Some x \<Longrightarrow> (k, x) \<in> entries q"
  using assms by (auto simp: forgetful_def)

lemma forgetful_vary:
  assumes "forgetful env entries varies" "v_get env k v = (l, v')"
  shows "varies v' \<subseteq> varies v" "l = Some x \<Longrightarrow> x \<in> varies v"
  using assms by (auto simp: forgetful_def)

lemma forgetful_update:
  assumes "forgetful env entries varies"
  shows "\<forall>k e q q' n. q_insert env k e q = (q', n) \<longrightarrow> entries q' \<subseteq> insert (k, e) (entries q)"
    "\<forall>P q q' n. q_retain env P q = (q', n) \<longrightarrow> entries q' \<subseteq> entries q"
    "\<forall>k l v. varies (v_insert env k l v) \<subseteq> insert l (varies v)"
  by (rule assms [unfolded forgetful_def, THEN conjunct2, THEN conjunct1]
      assms [unfolded forgetful_def, THEN conjunct2, THEN conjunct2, THEN conjunct1]
      assms [unfolded forgetful_def, THEN conjunct2, THEN conjunct2, THEN conjunct2, THEN conjunct2])+

text \<open>A request with a plain target and header values without line breaks, as the HTTP parser delivers it.\<close>

definition proper_request :: "request_parts \<Rightarrow> bool" where
  "proper_request p \<longleftrightarrow> plain_target p \<and> one_line (rp_method p) \<and> one_line (uri_path (rp_uri p)) \<and>
     (case uri_query (rp_uri p) of Some q \<Rightarrow> one_line q | None \<Rightarrow> True) \<and> one_line_headers (rp_headers p)"

record stored_response =
  sr_parts :: request_parts
  sr_encrypted :: bool
  sr_handlers :: CacheModuleHandlers
  sr_response :: framed
  sr_time :: nat

definition varying :: "stored_response \<Rightarrow> string list" where
  "varying x = process_vary (vary_configured (sr_handlers x)) (fr_headers (sr_response x))"

text \<open>
  The state: the module, the handlers between request and response with their requests, and the responses so far. An
  \<open>ask\<close> or a \<open>reply\<close> is one handler call.
\<close>

inductive cache_reached ::
  "('q, 'v) cache_env \<Rightarrow> ('q, 'v) CacheModule \<Rightarrow> ('q, 'v) CacheModule \<Rightarrow> (request_parts \<times> bool \<times> CacheModuleHandlers) list \<Rightarrow>
     stored_response list \<Rightarrow> bool"
  for env :: "('q, 'v) cache_env" and start :: "('q, 'v) CacheModule" where
  start: "cache_reached env start start [] []"
| ask: "cache_reached env start m asked replied \<Longrightarrow> proper_request (req_parts req) \<Longrightarrow>
    h0 = cache_handlers_new \<or> h0 = cache_metric_before cache_handlers_new \<Longrightarrow>
    cache_request_handler env now h0 req (config :: (unit, unit) ServerConfiguration) enc m = (rd, h, m') \<Longrightarrow>
    cache_reached env start m' ((req_parts req, enc, h) # asked) replied"
| reply: "cache_reached env start m asked replied \<Longrightarrow> (p, enc, h) \<in> set asked \<Longrightarrow>
    list_all header_token (process_vary (vary_configured h) (fr_headers r)) \<Longrightarrow>
    cache_response_handler env now h r m = (out, h', m') \<Longrightarrow>
    cache_reached env start m' (remove1 (p, enc, h) asked)
      (\<lparr>sr_parts = p, sr_encrypted = enc, sr_handlers = h, sr_response = r, sr_time = now\<rparr> # replied)"
| measure: "cache_reached env start m asked replied \<Longrightarrow> cache_metric_after env h m = (sent, h', m') \<Longrightarrow>
    cache_reached env start m' asked replied"

inductive_cases cache_reachedE: "cache_reached env start m asked replied"

text \<open>The entry a response leaves, and the handlers of a request that missed.\<close>

definition entry_of :: "('q, 'v) cache_env \<Rightarrow> stored_response \<Rightarrow> CacheEntry \<Rightarrow> bool" where
  "entry_of env x e \<longleftrightarrow>
     should_cache_response (response_control (cc_from_value env) (fr_headers (sr_response x))) (header_contains ''authorization'' (rp_headers (sr_parts x))) \<and>
     list_all header_token (varying x) \<and> proper_request (sr_parts x) \<and>
     e = \<lparr>ce_status = fr_status (sr_response x),
          ce_headers = foldl (\<lambda>hs n. header_remove n hs) (fr_headers (sr_response x)) (ignore_configured (sr_handlers x)),
          ce_body = data_of (fr_frames (sr_response x)), ce_timestamp = sr_time x,
          ce_control = response_control (cc_from_value env) (fr_headers (sr_response x))\<rparr>"

definition key_of :: "stored_response \<Rightarrow> string" where
  "key_of x = build_vary_key (request_key (sr_parts x) (sr_encrypted x)) (varying x) (rp_headers (sr_parts x))"

definition waiting :: "request_parts \<times> bool \<times> CacheModuleHandlers \<Rightarrow> bool" where
  "waiting = (\<lambda>(p, enc, h). proper_request p \<and> (ch_no_store h \<or> cached h \<or>
     cache_key h = Some (request_key p enc) \<and> ch_request_headers h = rp_headers p \<and>
     has_authorization h = header_contains ''authorization'' (rp_headers p)))"

definition explained ::
  "('q, 'v) cache_env \<Rightarrow> ('q \<Rightarrow> (string \<times> CacheEntry) set) \<Rightarrow> ('v \<Rightarrow> string list set) \<Rightarrow> stored_response list \<Rightarrow> ('q, 'v) CacheModule \<Rightarrow> bool" where
  "explained env entries varies replied m \<longleftrightarrow>
     (\<forall>(k, e) \<in> entries (cm_cache m). \<exists>x \<in> set replied. k = key_of x \<and> entry_of env x e) \<and>
     (\<forall>l \<in> varies (cm_vary_cache m). list_all header_token l)"

lemma look_up_explained:
  assumes "forgetful env entries varies" "explained env entries varies replied m" "look_up env now key hs m = (hit, m')"
  shows "explained env entries varies replied m' \<and>
    (\<forall>e. hit = Some e \<longrightarrow> fresh_at now e \<and>
       (\<exists>ns. list_all header_token ns \<and> (\<exists>x \<in> set replied. build_vary_key key ns hs = key_of x \<and> entry_of env x e)))"
proof -
  obtain vary v where v: "v_get env key (cm_vary_cache m) = (vary, v)" by force
  have lv: "varies v \<subseteq> varies (cm_vary_cache m)" "\<And>l. vary = Some l \<Longrightarrow> l \<in> varies (cm_vary_cache m)"
    using forgetful_vary [OF assms(1) v] by simp_all
  show ?thesis
  proof (cases vary)
    case None
    then show ?thesis using assms(2,3) v lv by (auto simp: look_up_def explained_def)
  next
    case (Some ns)
    obtain e q where q: "q_get env (build_vary_key key ns hs) (cm_cache m) = (e, q)" by force
    have lq: "entries q \<subseteq> entries (cm_cache m)" "\<And>x. e = Some x \<Longrightarrow> (build_vary_key key ns hs, x) \<in> entries (cm_cache m)"
      using forgetful_get [OF assms(1) q] by simp_all
    have ns: "list_all header_token ns" using lv(2) [OF Some] assms(2) unfolding explained_def by blast
    have ex: "explained env entries varies replied (m\<lparr>cm_vary_cache := v, cm_cache := q\<rparr>)"
      using assms(2) lv(1) lq(1) unfolding explained_def by auto
    have r: "m' = m\<lparr>cm_vary_cache := v, cm_cache := q\<rparr>" "hit = (case e of Some x \<Rightarrow> if fresh_at now x then Some x else None | None \<Rightarrow> None)"
      using assms(3) v q Some by (auto simp: look_up_def Let_def split: option.splits)
    have "\<exists>x \<in> set replied. build_vary_key key ns hs = key_of x \<and> entry_of env x y" if "e = Some y" for y
      using lq(2) [OF that] assms(2) unfolding explained_def by blast
    then show ?thesis using ex r ns by (auto split: option.splits if_splits)
  qed
qed

lemma explained_more: "explained env entries varies replied m \<Longrightarrow> explained env entries varies (x # replied) m"
  unfolding explained_def by auto

lemma request_explained:
  assumes "forgetful env entries varies" "explained env entries varies replied m" "proper_request (req_parts req)"
    "h0 = cache_handlers_new \<or> h0 = cache_metric_before cache_handlers_new"
    "cache_request_handler env now h0 req config enc m = (rd, h, m')"
  shows "explained env entries varies replied m' \<and> waiting (req_parts req, enc, h)"
proof (cases "has_flag NO_STORE (decision_from_request (cc_from_value env) (req_parts req))")
  case True
  then show ?thesis using assms(2,3,5) by (auto simp: cache_request_handler_def waiting_def Let_def)
next
  case False
  let ?key = "request_key (req_parts req) enc" and ?hs = "rp_headers (req_parts req)"
  obtain hit m1 where l: "(if has_flag NO_CACHE (decision_from_request (cc_from_value env) (req_parts req)) then (None, m)
      else look_up env now ?key ?hs m) = (hit, m1)" by force
  have ex: "explained env entries varies replied m1"
    using look_up_explained [OF assms(1,2), of now ?key ?hs] l assms(2) by (auto split: if_splits)
  show ?thesis
  proof (cases hit)
    case None
    then show ?thesis using assms(3-5) False l ex by (auto simp: cache_request_handler_def waiting_def Let_def extract_cache_config_def)
  next
    case (Some e)
    then show ?thesis using assms(3-5) False l ex by (auto simp: cache_request_handler_def waiting_def Let_def)
  qed
qed

lemma request_hit:
  assumes "cache_request_handler env now h0 req config enc m = (rd, h, m')" "rd_response rd = Some r"
  obtains e m1 where "look_up env now (request_key (req_parts req) enc) (rp_headers (req_parts req)) m = (Some e, m1)"
    "r = \<lparr>resp_status = ce_status e, resp_headers = ce_headers e, resp_body = ce_body e\<rparr>"
proof (cases "has_flag NO_STORE (decision_from_request (cc_from_value env) (req_parts req)) \<or>
    has_flag NO_CACHE (decision_from_request (cc_from_value env) (req_parts req))")
  case True
  then show thesis using assms by (auto simp: cache_request_handler_def Let_def split: if_splits)
next
  case False
  obtain hit m1 where l: "look_up env now (request_key (req_parts req) enc) (rp_headers (req_parts req)) m = (hit, m1)" by force
  show thesis using assms False l that by (cases hit) (auto simp: cache_request_handler_def Let_def)
qed

lemma store_explained:
  assumes "forgetful env entries varies" "explained env entries varies replied m" "proper_request p"
    and "should_cache_response (response_control (cc_from_value env) (fr_headers r)) (header_contains ''authorization'' (rp_headers p))"
    and "ch_request_headers h = rp_headers p" "list_all header_token (process_vary (vary_configured h) (fr_headers r))"
    and "body = data_of (fr_frames r)" "vary_configured h0 = vary_configured h" "ignore_configured h0 = ignore_configured h"
    and "store_response env now (request_key p enc) h r body m = (h', m')"
  shows "explained env entries varies (\<lparr>sr_parts = p, sr_encrypted = enc, sr_handlers = h0, sr_response = r, sr_time = now\<rparr> # replied) m'"
proof -
  let ?x = "\<lparr>sr_parts = p, sr_encrypted = enc, sr_handlers = h0, sr_response = r, sr_time = now\<rparr>"
  let ?vary = "process_vary (vary_configured h) (fr_headers r)"
  let ?e = "\<lparr>ce_status = fr_status r, ce_headers = foldl (\<lambda>hs n. header_remove n hs) (fr_headers r) (ignore_configured h),
     ce_body = body, ce_timestamp = now, ce_control = response_control (cc_from_value env) (fr_headers r)\<rparr>"
  let ?k = "build_vary_key (request_key p enc) ?vary (ch_request_headers h)"
  have x: "?k = key_of ?x" "entry_of env ?x ?e"
    using assms(3-9) by (auto simp: key_of_def entry_of_def varying_def)
  show ?thesis
  proof (cases "''*'' \<in> set ?vary")
    case True
    then show ?thesis using assms(2,10) explained_more by (auto simp: store_response_def)
  next
    case False
    obtain q1 expired where q1: "cleanup_expired_entries env now (cm_cache m) = (q1, expired)" by force
    obtain q2 evicted where q2: "q_insert env ?k ?e q1 = (q2, evicted)" by force
    have m': "cm_cache m' = q2" "cm_vary_cache m' = v_insert env (request_key p enc) ?vary (cm_vary_cache m)"
      using assms(10) False q1 q2 by (auto simp: store_response_def Let_def)
    have "entries q1 \<subseteq> entries (cm_cache m)"
      using forgetful_update(2) [OF assms(1)] q1 unfolding cleanup_expired_entries_def by blast
    moreover have "entries q2 \<subseteq> insert (?k, ?e) (entries q1)" using forgetful_update(1) [OF assms(1)] q2 by blast
    ultimately have q: "entries q2 \<subseteq> insert (?k, ?e) (entries (cm_cache m))" by blast
    have v: "varies (cm_vary_cache m') \<subseteq> insert ?vary (varies (cm_vary_cache m))"
      unfolding m' using forgetful_update(3) [OF assms(1)] by blast
    have "\<exists>x \<in> set (?x # replied). k = key_of x \<and> entry_of env x e" if "(k, e) \<in> entries q2" for k e
      using that q x assms(2) unfolding explained_def by auto
    then show ?thesis using v assms(2,6) unfolding explained_def m' by blast
  qed
qed

lemma reply_explained:
  assumes "forgetful env entries varies" "explained env entries varies replied m" "waiting (p, enc, h)"
    and "list_all header_token (process_vary (vary_configured h) (fr_headers r))"
    and "cache_response_handler env now h r m = (out, h', m')"
  shows "explained env entries varies (\<lparr>sr_parts = p, sr_encrypted = enc, sr_handlers = h, sr_response = r, sr_time = now\<rparr> # replied) m'"
proof (cases "ch_no_store h \<or> cached h \<or>
    \<not> should_cache_response (response_control (cc_from_value env) (fr_headers r)) (has_authorization h)")
  case True
  then have "m' = m" using assms(5) by (auto simp: cache_response_handler_def Let_def split: if_splits option.splits)
  then show ?thesis using explained_more assms(2) by blast
next
  case False
  let ?h = "h\<lparr>metric_cache_hit := Some False\<rparr>"
  have w: "proper_request p" "cache_key h = Some (request_key p enc)" "ch_request_headers h = rp_headers p"
      "has_authorization h = header_contains ''authorization'' (rp_headers p)"
    using assms(3) False by (auto simp: waiting_def)
  show ?thesis
  proof (cases "collect_body (maximum_cached_response_size h) (fr_frames r) []")
    case (Inl e)
    then have "m' = m" using assms(5) False w(2) by (auto simp: cache_response_handler_def Let_def)
    then show ?thesis using explained_more assms(2) by blast
  next
    case (Inr y)
    obtain all b rest where y: "y = (all, b, rest)" by (metis prod.exhaust)
    show ?thesis
    proof (cases all)
      case True
      have b: "b = data_of (fr_frames r)" using collect_body_all [of _ "fr_frames r" "[]"] Inr y True by auto
      obtain h2 m2 where st: "store_response env now (request_key p enc) ?h r b m = (h2, m2)" by force
      then have "m' = m2" using assms(5) False w(2) Inr y True by (auto simp: cache_response_handler_def Let_def)
      moreover have "explained env entries varies (\<lparr>sr_parts = p, sr_encrypted = enc, sr_handlers = h, sr_response = r, sr_time = now\<rparr> # replied) m2"
        by (rule store_explained [OF assms(1,2) w(1) _ _ _ b _ _ st]) (use False w(3,4) assms(4) in simp_all)
      ultimately show ?thesis by simp
    next
      case cut: False
      then have "m' = m" using assms(5) False w(2) Inr y by (auto simp: cache_response_handler_def Let_def)
      then show ?thesis using explained_more assms(2) by blast
    qed
  qed
qed

lemma reached_explained:
  assumes "cache_reached env start m asked replied" "forgetful env entries varies"
    "entries (cm_cache start) = {}" "varies (cm_vary_cache start) = {}"
  shows "explained env entries varies replied m \<and> (\<forall>w \<in> set asked. waiting w)"
  using assms(1)
proof (induction rule: cache_reached.induct)
  case start
  then show ?case using assms(3,4) by (simp add: explained_def)
next
  case (ask m asked replied req h0 now config enc rd h m')
  then show ?case using request_explained [OF assms(2) conjunct1 [OF ask.IH] ask.hyps(2-4)] by simp
next
  case (reply m asked replied p enc h r now out h' m')
  then have "waiting (p, enc, h)" by blast
  with reply show ?case using reply_explained [OF assms(2) _ _ reply.hyps(3,4)] by (auto dest: in_set_remove1)
next
  case (measure m asked replied h sent h' m')
  then show ?case by (auto simp: cache_metric_after_def explained_def Let_def)
qed

text \<open>
  C5: For requests whose Host has no slash and whose method, URL and headers are as the HTTP parser leaves them
  (\<open>proper_request\<close>), and however the steps of the requests to a cache module interleave, an answer from the cache is the
  whole response to an earlier request with the same method, scheme, host, path and query and the same values of the headers
  it varies on, that was cacheable, less the ignored headers, and no older than its lifetime.
\<close>

theorem cached_answer_was_stored:
  assumes "forgetful env entries varies" "entries (cm_cache start) = {}" "varies (cm_vary_cache start) = {}"
    and "cache_reached env start m asked replied" "proper_request (req_parts req)"
    and "cache_request_handler env now h0 req config enc m = (rd, h, m')" "rd_response rd = Some r"
  shows "\<exists>x \<in> set replied. rp_method (sr_parts x) = rp_method (req_parts req) \<and> sr_encrypted x = enc \<and>
    extract_uri_parts (sr_parts x) = extract_uri_parts (req_parts req) \<and>
    (\<forall>n \<in> set (varying x). header_text n (rp_headers (sr_parts x)) = header_text n (rp_headers (req_parts req))) \<and>
    should_cache_response (response_control (cc_from_value env) (fr_headers (sr_response x)))
      (header_contains ''authorization'' (rp_headers (sr_parts x))) \<and>
    now - sr_time x \<le> lifetime (response_control (cc_from_value env) (fr_headers (sr_response x))) \<and>
    resp_status r = fr_status (sr_response x) \<and> resp_body r = data_of (fr_frames (sr_response x)) \<and>
    resp_headers r = foldl (\<lambda>hs n. header_remove n hs) (fr_headers (sr_response x)) (ignore_configured (sr_handlers x))"
proof -
  let ?key = "request_key (req_parts req) enc"
  have ex: "explained env entries varies replied m" using reached_explained [OF assms(4,1-3)] by blast
  obtain e m1 where hit: "look_up env now ?key (rp_headers (req_parts req)) m = (Some e, m1)"
    "r = \<lparr>resp_status = ce_status e, resp_headers = ce_headers e, resp_body = ce_body e\<rparr>"
    by (rule request_hit [OF assms(6,7)])
  obtain ns x where x: "list_all header_token ns" "x \<in> set replied" "build_vary_key ?key ns (rp_headers (req_parts req)) = key_of x"
      "entry_of env x e" and fresh: "fresh_at now e"
    using look_up_explained [OF assms(1) ex hit(1)] by blast
  have px: "proper_request (sr_parts x)" "list_all header_token (varying x)" using x(4) by (auto simp: entry_of_def)
  have line: "one_line (request_key p enc)" if "proper_request p" for p enc
    using that host_one_line [of p] by (auto simp: proper_request_def request_key_def build_cache_key_def extract_uri_parts_def split: option.splits)
  have "?key = request_key (sr_parts x) (sr_encrypted x) \<and> ns = varying x \<and>
      (\<forall>n \<in> set ns. header_text n (rp_headers (req_parts req)) = header_text n (rp_headers (sr_parts x)))"
    by (rule vary_key_injective [OF line [OF assms(5)] line [OF px(1)] x(1) px(2) _ _ x(3) [unfolded key_of_def]])
      (use assms(5) px(1) in \<open>simp_all add: proper_request_def\<close>)
  moreover have "plain_target (req_parts req)" "plain_target (sr_parts x)" using assms(5) px(1) by (simp_all add: proper_request_def)
  ultimately show ?thesis using x(2,4) hit(2) fresh request_key_injective [of "req_parts req" "sr_parts x" enc "sr_encrypted x"]
    by (intro bexI [of _ x]) (auto simp: entry_of_def fresh_at_def)
qed

lemma forgetful_list_cache: "forgetful list_cache set (\<lambda>v. snd ` set v)"
  unfolding forgetful_def list_cache_def by (auto dest: map_of_SomeD) (metis image_eqI map_of_SomeD snd_conv)

theorem cached_answer_was_stored_witness:
  "\<exists>m asked replied rd h m' r x. cache_reached list_cache empty_module m asked replied \<and>
     cache_request_handler list_cache 2 cache_handlers_new plain_request cache_config False m = (rd, h, m') \<and> rd_response rd = Some r \<and>
     replied = [x] \<and> resp_status r = fr_status (sr_response x) \<and> 2 - sr_time x \<le> 3"
proof -
  let ?r = "cacheable 200 ''no-cache, max-age=3'' [''abc'']" and ?p = "req_parts plain_request"
  obtain rd1 h1 m1 where a: "cache_request_handler list_cache 0 cache_handlers_new plain_request cache_config False empty_module = (rd1, h1, m1)"
    by (metis prod.exhaust)
  obtain out h2 m2 where b: "cache_response_handler list_cache 0 h1 ?r m1 = (out, h2, m2)" by (metis prod.exhaust)
  obtain rd3 h3 m3 where c: "cache_request_handler list_cache 2 cache_handlers_new plain_request cache_config False m2 = (rd3, h3, m3)"
    by (metis prod.exhaust)
  have "answered_from_cache ?r = Some 200" by (rule partial_content_reused(3))
  then obtain r where r: "rd_response rd3 = Some r" by (auto simp: answered_from_cache_def exchange_def a b c)
  have proper: "proper_request ?p" by code_simp
  have "vary_configured h1 = vary_configured (extract_cache_config cache_config cache_handlers_new)"
    using a by (auto simp: cache_request_handler_def Let_def split: if_splits option.splits prod.splits)
  moreover have "vary_configured (extract_cache_config cache_config cache_handlers_new) = []" "list_all header_token (process_vary [] (fr_headers ?r))" by code_simp+
  ultimately have tokens: "list_all header_token (process_vary (vary_configured h1) (fr_headers ?r))" by simp
  let ?x = "\<lparr>sr_parts = ?p, sr_encrypted = False, sr_handlers = h1, sr_response = ?r, sr_time = 0\<rparr>"
  have reached: "cache_reached list_cache empty_module m2 [] [?x]"
    using cache_reached.reply [OF cache_reached.ask [OF cache_reached.start proper disjI1 [OF refl] a] _ tokens b, where enc = False] by simp
  have lt: "lifetime (response_control (cc_from_value list_cache) (fr_headers ?r)) = 3" by code_simp
  have "resp_status r = fr_status ?r \<and> 2 - sr_time ?x \<le> 3"
    using cached_answer_was_stored [OF forgetful_list_cache _ _ reached proper c r] lt by (simp add: empty_module_def)
  then show ?thesis using reached c r by (metis stored_response.select_convs(4))
qed

end
