(* ===== verification/Proxy_Request.thy ===== *)
theory Proxy_Request
  imports Responses
begin

text \<open>
  The request the reverse proxy sends to a backend: \<open>construct_proxy_request_parts\<close> of
  \<open>ferron-modules-builtin/src/optional/rproxy.rs\<close>. The URI parser of the crate \<open>http\<close> is a parameter; a
  result \<open>None\<close> stands for a directive whose placeholders are never closed.
\<close>

section \<open>Definitions\<close>

text \<open>What the code reads of the URL of a backend.\<close>

record proxy_url =
  pu_authority :: "string option"
  pu_path :: string

definition join_path :: "string \<Rightarrow> string \<Rightarrow> string" where
  "join_path backend_path request_path =
     (if request_path \<noteq> [] \<and> hd request_path = CHR ''/'' then trim_end_matches CHR ''/'' backend_path @ request_path
      else request_path)"

definition proxied_target :: "proxy_url \<Rightarrow> uri \<Rightarrow> string" where
  "proxied_target url u = join_path (pu_path url) (uri_path u) @ query_suffix u"

text \<open>
  The tokens of a Connection header. Lower case is Unicode's, so the Kelvin sign becomes a \<open>k\<close>; no other
  character outside ASCII becomes one of the tokens looked for.
\<close>

definition kelvin_sign :: string where
  "kelvin_sign = map char_of [0xE2, 0x84, 0xAA :: nat]"

definition connection_tokens :: "string \<Rightarrow> string list" where
  "connection_tokens s = split_on CHR '','' (to_lowercase (replace_all kelvin_sign ''k'' s))"

definition parse_header_value :: "string \<Rightarrow> string + string" where
  "parse_header_value v = (if header_value_ok v then Inr v else Inl ''failed to parse header value'')"

definition connection_value :: "header_map \<Rightarrow> string + string option" where
  "connection_value hs =
     (case header_get ''connection'' hs of
        None \<Rightarrow> Inr (Some ''keep-alive'')
      | Some connection_header \<Rightarrow>
          (let connection_str = from_utf8_lossy connection_header
           in if list_all (\<lambda>c. c \<noteq> ''keep-alive'' \<and> c \<noteq> ''upgrade'' \<and> c \<noteq> ''close'') (connection_tokens connection_str)
              then map_sum id Some (parse_header_value (''keep-alive, '' @ connection_str))
              else Inr None))"

definition set_connection :: "header_map \<Rightarrow> string + header_map" where
  "set_connection hs = map_sum id (\<lambda>v. case v of Some c \<Rightarrow> header_insert ''connection'' c hs | None \<Rightarrow> hs) (connection_value hs)"

definition set_host :: "string option \<Rightarrow> header_map \<Rightarrow> string + header_map" where
  "set_host authority hs =
     (case authority of
        Some a \<Rightarrow> map_sum id (\<lambda>v. header_insert ''host'' v hs) (parse_header_value a)
      | None \<Rightarrow> Inr (header_remove ''host'' hs))"

definition client_address :: "SocketData \<Rightarrow> string" where
  "client_address socket_data = ip_to_string (to_canonical (sa_ip (remote_addr socket_data)))"

definition forwarded_for :: "bool \<Rightarrow> SocketData \<Rightarrow> header_map \<Rightarrow> string" where
  "forwarded_for trust socket_data hs =
     (case Option.bind (header_get ''x-forwarded-for'' hs) header_to_str of
        Some earlier \<Rightarrow> if trust then earlier @ '', '' @ client_address socket_data else client_address socket_data
      | None \<Rightarrow> client_address socket_data)"

definition set_forwarded :: "bool \<Rightarrow> SocketData \<Rightarrow> string option \<Rightarrow> header_map \<Rightarrow> string + header_map" where
  "set_forwarded trust socket_data original_host hs =
     map_sum id (\<lambda>v.
       let hs1 = header_insert ''x-forwarded-for'' v hs;
           hs2 = (if \<not> trust \<or> \<not> header_contains ''x-forwarded-proto'' hs1
                  then header_insert ''x-forwarded-proto'' (scheme_text socket_data) hs1 else hs1)
       in if \<not> trust \<or> \<not> header_contains ''x-forwarded-host'' hs2
          then (case original_host of Some h \<Rightarrow> header_insert ''x-forwarded-host'' h hs2 | None \<Rightarrow> hs2)
          else hs2)
       (parse_header_value (forwarded_for trust socket_data hs))"

definition bind_sum :: "'e + 'a \<Rightarrow> ('a \<Rightarrow> 'e + 'b) \<Rightarrow> 'e + 'b" where
  "bind_sum m f = (case m of Inl e \<Rightarrow> Inl e | Inr a \<Rightarrow> f a)"

lemma bind_sum_Inr_iff: "bind_sum m f = Inr b \<longleftrightarrow> (\<exists>a. m = Inr a \<and> f a = Inr b)"
  by (auto simp: bind_sum_def split: sum.splits)

lemma map_sum_Inr_iff: "map_sum id f m = Inr b \<longleftrightarrow> (\<exists>a. m = Inr a \<and> f a = b)"
  by (cases m) auto

definition proxy_directives :: "page_env \<Rightarrow> ('m, 'o) ServerConfiguration \<Rightarrow> SocketData \<Rightarrow> request_parts \<Rightarrow> custom_headers option" where
  "proxy_directives env config socket_data =
     directive_headers env (Some socket_data) ''proxy_request_header'' ''proxy_request_header_replace'' ''proxy_request_header_remove'' config"

definition construct_proxy_request_parts ::
  "page_env \<Rightarrow> (string \<Rightarrow> uri option) \<Rightarrow> request_parts \<Rightarrow> ('m, 'o) ServerConfiguration \<Rightarrow> SocketData \<Rightarrow> proxy_url \<Rightarrow>
     (string + request_parts) option" where
  "construct_proxy_request_parts env parse_uri parts config socket_data url =
     map_option (\<lambda>ch.
       case parse_uri (proxied_target url (rp_uri parts)) of
         None \<Rightarrow> Inl ''invalid URI''
       | Some u \<Rightarrow>
           map_sum id (\<lambda>hs. parts\<lparr>rp_uri := u, rp_version := HTTP_11, rp_headers := apply_headers ch hs\<rparr>)
             (bind_sum (set_host (pu_authority url) (rp_headers parts)) (\<lambda>hs1.
              bind_sum (set_connection hs1) (\<lambda>hs2.
              set_forwarded (option_value_bool ''trust_x_forwarded_for'' config) socket_data
                (header_get ''host'' (rp_headers parts)) (header_remove ''forwarded'' hs2)))))
       (proxy_directives env config socket_data parts)"

section \<open>The headers before the directives\<close>

abbreviation proxy_untouched :: "page_env \<Rightarrow> ('m, 'o) ServerConfiguration \<Rightarrow> SocketData \<Rightarrow> request_parts \<Rightarrow> string \<Rightarrow> bool" where
  "proxy_untouched env config socket_data parts \<equiv>
     untouched env (Some socket_data) ''proxy_request_header'' ''proxy_request_header_replace'' ''proxy_request_header_remove'' config parts"

lemmas header_get_all_simps = header_get_all_insert header_get_all_remove

lemma lower_names [simp]:
  "to_lowercase ''host'' = ''host''" "to_lowercase ''connection'' = ''connection''" "to_lowercase ''forwarded'' = ''forwarded''"
  "to_lowercase ''x-forwarded-for'' = ''x-forwarded-for''" "to_lowercase ''x-forwarded-proto'' = ''x-forwarded-proto''"
  "to_lowercase ''x-forwarded-host'' = ''x-forwarded-host''"
  by code_simp+

definition base_headers :: "bool \<Rightarrow> SocketData \<Rightarrow> string option \<Rightarrow> header_map \<Rightarrow> header_map \<Rightarrow> bool" where
  "base_headers trust socket_data authority hs hs' \<longleftrightarrow>
     header_get_all ''x-forwarded-for'' hs' = [forwarded_for trust socket_data hs] \<and>
     header_get_all ''x-forwarded-proto'' hs' =
       (if trust \<and> header_contains ''x-forwarded-proto'' hs then header_get_all ''x-forwarded-proto'' hs else [scheme_text socket_data]) \<and>
     header_get_all ''x-forwarded-host'' hs' =
       (if trust \<and> header_contains ''x-forwarded-host'' hs then header_get_all ''x-forwarded-host'' hs
        else case header_get ''host'' hs of Some h \<Rightarrow> [h] | None \<Rightarrow> header_get_all ''x-forwarded-host'' hs) \<and>
     header_get_all ''host'' hs' = (case authority of Some a \<Rightarrow> [a] | None \<Rightarrow> []) \<and>
     header_get_all ''forwarded'' hs' = [] \<and>
     (\<forall>n. to_lowercase n \<notin> {''x-forwarded-for'', ''x-forwarded-proto'', ''x-forwarded-host'', ''host'', ''forwarded'', ''connection''} \<longrightarrow>
        header_get_all n hs' = header_get_all n hs)"

lemma parse_header_value_Inr: "parse_header_value v = Inr w \<longleftrightarrow> header_value_ok v \<and> w = v"
  by (auto simp: parse_header_value_def)

lemma set_host_get_all:
  "set_host authority hs = Inr hs' \<Longrightarrow>
   header_get_all n hs' = (if to_lowercase n = ''host'' then (case authority of Some a \<Rightarrow> [a] | None \<Rightarrow> []) else header_get_all n hs)"
  by (auto simp: set_host_def map_sum_Inr_iff parse_header_value_Inr header_get_all_simps split: option.splits)

lemma set_connection_get_all:
  "set_connection hs = Inr hs' \<Longrightarrow> to_lowercase n \<noteq> ''connection'' \<Longrightarrow> header_get_all n hs' = header_get_all n hs"
  by (auto simp: set_connection_def map_sum_Inr_iff header_get_all_simps split: option.splits)

lemma set_forwarded_get_all:
  assumes "set_forwarded trust socket_data original_host hs = Inr hs'"
  shows "header_get_all ''x-forwarded-for'' hs' = [forwarded_for trust socket_data hs]"
    "header_get_all ''x-forwarded-proto'' hs' =
       (if trust \<and> header_contains ''x-forwarded-proto'' hs then header_get_all ''x-forwarded-proto'' hs else [scheme_text socket_data])"
    "header_get_all ''x-forwarded-host'' hs' =
       (if trust \<and> header_contains ''x-forwarded-host'' hs then header_get_all ''x-forwarded-host'' hs
        else case original_host of Some h \<Rightarrow> [h] | None \<Rightarrow> header_get_all ''x-forwarded-host'' hs)"
    "to_lowercase n \<notin> {''x-forwarded-for'', ''x-forwarded-proto'', ''x-forwarded-host''} \<Longrightarrow> header_get_all n hs' = header_get_all n hs"
  using assms
  by (auto simp: set_forwarded_def map_sum_Inr_iff parse_header_value_Inr Let_def header_get_all_simps header_contains_def hm.get_ins
      split: option.splits if_splits)

text \<open>Header maps with the same values of a name agree on its first value.\<close>

lemma header_get_conv_all: "header_get n hs = (case header_get_all n hs of [] \<Rightarrow> None | v # vs \<Rightarrow> Some v)"
proof (induction hs)
  case (Cons x hs)
  then show ?case by (cases x) (auto simp: header_get_all_def header_get_def)
qed (simp add: header_get_all_def header_get_def)

lemma base_headers_built:
  assumes "set_host authority hs = Inr hs1" "set_connection hs1 = Inr hs2"
    "set_forwarded trust socket_data (header_get ''host'' hs) (header_remove ''forwarded'' hs2) = Inr hs3"
  shows "base_headers trust socket_data authority hs hs3"
proof -
  let ?r = "header_remove ''forwarded'' hs2"
  have same: "header_get_all n ?r = header_get_all n hs" if "to_lowercase n \<notin> {''host'', ''connection'', ''forwarded''}" for n
    using that set_host_get_all [OF assms(1), of n] set_connection_get_all [OF assms(2), of n] by (simp add: header_get_all_simps)
  then have get: "header_get n ?r = header_get n hs" if "to_lowercase n \<notin> {''host'', ''connection'', ''forwarded''}" for n
    using that by (simp add: header_get_conv_all)
  have "header_get_all ''host'' hs3 = header_get_all ''host'' hs1"
    using set_forwarded_get_all(4) [OF assms(3), of "''host''"] set_connection_get_all [OF assms(2), of "''host''"]
    by (simp add: header_get_all_simps)
  moreover have "header_get_all ''forwarded'' hs3 = []"
    using set_forwarded_get_all(4) [OF assms(3), of "''forwarded''"] by (simp add: header_get_all_simps)
  moreover have "forwarded_for trust socket_data ?r = forwarded_for trust socket_data hs" by (simp add: forwarded_for_def get)
  moreover have "header_contains n ?r = header_contains n hs" if "to_lowercase n \<notin> {''host'', ''connection'', ''forwarded''}" for n
    using get [OF that] by (simp add: header_contains_def)
  ultimately show ?thesis
    using set_forwarded_get_all [OF assms(3)] same set_host_get_all [OF assms(1), of "''host''"]
    by (simp add: base_headers_def cong: option.case_cong if_cong)
qed

lemma construct_proxy_request_parts_Inr:
  assumes "construct_proxy_request_parts env parse_uri parts config socket_data url = Some (Inr parts')"
  obtains ch hs where "proxy_directives env config socket_data parts = Some ch"
    "base_headers (option_value_bool ''trust_x_forwarded_for'' config) socket_data (pu_authority url) (rp_headers parts) hs"
    "rp_headers parts' = apply_headers ch hs" "parse_uri (proxied_target url (rp_uri parts)) = Some (rp_uri parts')"
    "rp_version parts' = HTTP_11" "rp_method parts' = rp_method parts"
  using assms
  by (auto simp: construct_proxy_request_parts_def map_sum_Inr_iff bind_sum_Inr_iff split: option.splits) (blast intro: base_headers_built)

section \<open>Properties\<close>

text \<open>
  C6: Without \<open>trust_x_forwarded_for\<close>, and if the configuration does not itself set these headers, the backend
  sees exactly one \<open>X-Forwarded-For\<close>, the canonical address of the connection, exactly one \<open>X-Forwarded-Proto\<close>,
  the scheme of the connection, and no \<open>Forwarded\<close>, whatever such headers the request has; and for a request with
  a Host header exactly one \<open>X-Forwarded-Host\<close>, that Host.
\<close>

theorem forwarded_headers_genuine:
  assumes "header_names_lower env" "construct_proxy_request_parts env parse_uri parts config socket_data url = Some (Inr parts')"
    "\<not> option_value_bool ''trust_x_forwarded_for'' config"
    "\<forall>n \<in> {''x-forwarded-for'', ''x-forwarded-proto'', ''x-forwarded-host'', ''forwarded''}. proxy_untouched env config socket_data parts n"
  shows "header_get_all ''x-forwarded-for'' (rp_headers parts') = [client_address socket_data] \<and>
    header_get_all ''x-forwarded-proto'' (rp_headers parts') = [scheme_text socket_data] \<and>
    header_get_all ''forwarded'' (rp_headers parts') = [] \<and>
    (\<forall>h. header_get ''host'' (rp_headers parts) = Some h \<longrightarrow> header_get_all ''x-forwarded-host'' (rp_headers parts') = [h])"
proof -
  obtain ch hs where d: "proxy_directives env config socket_data parts = Some ch" "rp_headers parts' = apply_headers ch hs"
    and b: "base_headers (option_value_bool ''trust_x_forwarded_for'' config) socket_data (pu_authority url) (rp_headers parts) hs"
    using construct_proxy_request_parts_Inr [OF assms(2)] by metis
  have "header_get_all n (rp_headers parts') = header_get_all n hs"
    if "proxy_untouched env config socket_data parts n" for n
    unfolding d(2) using d(1) that by (intro untouched_keeps [OF assms(1)]) (simp_all add: proxy_directives_def)
  with assms(3,4) b show ?thesis by (auto simp: base_headers_def forwarded_for_def split: option.splits)
qed

text \<open>A request that claims to come from elsewhere, a client and a backend.\<close>

definition forged_parts :: request_parts where
  "forged_parts = (req_parts plain_request)\<lparr>rp_headers := [(''host'', ''a''), (''x-forwarded-for'', ''::1''), (''x-forwarded-for'', ''::2''),
     (''x-forwarded-proto'', ''https''), (''forwarded'', ''for=x''), (''x-forwarded-host'', ''b'')]\<rparr>"

definition backend_url :: proxy_url where
  "backend_url = \<lparr>pu_authority = Some ''c:1'', pu_path = ''/app/''\<rparr>"

definition accept_uri :: "string \<Rightarrow> uri option" where
  "accept_uri s = Some \<lparr>uri_path = s, uri_query = None, uri_path_and_query = Some s, uri_host = None, uri_text = s\<rparr>"

definition empty_config :: "(unit, unit) ServerConfiguration" where
  "empty_config = default_config"

lemma header_names_lower_example: "header_names_lower example_page_env"
  by (simp add: header_names_lower_def example_page_env_def)

theorem forwarded_headers_genuine_witness:
  "\<exists>parts'. construct_proxy_request_parts example_page_env accept_uri forged_parts empty_config (client_socket (V4 1)) backend_url = Some (Inr parts') \<and>
     header_get_all ''x-forwarded-for'' (rp_headers parts') = [''0.0.0.1''] \<and> header_get_all ''x-forwarded-proto'' (rp_headers parts') = [''http''] \<and>
     header_get_all ''forwarded'' (rp_headers parts') = [] \<and> header_get_all ''x-forwarded-host'' (rp_headers parts') = [''a'']"
proof -
  let ?c = "construct_proxy_request_parts example_page_env accept_uri forged_parts empty_config (client_socket (V4 1)) backend_url"
  have "case ?c of Some (Inr p) \<Rightarrow> True | _ \<Rightarrow> False" by code_simp
  then obtain parts' where p: "?c = Some (Inr parts')" by (auto split: option.splits sum.splits)
  have e: "entries_of n empty_config = []" for n
    by (simp add: entries_of_def empty_config_def default_config_def get_entries_m_def)
  then have u: "\<forall>n \<in> {''x-forwarded-for'', ''x-forwarded-proto'', ''x-forwarded-host'', ''forwarded''}.
      proxy_untouched example_page_env empty_config (client_socket (V4 1)) forged_parts n"
    by (simp add: untouched_def directive_values_def List.map_filter_simps)
  have "\<not> option_value_bool ''trust_x_forwarded_for'' empty_config" "header_get ''host'' (rp_headers forged_parts) = Some ''a''"
    "client_address (client_socket (V4 1)) = ''0.0.0.1''" "scheme_text (client_socket (V4 1)) = ''http''"
    by code_simp+
  with forwarded_headers_genuine [OF header_names_lower_example p _ u] p show ?thesis by simp
qed

text \<open>
  Without a Host header (a request of HTTP/1.0) the client's own \<open>X-Forwarded-Host\<close>
  passes to the backend although the configuration does not trust it.
\<close>

lemma forwarded_host_forged:
  "set_forwarded False (client_socket (V4 1)) None [(''x-forwarded-host'', ''b'')] =
     Inr [(''x-forwarded-host'', ''b''), (''x-forwarded-for'', ''0.0.0.1''), (''x-forwarded-proto'', ''http'')]"
  by code_simp

text \<open>With trust, only the first of several \<open>X-Forwarded-For\<close> lines is passed on; the later ones are lost.\<close>

lemma forwarded_for_lines_lost:
  "forwarded_for True (client_socket (V4 1)) (rp_headers forged_parts) = ''::1, 0.0.0.1''"
  by code_simp

text \<open>A Connection header that asks to close after another token is prefixed with \<open>keep-alive\<close>.\<close>

lemma close_not_recognised:
  "connection_value [(''connection'', ''te, close'')] = Inr (Some ''keep-alive, te, close'')"
  by code_simp

end
