(* ===== verification/Proxy_Header.thy ===== *)
theory Proxy_Header
  imports Proxy_Protocol Http
begin

text \<open>
  The PROXY protocol header the reverse proxy writes to a backend before the request
  (\<open>proxy_header_to_write\<close> in \<open>ferron-modules-builtin/src/optional/rproxy.rs\<close>). Version 1 is text;
  version 2 is built by the crate \<open>ppp\<close>, a parameter here, of the addresses chosen by the source.
\<close>

section \<open>Definitions\<close>

fun is_v4 :: "IpAddr \<Rightarrow> bool" where
  "is_v4 (V4 a) = True"
| "is_v4 (V6 a) = False"

definition to_ipv6_mapped :: "u32 \<Rightarrow> u128" where
  "to_ipv6_mapped a = push_bit 32 0xFFFF + ucast a"

definition to_ipv4_mapped :: "u128 \<Rightarrow> u32 option" where
  "to_ipv4_mapped a = (if drop_bit 32 a = 0xFFFF then Some (ucast a) else None)"

text \<open>\<open>{:04x}\<close>: four hexadecimal digits of a 16-bit group.\<close>

definition hex4 :: "int \<Rightarrow> string" where
  "hex4 n = map (\<lambda>i. digit_char (n div 16 ^ i mod 16)) [3, 2, 1, 0]"

definition full_ipv6_str :: "u128 \<Rightarrow> string" where
  "full_ipv6_str a = join_with '':'' (map hex4 (groups a))"

definition both_v4 :: "SocketData \<Rightarrow> bool" where
  "both_v4 sd \<longleftrightarrow> is_v4 (to_canonical (sa_ip (local_addr sd))) \<and> is_v4 (to_canonical (sa_ip (remote_addr sd)))"

fun v4_address :: "IpAddr \<Rightarrow> u32 option" where
  "v4_address (V4 a) = Some a"
| "v4_address (V6 a) = to_ipv4_mapped a"

fun v6_address :: "IpAddr \<Rightarrow> u128" where
  "v6_address (V4 a) = to_ipv6_mapped a"
| "v6_address (V6 a) = a"

definition v1_address :: "bool \<Rightarrow> IpAddr \<Rightarrow> string option" where
  "v1_address is_ipv4 addr =
     (if is_ipv4 then map_option ipv4_str (v4_address (to_canonical addr))
      else Some (full_ipv6_str (v6_address (to_canonical addr))))"

definition v1_header :: "SocketData \<Rightarrow> string option" where
  "v1_header sd =
     Option.bind (v1_address (both_v4 sd) (sa_ip (local_addr sd))) (\<lambda>local_text.
     Option.bind (v1_address (both_v4 sd) (sa_ip (remote_addr sd))) (\<lambda>remote_text.
     Some (''PROXY '' @ (if both_v4 sd then ''TCP4'' else ''TCP6'') @ '' '' @ remote_text @ '' '' @ local_text @ '' '' @
       dec_str (uint (sa_port (remote_addr sd))) @ '' '' @ dec_str (uint (sa_port (local_addr sd))) @ [CHR 0x0D, CHR 0x0A])))"

definition v2_header_addresses :: "SocketData \<Rightarrow> v2_addresses option" where
  "v2_header_addresses sd =
     (let remote_ip = to_canonical (sa_ip (remote_addr sd)); local_ip = to_canonical (sa_ip (local_addr sd))
      in if both_v4 sd then
           Option.bind (v4_address remote_ip) (\<lambda>r. Option.bind (v4_address local_ip) (\<lambda>l.
             Some (V2_IPv4 r (sa_port (remote_addr sd)) l (sa_port (local_addr sd)))))
         else Some (V2_IPv6 (v6_address remote_ip) (sa_port (remote_addr sd)) (v6_address local_ip) (sa_port (local_addr sd))))"

text \<open>
  The bytes to write, \<open>Inr None\<close> for no header, an error where the addresses or the builder give none.
\<close>

definition proxy_header_to_write ::
  "(v2_addresses \<Rightarrow> bytes option) \<Rightarrow> string option \<Rightarrow> SocketData \<Rightarrow> string + bytes option" where
  "proxy_header_to_write build_v2 proxy_header sd =
     (if proxy_header = Some ''v1'' then
        (case v1_header sd of Some h \<Rightarrow> Inr (Some (map of_char h)) | None \<Rightarrow> Inl ''Connection IP address type mismatch'')
      else if proxy_header = Some ''v2'' then
        (case v2_header_addresses sd of
           None \<Rightarrow> Inl ''Connection IP address type mismatch''
         | Some addresses \<Rightarrow> (case build_v2 addresses of Some bs \<Rightarrow> Inr (Some bs) | None \<Rightarrow> Inl ''failed to build the header''))
      else Inr None)"

section \<open>The text of version 1\<close>

lemma to_canonical_both_v4:
  "both_v4 sd \<Longrightarrow> \<exists>l r. to_canonical (sa_ip (local_addr sd)) = V4 l \<and> to_canonical (sa_ip (remote_addr sd)) = V4 r"
  by (cases "to_canonical (sa_ip (local_addr sd))"; cases "to_canonical (sa_ip (remote_addr sd))") (auto simp: both_v4_def)

text \<open>The mismatch error cannot occur.\<close>

lemma v1_header_total: "v1_header sd \<noteq> None"
  using to_canonical_both_v4 [of sd] by (cases "both_v4 sd") (auto simp: v1_header_def v1_address_def)

lemma v2_header_addresses_total: "v2_header_addresses sd \<noteq> None"
  using to_canonical_both_v4 [of sd] by (cases "both_v4 sd") (auto simp: v2_header_addresses_def)

text \<open>Lengths: no text is longer than its largest number.\<close>

lemma radix_str_length: "0 \<le> n \<Longrightarrow> n < b ^ Suc k \<Longrightarrow> 2 \<le> b \<Longrightarrow> length (radix_str b n) \<le> Suc k"
proof (induction k arbitrary: n)
  case 0
  then show ?case by (subst radix_str.simps) simp
next
  case (Suc k)
  show ?case
  proof (cases "n < b")
    case False
    have "n div b < b ^ Suc k" 
    proof (rule ccontr)
      assume "\<not> n div b < b ^ Suc k"
      then have "b * b ^ Suc k \<le> b * (n div b)" using Suc.prems(3) by (intro mult_left_mono) auto
      also have "\<dots> \<le> n" using mult_div_mod_eq [of b n] pos_mod_sign [of b n] Suc.prems(3) by linarith
      finally show False using Suc.prems(2) by simp
    qed
    moreover have "0 \<le> n div b" using Suc.prems by (simp add: pos_imp_zdiv_nonneg_iff)
    ultimately have "length (radix_str b (n div b)) \<le> Suc k" using Suc.IH Suc.prems(3) by blast
    with False Suc.prems show ?thesis by (subst radix_str.simps) simp
  qed (subst radix_str.simps, simp)
qed

lemma dec_str_byte: "0 \<le> n \<Longrightarrow> n < 256 \<Longrightarrow> length (dec_str n) \<le> 3"
  using radix_str_length [of n 10 2] by (simp add: dec_str_def)

lemma dec_str_port: "length (dec_str (uint (p :: u16))) \<le> 5"
  using radix_str_length [of "uint p" 10 4] uint_lt2p [of p] by (simp add: dec_str_def)

lemma ipv4_str_length: "length (ipv4_str a) \<le> 15"
proof -
  have "length (dec_str (n mod 256)) \<le> 3" for n by (rule dec_str_byte) simp_all
  note l = this [of "uint (drop_bit 24 a)"] this [of "uint (drop_bit 16 a)"] this [of "uint (drop_bit 8 a)"] this [of "uint a"]
  show ?thesis using l by (simp add: ipv4_str_def octets_def)
qed

lemma length_hex4 [simp]: "length (hex4 n) = 4"
  by (simp add: hex4_def)

lemma join_hex4_length: "gs \<noteq> [] \<Longrightarrow> length (join_with '':'' (map hex4 gs)) + 1 = 5 * length gs"
  by (induction gs rule: induct_list012) simp_all

lemma full_ipv6_str_length: "length (full_ipv6_str a) = 39"
proof -
  have "length (groups a) = 8" by (simp add: groups_def)
  moreover from this have "groups a \<noteq> []" by auto
  ultimately show ?thesis using join_hex4_length [of "groups a"] by (simp add: full_ipv6_str_def)
qed

lemma v1_address_length: "v1_address is_ipv4 addr = Some t \<Longrightarrow> length t \<le> 39"
  by (auto simp: v1_address_def full_ipv6_str_length intro: le_trans [OF ipv4_str_length] split: if_splits)

text \<open>The characters of an address, none of which is a carriage return.\<close>

definition address_chars :: "char set" where
  "address_chars = set ''0123456789abcdefTCP.: ''"

lemma hex_digit_chars: "set ''0123456789abcdef'' \<subseteq> address_chars"
  by (simp add: address_chars_def)

lemma dec_str_chars_ok: "0 \<le> n \<Longrightarrow> set (dec_str n) \<subseteq> address_chars"
  by (rule subset_trans [OF set_dec_str hex_digit_chars])

lemma join_with_chars: "(\<And>s. s \<in> set ss \<Longrightarrow> set s \<subseteq> A) \<Longrightarrow> set sep \<subseteq> A \<Longrightarrow> set (join_with sep ss) \<subseteq> A"
  by (induction sep ss rule: join_with.induct) auto

lemma hex4_chars: "0 \<le> n \<Longrightarrow> set (hex4 n) \<subseteq> address_chars"
proof -
  have "digit_char (m mod 16) \<in> address_chars" for m :: int
    using digit_char_cases [of "m mod 16"] hex_digit_chars by fastforce
  then show ?thesis by (simp add: hex4_def)
qed

lemma ipv4_str_chars: "set (ipv4_str a) \<subseteq> address_chars"
  unfolding ipv4_str_def
proof (rule join_with_chars)
  show "set ''.'' \<subseteq> address_chars" by (simp add: address_chars_def)
  fix s assume "s \<in> set (map dec_str (octets a))"
  then obtain n where n: "s = dec_str (n mod 256)" by (auto simp: octets_def)
  show "set s \<subseteq> address_chars" unfolding n by (rule dec_str_chars_ok) simp
qed

lemma full_ipv6_str_chars: "set (full_ipv6_str a) \<subseteq> address_chars"
  unfolding full_ipv6_str_def
proof (rule join_with_chars)
  show "set '':'' \<subseteq> address_chars" by (simp add: address_chars_def)
  fix s assume "s \<in> set (map hex4 (groups a))"
  then obtain n where n: "s = hex4 (n mod 65536)" by (auto simp: groups_def)
  show "set s \<subseteq> address_chars" unfolding n by (rule hex4_chars) simp
qed

lemma v1_address_chars: "v1_address is_ipv4 addr = Some t \<Longrightarrow> set t \<subseteq> address_chars"
  using ipv4_str_chars full_ipv6_str_chars by (auto simp: v1_address_def split: if_splits)

lemma ends_at_crlf_plain: "p \<noteq> 13 \<Longrightarrow> 13 \<notin> set xs \<Longrightarrow> ends_at_crlf p (xs @ [13, 10])"
  by (induction xs arbitrary: p) auto

lemma address_bytes: "set t \<subseteq> address_chars \<Longrightarrow> (13 :: u8) \<notin> set (map of_char t)"
proof -
  assume "set t \<subseteq> address_chars"
  moreover have "\<forall>c \<in> address_chars. (of_char c :: u8) \<noteq> 13" by (simp add: address_chars_def)
  ultimately show ?thesis by force
qed

section \<open>The server's own reader accepts what the proxy writes\<close>

lemma v1_header_shape:
  assumes "v1_header sd = Some h"
  obtains t where "h = ''PROXY'' @ t @ [CHR 0x0D, CHR 0x0A]" "set t \<subseteq> address_chars" "length t \<le> 97"
proof -
  obtain l r where a: "v1_address (both_v4 sd) (sa_ip (local_addr sd)) = Some l" "v1_address (both_v4 sd) (sa_ip (remote_addr sd)) = Some r"
    and h: "h = ''PROXY '' @ (if both_v4 sd then ''TCP4'' else ''TCP6'') @ '' '' @ r @ '' '' @ l @ '' '' @
       dec_str (uint (sa_port (remote_addr sd))) @ '' '' @ dec_str (uint (sa_port (local_addr sd))) @ [CHR 0x0D, CHR 0x0A]"
    using assms by (auto simp: v1_header_def bind_eq_Some_conv)
  let ?t = "'' '' @ (if both_v4 sd then ''TCP4'' else ''TCP6'') @ '' '' @ r @ '' '' @ l @ '' '' @
       dec_str (uint (sa_port (remote_addr sd))) @ '' '' @ dec_str (uint (sa_port (local_addr sd)))"
  have "set ''TCP46 '' \<subseteq> address_chars" by (simp add: address_chars_def)
  then have "set ?t \<subseteq> address_chars"
    using v1_address_chars [OF a(1)] v1_address_chars [OF a(2)]
      dec_str_chars_ok [OF uint_ge_0 [of "sa_port (remote_addr sd)"]] dec_str_chars_ok [OF uint_ge_0 [of "sa_port (local_addr sd)"]] by simp
  moreover have "length ?t \<le> 97"
    using v1_address_length [OF a(1)] v1_address_length [OF a(2)] dec_str_port [of "sa_port (remote_addr sd)"] dec_str_port [of "sa_port (local_addr sd)"]
    by simp
  ultimately show ?thesis using that [of ?t] h by simp
qed

text \<open>
  C39: A version 1 header is always written, never longer than the 107 bytes of the specification, and
  Ferron's own reader of the PROXY protocol takes exactly this header off the stream, whatever the
  addresses and whatever follows: what its parser sees is the header, and the request is left.
\<close>

theorem v1_header_read_back:
  assumes "v1_protocol_prefix lib = [80, 82, 79, 88, 89]"
  shows "\<exists>bs. proxy_header_to_write build_v2 (Some ''v1'') sd = Inr (Some bs) \<and> length bs \<le> 107 \<and>
    read_proxy_header lib (bs @ rest) = header_outcome (ppp_parse lib (bs @ replicate (512 - length bs) 0)) rest"
proof -
  obtain h where h: "v1_header sd = Some h" using v1_header_total by blast
  obtain t where t: "h = ''PROXY'' @ t @ [CHR 0x0D, CHR 0x0A]" "set t \<subseteq> address_chars" "length t \<le> 97"
    by (rule v1_header_shape [OF h])
  let ?pre = "[80, 82, 79, 88, 89] :: bytes" and ?body = "map of_char t @ [13, 10] :: bytes"
  have bs: "map of_char h = ?pre @ ?body" by (simp add: t(1))
  have "ends_at_crlf (last ?pre) ?body" using address_bytes [OF t(2)] by (intro ends_at_crlf_plain) simp_all
  then have "read_proxy_header lib (?pre @ ?body @ rest) = header_outcome (ppp_parse lib (?pre @ ?body @ replicate (507 - length ?body) 0)) rest"
    using t(3) by (intro read_proxy_header_v1 [OF assms]) simp_all
  then have "read_proxy_header lib (map of_char h @ rest) = header_outcome (ppp_parse lib (map of_char h @ replicate (512 - length (map of_char h :: bytes)) 0)) rest"
    unfolding bs using t(3) by (simp add: numeral_eq_Suc)
  moreover have "length h \<le> 107" using t by simp
  ultimately show ?thesis using h by (simp add: proxy_header_to_write_def)
qed

lemma v1_header_first: "proxy_header_to_write build_v2 (Some ''v1'') sd = Inr (Some bs) \<Longrightarrow> bs \<noteq> [] \<and> hd bs = 80"
  by (auto simp: proxy_header_to_write_def split: option.splits elim!: v1_header_shape)

theorem v1_header_read_back_witness:
  "\<exists>bs. proxy_header_to_write (\<lambda>a. None) (Some ''v1'') (client_socket (V4 1)) = Inr (Some bs) \<and> read_proxy_header example_ppp (bs @ [71]) = IoOk ([71], None, None)"
proof -
  have pre: "v1_protocol_prefix example_ppp = [80, 82, 79, 88, 89]" by (simp add: example_ppp_def)
  obtain bs where bs: "proxy_header_to_write (\<lambda>a. None) (Some ''v1'') (client_socket (V4 1)) = Inr (Some bs)"
    "read_proxy_header example_ppp (bs @ [71]) = header_outcome (ppp_parse example_ppp (bs @ replicate (512 - length bs) 0)) [71]"
    using v1_header_read_back [OF pre, of "\<lambda>a. None" "client_socket (V4 1)" "[71]"] by blast
  from v1_header_first [OF bs(1)] have "hd (bs @ replicate (512 - length bs) 0) = 80" by simp
  then have "ppp_parse example_ppp (bs @ replicate (512 - length bs) 0) = HV1 (Some V1_Unknown)" by (simp add: example_ppp_def)
  with bs show ?thesis by (simp add: header_outcome_def)
qed

end
