(* ===== verification/Reverse_Proxy.thy ===== *)
theory Reverse_Proxy
  imports Load_Balancer Proxy_Request Proxy_Header
begin

text \<open>
  The request handler of the reverse proxy, \<open>ferron-modules-builtin/src/optional/rproxy.rs\<close>: reuse of kept
  connections, one attempt at a backend, the retry loop, and metrics. The network is a parameter: what
  the pool yields, whether each step of connecting succeeds and what the backend replies, for every
  attempt and backend (\<open>attempt_net\<close>). What the proxy does on the network is recorded as a list of
  actions. The conversion of streams for \<open>monoio\<close> is a step that the build for \<open>tokio\<close> does not have.
\<close>

section \<open>Definitions\<close>

text \<open>\<open>SendRequestWrapper\<close>: a pooled connection, which a request takes out, and when it was put there.\<close>

record 'c SendRequestWrapper =
  sw_inner :: "'c option"
  sw_instant :: nat

definition wrapper_new :: "nat \<Rightarrow> 'c \<Rightarrow> 'c SendRequestWrapper" where
  "wrapper_new now sender = \<lparr>sw_inner = Some sender, sw_instant = now\<rparr>"

definition too_idle :: "nat \<Rightarrow> nat option \<Rightarrow> 'c SendRequestWrapper \<Rightarrow> bool" where
  "too_idle now timeout w = (case timeout of Some t \<Rightarrow> now - sw_instant w > t | None \<Rightarrow> False)"

definition wrapper_get ::
  "('c \<Rightarrow> bool) \<Rightarrow> ('c \<Rightarrow> bool) \<Rightarrow> nat \<Rightarrow> nat option \<Rightarrow> 'c SendRequestWrapper \<Rightarrow> ('c option \<times> bool) \<times> 'c SendRequestWrapper" where
  "wrapper_get is_closed sender_ready now timeout w =
     (case sw_inner w of
        None \<Rightarrow> ((None, False), w)
      | Some sender \<Rightarrow>
          (let is_ready = sender_ready sender \<and> \<not> is_closed sender
           in if is_closed sender \<or> is_ready \<and> too_idle now timeout w then ((None, False), w)
              else if is_ready then ((Some sender, True), w\<lparr>sw_inner := None\<rparr>)
              else ((None, True), w\<lparr>sw_instant := now\<rparr>)))"

text \<open>\<open>becomes_ready\<close> is what awaiting \<open>ready\<close> of the connection gives.\<close>

definition wait_ready ::
  "('c \<Rightarrow> bool) \<Rightarrow> ('c \<Rightarrow> bool) \<Rightarrow> ('c \<Rightarrow> bool) \<Rightarrow> nat \<Rightarrow> nat option \<Rightarrow> 'c SendRequestWrapper \<Rightarrow> bool" where
  "wait_ready is_closed sender_ready becomes_ready now timeout w =
     (case sw_inner w of
        None \<Rightarrow> False
      | Some sender \<Rightarrow>
          if sender_ready sender \<and> \<not> is_closed sender \<and> too_idle now timeout w then False
          else \<not> is_closed sender \<and> becomes_ready sender)"

text \<open>
  The loop that pulls an item from the pool. An event is the next item the loop obtains, from the pool or
  from the items it waits for, with the state of its connection at that time; without a connection the
  item is a free slot.
\<close>

record 'c pool_event =
  ev_item :: "'c SendRequestWrapper option"
  ev_closed :: "'c \<Rightarrow> bool"
  ev_ready :: "'c \<Rightarrow> bool"
  ev_now :: nat

datatype 'c pool_result = Reuse 'c | Fresh | Waiting

fun pull_loop :: "nat option \<Rightarrow> 'c pool_event list \<Rightarrow> 'c pool_result" where
  "pull_loop timeout [] = Waiting"
| "pull_loop timeout (e # es) =
     (case ev_item e of
        None \<Rightarrow> Fresh
      | Some w \<Rightarrow>
          (case fst (wrapper_get (ev_closed e) (ev_ready e) (ev_now e) timeout w) of
             (Some sender, True) \<Rightarrow> Reuse sender
           | _ \<Rightarrow> pull_loop timeout es))"

datatype connect_error = ConnectionRefused | NotFound | HostUnreachable | TimedOut | OtherError

fun connect_status :: "connect_error \<Rightarrow> nat" where
  "connect_status ConnectionRefused = 503"
| "connect_status NotFound = 503"
| "connect_status HostUnreachable = 503"
| "connect_status TimedOut = 504"
| "connect_status OtherError = 502"

text \<open>A reply says whether the connection is closed after it, and whether both sides were upgraded.\<close>

datatype backend_reply = Send_failed | Replied response bool bool

record 'c attempt_net =
  an_now :: nat
  an_pool :: "'c pool_event list"
  an_connect :: "connect_error option"
  an_nodelay :: bool
  an_compat :: bool
  an_write :: bool
  an_tls :: bool
  an_alpn_h2 :: bool
  an_handshake :: bool
  an_reply :: backend_reply

datatype proxy_action =
    Pull backend_key "IpAddr option"
  | Dial_tcp string
  | Dial_unix string
  | Write_header bytes
  | Start_tls bool "string list"
  | Handshake bool
  | Reuse_connection
  | Send request_parts string
  | Tunnel
  | Keep

datatype attempt_outcome =
    Attempt_error string
  | Attempt_failed nat
  | Attempt_waits
  | Attempt_answer ResponseData bool

text \<open>What is read of the URL of a backend, and the crates' parsers and builders.\<close>

record backend_uri =
  bu_scheme :: "string option"
  bu_host :: "string option"
  bu_port :: "u16 option"
  bu_url :: proxy_url

record proxy_env =
  pe_page :: page_env
  pe_parse_uri :: "string \<Rightarrow> uri option"
  pe_parse_url :: "string \<Rightarrow> backend_uri option"
  pe_build_v2 :: "v2_addresses \<Rightarrow> bytes option"
  pe_server_name :: "string \<Rightarrow> bool"
  pe_verifier :: bool

definition option_bool_or :: "bool \<Rightarrow> string \<Rightarrow> ('m, 'o) ServerConfiguration \<Rightarrow> bool" where
  "option_bool_or dflt name config = (case Option.bind (get_value_m name config) as_bool of Some b \<Rightarrow> b | None \<Rightarrow> dflt)"

definition answer_status :: "nat \<Rightarrow> ResponseData" where
  "answer_status st = \<lparr>rd_request = None, rd_response = None, rd_response_status = Some st, rd_response_headers = None, rd_new_remote_address = None\<rparr>"

definition proxy_answer :: "bool \<Rightarrow> response \<Rightarrow> ResponseData" where
  "proxy_answer intercept_errors r =
     (if intercept_errors \<and> 400 \<le> resp_status r then answer_status (resp_status r)
      else \<lparr>rd_request = None, rd_response = Some r, rd_response_status = None, rd_response_headers = None, rd_new_remote_address = None\<rparr>)"

text \<open>
  \<open>http_proxy\<close>; for a connection that was reused, \<open>http_proxy_kept_alive\<close>, the same with keep-alive. The
  flag of the answer says that its body holds the reference that counts the connection.
\<close>

definition http_proxy :: "bool \<Rightarrow> bool \<Rightarrow> bool \<Rightarrow> backend_reply \<Rightarrow> proxy_action list \<times> attempt_outcome" where
  "http_proxy intercept_errors tracked enable_keepalive reply =
     (case reply of
        Send_failed \<Rightarrow> ([], Attempt_answer (answer_status 502) False)
      | Replied r closed upgraded \<Rightarrow>
          ((if resp_status r = 101 \<and> upgraded then [Tunnel] else []) @ (if enable_keepalive \<and> \<not> closed then [Keep] else []),
           Attempt_answer (proxy_answer intercept_errors r) (tracked \<and> \<not> (intercept_errors \<and> 400 \<le> resp_status r))))"

definition http_proxy_kept_alive :: "bool \<Rightarrow> bool \<Rightarrow> backend_reply \<Rightarrow> proxy_action list \<times> attempt_outcome" where
  "http_proxy_kept_alive intercept_errors tracked reply = http_proxy intercept_errors tracked True reply"

text \<open>Steps that must all succeed; the first that fails gives the outcome.\<close>

fun run_stages :: "(proxy_action list \<times> bool \<times> attempt_outcome) list \<Rightarrow> proxy_action list \<times> attempt_outcome option" where
  "run_stages [] = ([], None)"
| "run_stages ((acts, ok, failed) # stages) =
     (if ok then let (acts', r) = run_stages stages in (acts @ acts', r) else (acts, Some failed))"

definition http2_for_tls :: "('m, 'o) ServerConfiguration \<Rightarrow> request_parts \<Rightarrow> bool" where
  "http2_for_tls config parts \<longleftrightarrow>
     option_value_bool ''proxy_http2_only'' config \<or>
     option_value_bool ''proxy_http2'' config \<and> \<not> header_contains ''upgrade'' (rp_headers parts)"

definition alpn_protocols :: "('m, 'o) ServerConfiguration \<Rightarrow> request_parts \<Rightarrow> string list" where
  "alpn_protocols config parts =
     (if option_value_bool ''proxy_http2_only'' config then [''h2'']
      else if http2_for_tls config parts then [''h2'', ''http/1.1'', ''http/1.0'']
      else [''http/1.1'', ''http/1.0''])"

definition keepalive_enabled :: "('m, 'o) ServerConfiguration \<Rightarrow> request_parts \<Rightarrow> bool" where
  "keepalive_enabled config parts \<longleftrightarrow>
     (option_value_bool ''proxy_http2_only'' config \<or> \<not> option_value_bool ''proxy_http2'' config \<or>
      \<not> header_contains ''upgrade'' (rp_headers parts)) \<and>
     option_bool_or True ''proxy_keepalive'' config"

definition proxy_header_of :: "('m, 'o) ServerConfiguration \<Rightarrow> string option" where
  "proxy_header_of config = Option.bind (get_value_m ''proxy_proxy_header'' config) as_str"

text \<open>What is decided before the pool is asked: scheme, host, address and the request to send.\<close>

record target =
  tg_encrypted :: bool
  tg_host :: string
  tg_addr :: string
  tg_parts :: request_parts

definition port_of :: "backend_uri \<Rightarrow> u16" where
  "port_of u = (case bu_port u of Some p \<Rightarrow> p | None \<Rightarrow> if bu_scheme u = Some ''https'' then 443 else 80)"

definition prepare ::
  "proxy_env \<Rightarrow> ('m, 'o) ServerConfiguration \<Rightarrow> SocketData \<Rightarrow> request_parts option \<Rightarrow> string \<Rightarrow> attempt_outcome + target" where
  "prepare env config socket_data parts_option proxy_to =
     (case pe_parse_url env proxy_to of
        None \<Rightarrow> Inl (Attempt_error ''invalid URL'')
      | Some u \<Rightarrow>
          if bu_scheme u \<noteq> Some ''http'' \<and> bu_scheme u \<noteq> Some ''https''
          then Inl (Attempt_error ''Only HTTP and HTTPS reverse proxy URLs are supported.'')
          else case bu_host u of
            None \<Rightarrow> Inl (Attempt_error ''The reverse proxy URL doesn't include the host'')
          | Some host \<Rightarrow>
              (case parts_option of
                 None \<Rightarrow> Inl (Attempt_error ''Request parts not found'')
               | Some parts \<Rightarrow>
                   (case construct_proxy_request_parts (pe_page env) (pe_parse_uri env) parts config socket_data (bu_url u) of
                      None \<Rightarrow> Inl Attempt_waits
                    | Some (Inl e) \<Rightarrow> Inl (Attempt_error e)
                    | Some (Inr parts') \<Rightarrow>
                        Inr \<lparr>tg_encrypted = (bu_scheme u = Some ''https''), tg_host = host,
                          tg_addr = host @ '':'' @ dec_str (uint (port_of u)), tg_parts = parts'\<rparr>)))"

text \<open>The steps of a connection: to a Unix socket or by TCP, the PROXY header, TLS, and the handshake of HTTP.\<close>

definition dial_failed :: "'c attempt_net \<Rightarrow> attempt_outcome" where
  "dial_failed net = Attempt_failed (case an_connect net of Some e \<Rightarrow> connect_status e | None \<Rightarrow> 502)"

definition unix_stages :: "string \<Rightarrow> 'c attempt_net \<Rightarrow> (proxy_action list \<times> bool \<times> attempt_outcome) list" where
  "unix_stages path net =
     [([Dial_unix path], an_connect net = None, dial_failed net),
      ([], an_compat net, Attempt_failed 502)]"

definition tcp_stages :: "string \<Rightarrow> 'c attempt_net \<Rightarrow> (proxy_action list \<times> bool \<times> attempt_outcome) list" where
  "tcp_stages addr net =
     [([Dial_tcp addr], an_connect net = None, dial_failed net),
      ([], an_nodelay net, Attempt_failed 502),
      ([], an_compat net, Attempt_failed 502)]"

definition header_stages :: "string + bytes option \<Rightarrow> 'c attempt_net \<Rightarrow> (proxy_action list \<times> bool \<times> attempt_outcome) list" where
  "header_stages proxy_header net =
     (case proxy_header of
        Inl e \<Rightarrow> [([], False, Attempt_error e)]
      | Inr None \<Rightarrow> []
      | Inr (Some bs) \<Rightarrow> [([Write_header bs], an_write net, Attempt_failed 502)])"

definition tls_stages ::
  "proxy_env \<Rightarrow> ('m, 'o) ServerConfiguration \<Rightarrow> target \<Rightarrow> 'c attempt_net \<Rightarrow> (proxy_action list \<times> bool \<times> attempt_outcome) list" where
  "tls_stages env config tg net =
     (let disable_certificate_verification = option_value_bool ''proxy_no_verification'' config
      in [([], disable_certificate_verification \<or> pe_verifier env, Attempt_error ''no certificate verifier''),
          ([], pe_server_name env (tg_host tg), Attempt_error ''invalid server name''),
          ([Start_tls (\<not> disable_certificate_verification) (alpn_protocols config (tg_parts tg))], an_tls net, Attempt_failed 502)])"

definition connect_stages ::
  "proxy_env \<Rightarrow> ('m, 'o) ServerConfiguration \<Rightarrow> SocketData \<Rightarrow> string option \<Rightarrow> target \<Rightarrow> 'c attempt_net \<Rightarrow>
     (proxy_action list \<times> bool \<times> attempt_outcome) list" where
  "connect_stages env config socket_data proxy_unix tg net =
     (case proxy_unix of Some path \<Rightarrow> unix_stages path net | None \<Rightarrow> tcp_stages (tg_addr tg) net) @
     header_stages (proxy_header_to_write (pe_build_v2 env) (proxy_header_of config) socket_data) net @
     (if tg_encrypted tg then tls_stages env config tg net else []) @
     [([Handshake (if tg_encrypted tg then http2_for_tls config (tg_parts tg) \<and> an_alpn_h2 net
                   else option_value_bool ''proxy_http2_only'' config)],
       an_handshake net, Attempt_failed 502)]"

lemmas stage_defs = connect_stages_def dial_failed_def unix_stages_def tcp_stages_def header_stages_def tls_stages_def Let_def

definition pool_client_ip :: "('m, 'o) ServerConfiguration \<Rightarrow> SocketData \<Rightarrow> IpAddr option" where
  "pool_client_ip config socket_data =
     (if proxy_header_of config = Some ''v1'' \<or> proxy_header_of config = Some ''v2''
      then Some (to_canonical (sa_ip (remote_addr socket_data))) else None)"

definition exchange ::
  "proxy_env \<Rightarrow> ('m, 'o) ServerConfiguration \<Rightarrow> SocketData \<Rightarrow> string \<Rightarrow> bool \<Rightarrow> backend \<Rightarrow> target \<Rightarrow> 'c attempt_net \<Rightarrow>
     proxy_action list \<times> attempt_outcome" where
  "exchange env config socket_data body tracked b tg net =
     (let intercept_errors = option_value_bool ''proxy_intercept_errors'' config;
          idle_timeout = snd (snd (snd b));
          pull = Pull (backend_key_of b) (pool_client_ip config socket_data)
      in case pull_loop idle_timeout (an_pool net) of
           Waiting \<Rightarrow> ([pull], Attempt_waits)
         | Reuse sender \<Rightarrow>
             (let (acts, outcome) = http_proxy_kept_alive intercept_errors tracked (an_reply net)
              in ([pull, Reuse_connection, Send (tg_parts tg) body] @ acts, outcome))
         | Fresh \<Rightarrow>
             (case run_stages (connect_stages env config socket_data (fst (snd b)) tg net) of
                (acts, Some failure) \<Rightarrow> (pull # acts, failure)
              | (acts, None) \<Rightarrow>
                  (let (acts', outcome) = http_proxy intercept_errors tracked (keepalive_enabled config (tg_parts tg)) (an_reply net)
                   in (pull # acts @ [Send (tg_parts tg) body] @ acts', outcome))))"

subsection \<open>Counting connections, and one attempt\<close>

fun tracking :: "LoadBalancerAlgorithm \<Rightarrow> connection_track option" where
  "tracking (LeastConnections track) = Some track"
| "tracking (TwoRandomChoices track) = Some track"
| "tracking _ = None"

fun map_tracking :: "(connection_track \<Rightarrow> connection_track) \<Rightarrow> LoadBalancerAlgorithm \<Rightarrow> LoadBalancerAlgorithm" where
  "map_tracking f (LeastConnections track) = LeastConnections (f track)"
| "map_tracking f (TwoRandomChoices track) = TwoRandomChoices (f track)"
| "map_tracking f algorithm = algorithm"

text \<open>Cloning the counter of a backend, entering it first if it is not tracked; and dropping a clone.\<close>

definition hold_connection :: "backend_key \<Rightarrow> LoadBalancerAlgorithm \<Rightarrow> LoadBalancerAlgorithm" where
  "hold_connection key = map_tracking (\<lambda>track. track(key \<mapsto> tracked_count key track + 1))"

definition release_connection :: "backend_key \<Rightarrow> LoadBalancerAlgorithm \<Rightarrow> LoadBalancerAlgorithm" where
  "release_connection key = map_tracking (\<lambda>track. track(key \<mapsto> tracked_count key track - 1))"

record 'g proxy_state =
  ps_failed :: failed_backends
  ps_algorithm :: LoadBalancerAlgorithm
  ps_rng :: 'g
  ps_selected :: "backend_key list option"
  ps_unhealthy :: "backend_key list option"
  ps_reused :: bool
  ps_actions :: "proxy_action list"

definition note_selected :: "backend_key \<Rightarrow> 'g proxy_state \<Rightarrow> 'g proxy_state" where
  "note_selected key s = s\<lparr>ps_selected := map_option (\<lambda>ks. ks @ [key]) (ps_selected s)\<rparr>"

definition note_failure :: "bool \<Rightarrow> nat \<Rightarrow> backend_key \<Rightarrow> 'g proxy_state \<Rightarrow> 'g proxy_state" where
  "note_failure enable_health_check now key s =
     (if enable_health_check
      then s\<lparr>ps_unhealthy := map_option (\<lambda>ks. ks @ [key]) (ps_unhealthy s), ps_failed := record_failure now key (ps_failed s)\<rparr>
      else s)"

text \<open>One attempt; the counter is held from before the pool is asked until the attempt ends.\<close>

definition proxy_attempt ::
  "proxy_env \<Rightarrow> ('m, 'o) ServerConfiguration \<Rightarrow> SocketData \<Rightarrow> string \<Rightarrow> request_parts option \<Rightarrow> backend \<Rightarrow> 'c attempt_net \<Rightarrow>
     'g proxy_state \<Rightarrow> attempt_outcome \<times> 'g proxy_state" where
  "proxy_attempt env config socket_data body parts_option b net s =
     (case prepare env config socket_data parts_option (fst b) of
        Inl outcome \<Rightarrow> (outcome, s)
      | Inr tg \<Rightarrow>
          (let held = hold_connection (backend_key_of b) (ps_algorithm s);
               (acts, outcome) = exchange env config socket_data body (tracking (ps_algorithm s) \<noteq> None) b tg net;
               keeps = (case outcome of Attempt_answer r body_holds \<Rightarrow> body_holds | Attempt_waits \<Rightarrow> True | _ \<Rightarrow> False)
           in (outcome, s\<lparr>ps_actions := ps_actions s @ acts, ps_reused := (ps_reused s \<or> Reuse_connection \<in> set acts),
                ps_algorithm := (if keeps then held else release_connection (backend_key_of b) held)\<rparr>)))"

section \<open>The retry loop\<close>

text \<open>A backend that is chosen is taken off the list, so every retry has fewer of them.\<close>

lemma vec_remove_shorter: "vec_remove i vec = Some (b, vec') \<Longrightarrow> length vec' < length vec"
  by (rule vec_remove_Some(3))

lemma healthy_loop_shorter:
  "healthy_loop rr now failed max_fails prev vec algorithm g = Some (r, vec', algorithm', g') \<Longrightarrow> vec \<noteq> [] \<Longrightarrow> length vec' < length vec"
proof (induction rr now failed max_fails prev vec algorithm g rule: healthy_loop.induct)
  case (1 rr now failed max_fails prev vec algorithm g)
  obtain i a1 g1 where s: "select_backend_index rr algorithm vec g = (i, a1, g1)" by (metis prod_cases3)
  show ?case
  proof (cases "vec_remove i vec")
    case None
    then show ?thesis using "1.prems" s by (simp add: healthy_loop.simps [of rr _ _ _ _ vec])
  next
    case (Some x)
    obtain b vec1 where x: "vec_remove i vec = Some (b, vec1)" using Some by (cases x) auto
    have l: "length vec1 < length vec" by (rule vec_remove_shorter [OF x])
    show ?thesis
    proof (cases "backend_healthy now failed max_fails b")
      case True
      then show ?thesis using "1.prems" s x l by (simp add: healthy_loop.simps [of rr _ _ _ _ vec])
    next
      case False
      then have h: "healthy_loop rr now failed max_fails (Some b) vec1 a1 g1 = Some (r, vec', algorithm', g')"
        using "1.prems" s x by (simp add: healthy_loop.simps [of rr _ _ _ _ vec])
      show ?thesis
      proof (cases "vec1 = []")
        case True
        then show ?thesis using h l by (simp add: healthy_loop.simps [of rr _ _ _ _ "[]"])
      next
        case more: False
        from "1.IH" [OF "1.prems"(2) s [symmetric] refl refl x refl False h more] l show ?thesis by simp
      qed
    qed
  qed
qed

lemma determine_proxy_to_shorter:
  "determine_proxy_to rr now failed enable max_fails vec algorithm g = Some (Some b, vec', algorithm', g') \<Longrightarrow> length vec' < length vec"
  by (auto simp: determine_proxy_to_def healthy_loop_shorter vec_remove_shorter split: if_splits prod.splits option.splits)

datatype proxy_result = Returned "string + ResponseData" | Panicked | Awaits

text \<open>
  What a request needs: the network of every attempt and backend is \<open>net\<close>; the request parts are taken
  out by the attempt at the last candidate and copied by the others.
\<close>

function proxy_loop ::
  "proxy_env \<Rightarrow> ('m, 'o) ServerConfiguration \<Rightarrow> SocketData \<Rightarrow> u64 \<Rightarrow> request \<Rightarrow> (nat \<Rightarrow> 'g \<Rightarrow> nat \<times> 'g) \<Rightarrow>
     (nat \<Rightarrow> backend_key \<Rightarrow> 'c attempt_net) \<Rightarrow> (nat \<Rightarrow> nat) \<Rightarrow> nat \<Rightarrow> request_parts option \<Rightarrow> backend list \<Rightarrow> 'g proxy_state \<Rightarrow>
     proxy_result \<times> 'g proxy_state" where
  "proxy_loop env config socket_data max_fails req rr net clock i parts_option vec s =
     (let enable_health_check = option_value_bool ''lb_health_check'' config
      in case determine_proxy_to rr (clock i) (ps_failed s) enable_health_check max_fails vec (ps_algorithm s) (ps_rng s) of
           None \<Rightarrow> (Panicked, s)
         | Some (None, vec', algorithm', g') \<Rightarrow>
             (Returned (case parts_option of
                None \<Rightarrow> Inl ''Request parts are missing''
              | Some parts \<Rightarrow> Inr (pass_on (req\<lparr>req_parts := parts\<rparr>))), s\<lparr>ps_algorithm := algorithm', ps_rng := g'\<rparr>)
         | Some (Some b, vec', algorithm', g') \<Rightarrow>
             (let key = backend_key_of b;
                  s1 = note_selected key (s\<lparr>ps_algorithm := algorithm', ps_rng := g'\<rparr>);
                  (outcome, s2) = proxy_attempt env config socket_data (req_body req) parts_option b (net i key) s1
              in case outcome of
                   Attempt_error e \<Rightarrow> (Returned (Inl e), s2)
                 | Attempt_waits \<Rightarrow> (Awaits, s2)
                 | Attempt_answer r body_holds \<Rightarrow> (Returned (Inr r), s2)
                 | Attempt_failed st \<Rightarrow>
                     (let s3 = note_failure enable_health_check (an_now (net i key)) key s2
                      in if option_bool_or True ''lb_retry_connection'' config \<and> vec' \<noteq> []
                         then proxy_loop env config socket_data max_fails req rr net clock (Suc i)
                                (if vec' = [] then None else parts_option) vec' s3
                         else (Returned (Inr (answer_status st)), s3))))"
  by pat_completeness auto
termination
  by (relation "measure (\<lambda>(env, config, socket_data, max_fails, req, rr, net, clock, i, parts_option, vec, s). length vec)")
    (auto dest: determine_proxy_to_shorter)

declare proxy_loop.simps [simp del]

text \<open>\<open>ReverseProxyModule\<close> and its handlers: what is shared by the requests, and what is theirs.\<close>

record ReverseProxyModule =
  rm_failed_backends :: failed_backends
  rm_algorithm :: LoadBalancerAlgorithm
  rm_proxy_to :: "backend list"
  rm_max_fails :: u64

definition proxy_state_new :: "ReverseProxyModule \<Rightarrow> 'g \<Rightarrow> 'g proxy_state" where
  "proxy_state_new m g = \<lparr>ps_failed = rm_failed_backends m, ps_algorithm = rm_algorithm m, ps_rng = g,
     ps_selected = None, ps_unhealthy = None, ps_reused = False, ps_actions = []\<rparr>"

definition proxy_request_handler ::
  "proxy_env \<Rightarrow> ReverseProxyModule \<Rightarrow> ('m, 'o) ServerConfiguration \<Rightarrow> SocketData \<Rightarrow> (nat \<Rightarrow> 'g \<Rightarrow> nat \<times> 'g) \<Rightarrow>
     (nat \<Rightarrow> backend_key \<Rightarrow> 'c attempt_net) \<Rightarrow> (nat \<Rightarrow> nat) \<Rightarrow> request \<Rightarrow> 'g proxy_state \<Rightarrow> proxy_result \<times> 'g proxy_state" where
  "proxy_request_handler env m config socket_data rr net clock req s =
     proxy_loop env config socket_data (rm_max_fails m) req rr net clock 0 (Some (req_parts req)) (rm_proxy_to m) s"

definition proxy_metric_before :: "'g proxy_state \<Rightarrow> 'g proxy_state" where
  "proxy_metric_before s = s\<lparr>ps_selected := Some [], ps_unhealthy := Some []\<rparr>"

definition backend_attributes :: "backend_key \<Rightarrow> (string \<times> string) list" where
  "backend_attributes key =
     (''ferron.proxy.backend_url'', fst key) # (case snd key of Some u \<Rightarrow> [(''ferron.proxy.backend_unix_path'', u)] | None \<Rightarrow> [])"

text \<open>The counters sent: name and attributes.\<close>

definition proxy_metric_after :: "'g proxy_state \<Rightarrow> (string \<times> (string \<times> string) list) list \<times> 'g proxy_state" where
  "proxy_metric_after s =
     ((case ps_selected s of Some ks \<Rightarrow> map (\<lambda>k. (''ferron.proxy.backends.selected'', backend_attributes k)) ks | None \<Rightarrow> []) @
      (case ps_unhealthy s of Some ks \<Rightarrow> map (\<lambda>k. (''ferron.proxy.backends.unhealthy'', backend_attributes k)) ks | None \<Rightarrow> []) @
      [(''ferron.proxy.requests'', [(''ferron.proxy.connection_reused'', if ps_reused s then ''true'' else ''false'')])],
      s\<lparr>ps_selected := None, ps_unhealthy := None\<rparr>)"

section \<open>Reasoning about the loop\<close>

text \<open>A rule for invariants \<open>I\<close> of the loop and a property \<open>Q\<close> of its results.\<close>

lemma proxy_loop_rule:
  fixes net :: "nat \<Rightarrow> backend_key \<Rightarrow> 'c attempt_net" and s :: "'g proxy_state"
  assumes "I i parts_option vec s"
    and panic: "\<And>i p vec s. I i p vec s \<Longrightarrow>
      determine_proxy_to rr (clock i) (ps_failed s) (option_value_bool ''lb_health_check'' config) max_fails vec (ps_algorithm s) (ps_rng s) = None \<Longrightarrow>
      Q Panicked s"
    and pass: "\<And>i p vec s vec' a g. I i p vec s \<Longrightarrow>
      determine_proxy_to rr (clock i) (ps_failed s) (option_value_bool ''lb_health_check'' config) max_fails vec (ps_algorithm s) (ps_rng s) =
        Some (None, vec', a, g) \<Longrightarrow>
      Q (Returned (case p of None \<Rightarrow> Inl ''Request parts are missing'' | Some parts \<Rightarrow> Inr (pass_on (req\<lparr>req_parts := parts\<rparr>))))
        (s\<lparr>ps_algorithm := a, ps_rng := g\<rparr>)"
    and attempt: "\<And>i p vec s b vec' a g outcome s2. I i p vec s \<Longrightarrow>
      determine_proxy_to rr (clock i) (ps_failed s) (option_value_bool ''lb_health_check'' config) max_fails vec (ps_algorithm s) (ps_rng s) =
        Some (Some b, vec', a, g) \<Longrightarrow>
      proxy_attempt env config socket_data (req_body req) p b (net i (backend_key_of b))
        (note_selected (backend_key_of b) (s\<lparr>ps_algorithm := a, ps_rng := g\<rparr>)) = (outcome, s2) \<Longrightarrow>
      (case outcome of
         Attempt_error e \<Rightarrow> Q (Returned (Inl e)) s2
       | Attempt_waits \<Rightarrow> Q Awaits s2
       | Attempt_answer r body_holds \<Rightarrow> Q (Returned (Inr r)) s2
       | Attempt_failed st \<Rightarrow>
           (let s3 = note_failure (option_value_bool ''lb_health_check'' config) (an_now (net i (backend_key_of b))) (backend_key_of b) s2
            in if option_bool_or True ''lb_retry_connection'' config \<and> vec' \<noteq> [] then I (Suc i) p vec' s3
               else Q (Returned (Inr (answer_status st))) s3))"
  shows "case proxy_loop env config socket_data max_fails req rr net clock i parts_option vec s of (r, s') \<Rightarrow> Q r s'"
  using assms(1)
proof (induction "length vec" arbitrary: i parts_option vec s rule: less_induct)
  case less
  let ?d = "determine_proxy_to rr (clock i) (ps_failed s) (option_value_bool ''lb_health_check'' config) max_fails vec (ps_algorithm s) (ps_rng s)"
  show ?case
  proof (cases ?d)
    case None
    then show ?thesis using panic [OF less.prems None] by (simp add: proxy_loop.simps [where vec = vec])
  next
    case (Some x)
    obtain choice vec' a g where x: "x = (choice, vec', a, g)" by (metis prod_cases4)
    show ?thesis
    proof (cases choice)
      case None
      then show ?thesis using pass [OF less.prems] Some x by (simp add: proxy_loop.simps [where vec = vec])
    next
      case (Some b)
      with \<open>?d = Some x\<close> x have d: "?d = Some (Some b, vec', a, g)" by simp
      let ?s1 = "note_selected (backend_key_of b) (s\<lparr>ps_algorithm := a, ps_rng := g\<rparr>)"
      obtain outcome s2 where o: "proxy_attempt env config socket_data (req_body req) parts_option b (net i (backend_key_of b)) ?s1 = (outcome, s2)"
        by force
      note step = attempt [OF less.prems d o]
      have "length vec' < length vec" by (rule determine_proxy_to_shorter [OF d])
      note again = less.hyps [OF this]
      show ?thesis unfolding proxy_loop.simps [where vec = vec]
        using step d o by (cases outcome) (auto simp: Let_def intro!: again)
    qed
  qed
qed

lemma determine_total: "rng_ok rr \<Longrightarrow> determine_proxy_to rr now failed enable max_fails vec algorithm g \<noteq> None"
proof (cases "vec = []")
  case False
  assume "rng_ok rr"
  from determine_proxy_to_healthy [OF this False, of now failed enable max_fails algorithm g] show ?thesis by auto
qed (simp add: determine_proxy_to_def)

lemma determine_chosen:
  assumes "rng_ok rr" "determine_proxy_to rr now failed enable max_fails vec algorithm g = Some (Some b, vec', a, g')"
  shows "b \<in> set vec" "mset vec' + {#b#} \<subseteq># mset vec" "set vec' \<subseteq> set vec"
proof -
  have "vec \<noteq> []" using assms(2) by (auto simp: determine_proxy_to_def)
  from determine_proxy_to_healthy [OF assms(1) this, of now failed enable max_fails algorithm g] assms(2)
  show b: "b \<in> set vec" and m: "mset vec' + {#b#} \<subseteq># mset vec" by auto
  show "set vec' \<subseteq> set vec" using set_mset_mono [OF m] by auto
qed

lemma determine_nothing:
  assumes "rng_ok rr" "determine_proxy_to rr now failed enable max_fails vec algorithm g = Some (None, vec', a, g')"
  shows "vec = []"
  using determine_proxy_to_healthy [OF assms(1), of vec now failed enable max_fails algorithm g] assms(2) by (cases "vec = []") auto

subsection \<open>One attempt\<close>

fun is_send :: "proxy_action \<Rightarrow> bool" where
  "is_send (Send parts body) = True"
| "is_send _ = False"

definition sends :: "'g proxy_state \<Rightarrow> proxy_action list" where
  "sends s = filter is_send (ps_actions s)"

lemma run_stages_quiet:
  "\<forall>(acts, ok, failed) \<in> set stages. filter is_send acts = [] \<Longrightarrow> run_stages stages = (acts', r) \<Longrightarrow> filter is_send acts' = []"
  by (induction stages arbitrary: acts' r rule: run_stages.induct) (auto split: if_splits prod.splits)

lemma run_stages_failure:
  "run_stages stages = (acts', Some failure) \<Longrightarrow> \<exists>acts ok. (acts, ok, failure) \<in> set stages \<and> \<not> ok"
  by (induction stages arbitrary: acts' rule: run_stages.induct) (auto split: if_splits prod.splits; blast)+

lemma run_stages_success: "snd (run_stages stages) = None \<longleftrightarrow> (\<forall>(acts, ok, failed) \<in> set stages. ok)"
  by (induction stages rule: run_stages.induct) (auto split: prod.splits)

lemma connect_stages_quiet:
  "\<forall>(acts, ok, failed) \<in> set (connect_stages env config socket_data proxy_unix tg net). filter is_send acts = []"
  by (auto simp: stage_defs split: option.splits sum.splits)

lemma connect_status_cases: "connect_status e \<in> {502, 503, 504}"
  by (cases e) auto

lemma connect_stages_failed:
  "(acts, ok, failure) \<in> set (connect_stages env config socket_data proxy_unix tg net) \<Longrightarrow>
   (\<exists>st \<in> {502, 503, 504}. failure = Attempt_failed st) \<or> (\<exists>e. failure = Attempt_error e)"
  using connect_status_cases by (auto simp: stage_defs split: option.splits sum.splits if_splits)

lemma http_proxy_answer:
  "http_proxy intercept_errors tracked enable_keepalive reply = (acts, outcome) \<Longrightarrow>
   filter is_send acts = [] \<and> (\<exists>r h. outcome = Attempt_answer r h \<and> (h \<longrightarrow> tracked \<and> rd_response r \<noteq> None))"
  by (auto simp: http_proxy_def proxy_answer_def split: backend_reply.splits)

text \<open>Nothing is sent unless the attempt ends with an answer, and then the request once.\<close>

lemma exchange_sends:
  assumes "exchange env config socket_data body tracked b tg net = (acts, outcome)"
  shows "case outcome of
      Attempt_answer r h \<Rightarrow> filter is_send acts = [Send (tg_parts tg) body] \<and> (h \<longrightarrow> tracked \<and> rd_response r \<noteq> None)
    | Attempt_failed st \<Rightarrow> filter is_send acts = [] \<and> st \<in> {502, 503, 504}
    | _ \<Rightarrow> filter is_send acts = []"
proof -
  let ?st = "connect_stages env config socket_data (fst (snd b)) tg net"
  show ?thesis
  proof (cases "pull_loop (snd (snd (snd b))) (an_pool net)")
    case (Reuse sender)
    then show ?thesis using assms
      by (auto simp: exchange_def http_proxy_kept_alive_def Let_def split: prod.splits dest!: http_proxy_answer)
  next
    case Fresh
    obtain a f where r: "run_stages ?st = (a, f)" by force
    have q: "filter is_send a = []" by (rule run_stages_quiet [OF connect_stages_quiet r])
    show ?thesis
    proof (cases f)
      case None
      then show ?thesis using assms Fresh r q
        by (auto simp: exchange_def Let_def split: prod.splits dest!: http_proxy_answer)
    next
      case (Some failure)
      from run_stages_failure r Some obtain acts' ok where "(acts', ok, failure) \<in> set ?st" by blast
      from connect_stages_failed [OF this] show ?thesis using assms Fresh r q Some
        by (auto simp: exchange_def Let_def)
    qed
  next
    case Waiting
    then show ?thesis using assms by (auto simp: exchange_def Let_def)
  qed
qed

lemma prepare_outcome: "prepare env config socket_data parts_option proxy_to = Inl outcome \<Longrightarrow> outcome = Attempt_waits \<or> (\<exists>e. outcome = Attempt_error e)"
  by (auto simp: prepare_def Let_def split: option.splits if_splits sum.splits)

definition constructed :: "proxy_env \<Rightarrow> ('m, 'o) ServerConfiguration \<Rightarrow> SocketData \<Rightarrow> request_parts \<Rightarrow> backend \<Rightarrow> request_parts \<Rightarrow> bool" where
  "constructed env config socket_data parts b parts' \<longleftrightarrow>
     (\<exists>u. pe_parse_url env (fst b) = Some u \<and>
        construct_proxy_request_parts (pe_page env) (pe_parse_uri env) parts config socket_data (bu_url u) = Some (Inr parts'))"

lemma prepare_target:
  "prepare env config socket_data (Some parts) (fst b) = Inr tg \<Longrightarrow> constructed env config socket_data parts b (tg_parts tg)"
  by (auto simp: prepare_def constructed_def Let_def split: option.splits if_splits sum.splits)

lemma proxy_attempt_sends:
  assumes "proxy_attempt env config socket_data body (Some parts) b net s = (outcome, s')"
  shows "case outcome of
      Attempt_answer r h \<Rightarrow> \<exists>parts'. constructed env config socket_data parts b parts' \<and> sends s' = sends s @ [Send parts' body]
    | Attempt_failed st \<Rightarrow> sends s' = sends s \<and> st \<in> {502, 503, 504}
    | _ \<Rightarrow> sends s' = sends s"
proof (cases "prepare env config socket_data (Some parts) (fst b)")
  case (Inl x)
  then show ?thesis using assms prepare_outcome [OF Inl] by (auto simp: proxy_attempt_def)
next
  case (Inr tg)
  obtain acts where e: "exchange env config socket_data body (tracking (ps_algorithm s) \<noteq> None) b tg net = (acts, outcome)"
    and s': "ps_actions s' = ps_actions s @ acts"
    using assms Inr by (auto simp: proxy_attempt_def Let_def split: prod.splits)
  from exchange_sends [OF e] prepare_target [OF Inr] show ?thesis
    by (cases outcome) (auto simp: sends_def s')
qed

lemma sends_note [simp]: "sends (note_selected k s) = sends s" "sends (note_failure e now k s) = sends s"
  "sends (s\<lparr>ps_algorithm := a, ps_rng := g\<rparr>) = sends s"
  by (simp_all add: sends_def note_selected_def note_failure_def)

end
