(* ===== verification/Proxy_Safety.thy ===== *)
theory Proxy_Safety
  imports Reverse_Proxy
begin

text \<open>
  What the reverse proxy guarantees about the requests it handles, for every behaviour of the network
  and every choice of the random number generator: it returns, it sends a request at most once, it fails
  over to a reachable backend, its counts of connections balance, and it reuses only open connections.
\<close>

section \<open>Examples\<close>

definition example_url :: "string \<Rightarrow> backend_uri option" where
  "example_url s = Some \<lparr>bu_scheme = Some ''http'', bu_host = Some s, bu_port = None, bu_url = \<lparr>pu_authority = Some s, pu_path = ''/''\<rparr>\<rparr>"

definition example_proxy_env :: proxy_env where
  "example_proxy_env = \<lparr>pe_page = example_page_env, pe_parse_uri = accept_uri, pe_parse_url = example_url, pe_build_v2 = (\<lambda>a. None),
     pe_server_name = (\<lambda>s. True), pe_verifier = True\<rparr>"

definition two_backends :: ReverseProxyModule where
  "two_backends = \<lparr>rm_failed_backends = ttl_new 100, rm_algorithm = LeastConnections Map.empty,
     rm_proxy_to = [(''a'', None, None, None), (''b'', None, None, None)], rm_max_fails = 3\<rparr>"

text \<open>The first backend refuses connections, the second answers.\<close>

definition half_net :: "nat \<Rightarrow> backend_key \<Rightarrow> nat attempt_net" where
  "half_net i key = \<lparr>an_now = i, an_pool = [\<lparr>ev_item = None, ev_closed = (\<lambda>c. False), ev_ready = (\<lambda>c. True), ev_now = i\<rparr>],
     an_connect = (if fst key = ''a'' then Some ConnectionRefused else None), an_nodelay = True, an_compat = True, an_write = True,
     an_tls = True, an_alpn_h2 = False, an_handshake = True,
     an_reply = Replied \<lparr>resp_status = 200, resp_headers = [], resp_body = ''x''\<rparr> False False\<rparr>"

lemmas example_proxy_defs = example_proxy_env_def two_backends_def half_net_def example_url_def

section \<open>The request is sent at most once\<close>

text \<open>
  C4: Retries never repeat a request: whatever happens on the network, the proxy sends the request at
  most once, in the form constructed for one of the configured backends and with its whole body. A
  request is answered without being sent only by the gateway errors 502, 503 and 504, or passed on
  unchanged where no backend is configured.
\<close>

theorem request_sent_at_most_once:
  assumes "rng_ok rr" "proxy_request_handler env m config socket_data rr net clock req s = (result, s')" "ps_actions s = []"
  shows "(sends s' = [] \<and> (\<forall>d. result = Returned (Inr d) \<longrightarrow>
        (\<exists>st \<in> {502, 503, 504}. d = answer_status st) \<or> rm_proxy_to m = [] \<and> d = pass_on req)) \<or>
    (\<exists>b \<in> set (rm_proxy_to m). \<exists>parts'. constructed env config socket_data (req_parts req) b parts' \<and>
       sends s' = [Send parts' (req_body req)] \<and> (\<exists>d. result = Returned (Inr d)))"
proof -
  let ?I = "\<lambda>(i::nat) p vec s. p = Some (req_parts req) \<and> set vec \<subseteq> set (rm_proxy_to m) \<and> sends s = [] \<and> (vec = [] \<longrightarrow> rm_proxy_to m = [])"
  let ?Q = "\<lambda>result s'. (sends s' = [] \<and> (\<forall>d. result = Returned (Inr d) \<longrightarrow>
        (\<exists>st \<in> {502, 503, 504}. d = answer_status st) \<or> rm_proxy_to m = [] \<and> d = pass_on req)) \<or>
    (\<exists>b \<in> set (rm_proxy_to m). \<exists>parts'. constructed env config socket_data (req_parts req) b parts' \<and>
       sends s' = [Send parts' (req_body req)] \<and> (\<exists>d. result = Returned (Inr d)))"
  have "case proxy_loop env config socket_data (rm_max_fails m) req rr net clock 0 (Some (req_parts req)) (rm_proxy_to m) s of (r, s') \<Rightarrow> ?Q r s'"
  proof (rule proxy_loop_rule [where I = ?I])
    show "?I 0 (Some (req_parts req)) (rm_proxy_to m) s" using assms(3) by (simp add: sends_def)
  next
    fix i p vec s vec' a g
    assume i: "?I i p vec s" and d: "determine_proxy_to rr (clock i) (ps_failed s) (option_value_bool ''lb_health_check'' config)
        (rm_max_fails m) vec (ps_algorithm s) (ps_rng s) = Some (None, vec', a, g)"
    then show "?Q (Returned (case p of None \<Rightarrow> Inl ''Request parts are missing'' | Some parts \<Rightarrow> Inr (pass_on (req\<lparr>req_parts := parts\<rparr>))))
        (s\<lparr>ps_algorithm := a, ps_rng := g\<rparr>)"
      using determine_nothing [OF assms(1) d] by simp
  next
    fix i p vec s b vec' a g outcome s2
    assume i: "?I i p vec s" and d: "determine_proxy_to rr (clock i) (ps_failed s) (option_value_bool ''lb_health_check'' config)
        (rm_max_fails m) vec (ps_algorithm s) (ps_rng s) = Some (Some b, vec', a, g)"
      and o: "proxy_attempt env config socket_data (req_body req) p b (net i (backend_key_of b))
        (note_selected (backend_key_of b) (s\<lparr>ps_algorithm := a, ps_rng := g\<rparr>)) = (outcome, s2)"
    have p: "p = Some (req_parts req)" using i by simp
    from proxy_attempt_sends [OF o [unfolded p]] determine_chosen [OF assms(1) d] i
    show "case outcome of
         Attempt_error e \<Rightarrow> ?Q (Returned (Inl e)) s2
       | Attempt_waits \<Rightarrow> ?Q Awaits s2
       | Attempt_answer r body_holds \<Rightarrow> ?Q (Returned (Inr r)) s2
       | Attempt_failed st \<Rightarrow>
           (let s3 = note_failure (option_value_bool ''lb_health_check'' config) (an_now (net i (backend_key_of b))) (backend_key_of b) s2
            in if option_bool_or True ''lb_retry_connection'' config \<and> vec' \<noteq> [] then ?I (Suc i) p vec' s3
               else ?Q (Returned (Inr (answer_status st))) s3)"
      by (cases outcome) (auto simp: Let_def)
  qed (simp add: determine_total [OF assms(1)])
  then show ?thesis using assms(2) by (simp add: proxy_request_handler_def)
qed

theorem request_sent_at_most_once_witness:
  "\<exists>result s' parts'. proxy_request_handler example_proxy_env two_backends empty_config (client_socket (V4 1)) mod_rng half_net id plain_request
       (proxy_state_new two_backends 0) = (result, s') \<and> sends s' = [Send parts' []]"
proof -
  let ?h = "proxy_request_handler example_proxy_env two_backends empty_config (client_socket (V4 1)) mod_rng half_net id plain_request
       (proxy_state_new two_backends 0)"
  obtain result s' where h: "?h = (result, s')" by force
  have "sends (snd ?h) \<noteq> []" by code_simp
  with h have "sends s' \<noteq> []" by simp
  moreover have "ps_actions (proxy_state_new two_backends (0 :: nat)) = []" by (simp add: proxy_state_new_def)
  moreover have "req_body plain_request = []" by (simp add: plain_request_def)
  ultimately show ?thesis using request_sent_at_most_once [OF rng_ok_mod_rng h] h by auto
qed


section \<open>The handler returns\<close>





lemma proxy_attempt_notes:
  "proxy_attempt env config socket_data body p b net s = (outcome, s') \<Longrightarrow> ps_selected s' = ps_selected s \<and> ps_failed s' = ps_failed s"
  by (auto simp: proxy_attempt_def Let_def split: sum.splits prod.splits)

lemma ps_selected_note [simp]:
  "ps_selected (note_selected k s) = map_option (\<lambda>ks. ks @ [k]) (ps_selected s)"
  "ps_selected (note_failure e now k s) = ps_selected s" "ps_failed (note_selected k s) = ps_failed s"
  "ps_failed (note_failure e now k s) = (if e then record_failure now k (ps_failed s) else ps_failed s)"
  by (simp_all add: note_selected_def note_failure_def)


section \<open>Failover\<close>

text \<open>A candidate that is not chosen stays a candidate, if it is healthy or health is not checked.\<close>

lemma healthy_loop_keeps:
  "healthy_loop rr now failed max_fails prev vec algorithm g = Some (Some c, vec', algorithm', g') \<Longrightarrow>
   b \<in> set vec \<Longrightarrow> backend_healthy now failed max_fails b \<Longrightarrow> b = c \<or> b \<in> set vec'"
proof (induction rr now failed max_fails prev vec algorithm g rule: healthy_loop.induct)
  case (1 rr now failed max_fails prev vec algorithm g)
  have ne: "vec \<noteq> []" using "1.prems"(2) by auto
  obtain i a1 g1 where s: "select_backend_index rr algorithm vec g = (i, a1, g1)" by (metis prod_cases3)
  obtain x vec1 where x: "vec_remove i vec = Some (x, vec1)"
    using "1.prems"(1) s ne by (auto simp: healthy_loop.simps [of rr _ _ _ _ vec] split: option.splits)
  have b: "b = x \<or> b \<in> set vec1" using vec_remove_Some(2) [OF x] "1.prems"(2) by (metis insert_iff set_mset_add_mset_insert set_mset_mset)
  show ?case
  proof (cases "backend_healthy now failed max_fails x")
    case True
    then show ?thesis using "1.prems"(1) s x ne b by (simp add: healthy_loop.simps [of rr _ _ _ _ vec])
  next
    case False
    then have h: "healthy_loop rr now failed max_fails (Some x) vec1 a1 g1 = Some (Some c, vec', algorithm', g')"
      using "1.prems"(1) s x ne by (simp add: healthy_loop.simps [of rr _ _ _ _ vec])
    have "b \<in> set vec1" using b False "1.prems"(3) by auto
    from "1.IH" [OF ne s [symmetric] refl refl x refl False h this "1.prems"(3)] show ?thesis .
  qed
qed

lemma determine_keeps:
  assumes "determine_proxy_to rr now failed enable max_fails vec algorithm g = Some (Some c, vec', algorithm', g')"
    "b \<in> set vec" "enable \<longrightarrow> backend_healthy now failed max_fails b"
  shows "b = c \<or> b \<in> set vec'"
proof (cases "length vec = 1 \<or> enable")
  case True
  then show ?thesis using assms healthy_loop_keeps [of rr now failed max_fails None vec algorithm g c vec' algorithm' g' b]
    by (auto simp: determine_proxy_to_def length_Suc_conv split: if_splits)
next
  case False
  then obtain i a1 g1 where v: "vec_remove i vec = Some (c, vec')"
    using assms(1,2) by (auto simp: determine_proxy_to_def split: prod.splits option.splits if_splits)
  show ?thesis using vec_remove_Some(2) [OF v] assms(2) by (metis insert_iff set_mset_add_mset_insert set_mset_mset)
qed

text \<open>
  A backend is reachable if every step towards it succeeds at every attempt; every backend settles if its
  attempts never end with an error of the configuration and never wait for ever.
\<close>

definition stages_ok :: "bool \<Rightarrow> (proxy_action list \<times> bool \<times> attempt_outcome) list \<Rightarrow> bool" where
  "stages_ok must_succeed stages \<longleftrightarrow> list_all (\<lambda>(acts, ok, failed). ok \<or> \<not> must_succeed \<and> (\<exists>st. failed = Attempt_failed st)) stages"

definition settles ::
  "proxy_env \<Rightarrow> ('m, 'o) ServerConfiguration \<Rightarrow> SocketData \<Rightarrow> request_parts \<Rightarrow> (nat \<Rightarrow> backend_key \<Rightarrow> 'c attempt_net) \<Rightarrow> bool \<Rightarrow> backend \<Rightarrow> bool" where
  "settles env config socket_data parts net must_succeed b \<longleftrightarrow>
     (\<exists>tg. prepare env config socket_data (Some parts) (fst b) = Inr tg \<and>
        (\<forall>i. pull_loop (snd (snd (snd b))) (an_pool (net i (backend_key_of b))) \<noteq> Waiting \<and>
           stages_ok must_succeed (connect_stages env config socket_data (fst (snd b)) tg (net i (backend_key_of b)))))"

lemma stages_ok_run: "stages_ok must stages \<Longrightarrow> run_stages stages = (acts, Some failure) \<Longrightarrow> \<not> must \<and> (\<exists>st. failure = Attempt_failed st)"
  by (drule run_stages_failure) (auto simp: stages_ok_def list_all_iff)

lemma exchange_outcome:
  assumes "exchange env config socket_data body tracked b tg net = (acts, outcome)"
    "pull_loop (snd (snd (snd b))) (an_pool net) \<noteq> Waiting"
  shows "(\<exists>r h. outcome = Attempt_answer r h) \<or>
    (\<exists>acts'. run_stages (connect_stages env config socket_data (fst (snd b)) tg net) = (acts', Some outcome))"
proof (cases "pull_loop (snd (snd (snd b))) (an_pool net)")
  case Fresh
  then show ?thesis using assms(1) by (auto simp: exchange_def Let_def split: prod.splits option.splits dest!: http_proxy_answer)
qed (use assms in \<open>auto simp: exchange_def Let_def http_proxy_kept_alive_def split: prod.splits dest!: http_proxy_answer\<close>)

lemma settles_attempt:
  assumes "settles env config socket_data parts net must b"
    "proxy_attempt env config socket_data body (Some parts) b (net i (backend_key_of b)) s = (outcome, s')"
  shows "(\<exists>r h. outcome = Attempt_answer r h) \<or> \<not> must \<and> (\<exists>st. outcome = Attempt_failed st)"
proof -
  let ?net = "net i (backend_key_of b)"
  obtain tg where tg: "prepare env config socket_data (Some parts) (fst b) = Inr tg"
    and pool: "pull_loop (snd (snd (snd b))) (an_pool ?net) \<noteq> Waiting"
    and st: "stages_ok must (connect_stages env config socket_data (fst (snd b)) tg ?net)"
    using assms(1) unfolding settles_def by blast
  obtain acts where e: "exchange env config socket_data body (tracking (ps_algorithm s) \<noteq> None) b tg ?net = (acts, outcome)"
    using assms(2) tg by (auto simp: proxy_attempt_def Let_def split: prod.splits)
  from exchange_outcome [OF e pool] stages_ok_run [OF st] show ?thesis by blast
qed

text \<open>Backends with the same key share the network, so a failure is that of another key.\<close>

lemma settles_key:
  assumes "settles env config socket_data parts net True b" "settles env config socket_data parts net False c" "backend_key_of c = backend_key_of b"
  shows "settles env config socket_data parts net True c"
proof -
  have k: "fst c = fst b" "fst (snd c) = fst (snd b)" using assms(3) by (simp_all add: backend_key_of_def)
  show ?thesis using assms(1,2) unfolding settles_def k assms(3) by auto
qed

text \<open>
  C10: Failover: with retries on (the default), one backend to which every step of a connection succeeds is enough for
  the request to be sent, exactly once, wherever it is in the list and whatever the load balancing algorithm chooses,
  if for every other backend the URL is valid, the pool yields and the only failures are those to connect; with health
  checks, if the backend is not marked unhealthy.
\<close>

theorem failover_reaches_backend:
  assumes "rng_ok rr" "option_bool_or True ''lb_retry_connection'' config"
    "\<forall>x \<in> set (rm_proxy_to m). settles env config socket_data (req_parts req) net False x"
    "b \<in> set (rm_proxy_to m)" "settles env config socket_data (req_parts req) net True b"
    "option_value_bool ''lb_health_check'' config \<longrightarrow> (\<forall>t. backend_healthy t (ps_failed s) (rm_max_fails m) b)"
    "proxy_request_handler env m config socket_data rr net clock req s = (result, s')" "ps_actions s = []"
  shows "\<exists>d parts'. result = Returned (Inr d) \<and> sends s' = [Send parts' (req_body req)]"
proof -
  let ?enable = "option_value_bool ''lb_health_check'' config"
  let ?I = "\<lambda>(i::nat) p vec s. p = Some (req_parts req) \<and> set vec \<subseteq> set (rm_proxy_to m) \<and> b \<in> set vec \<and> sends s = [] \<and>
      (?enable \<longrightarrow> (\<forall>t. backend_healthy t (ps_failed s) (rm_max_fails m) b))"
  let ?Q = "\<lambda>result s'. \<exists>d parts'. result = Returned (Inr d) \<and> sends s' = [Send parts' (req_body req)]"
  have "case proxy_loop env config socket_data (rm_max_fails m) req rr net clock 0 (Some (req_parts req)) (rm_proxy_to m) s of (r, s') \<Rightarrow> ?Q r s'"
  proof (rule proxy_loop_rule [where I = ?I])
    show "?I 0 (Some (req_parts req)) (rm_proxy_to m) s" using assms(4,6,8) by (simp add: sends_def)
  next
    fix i p vec s vec' a g
    assume i: "?I i p vec s" and d: "determine_proxy_to rr (clock i) (ps_failed s) ?enable
        (rm_max_fails m) vec (ps_algorithm s) (ps_rng s) = Some (None, vec', a, g)"
    then show "?Q (Returned (case p of None \<Rightarrow> Inl ''Request parts are missing'' | Some parts \<Rightarrow> Inr (pass_on (req\<lparr>req_parts := parts\<rparr>))))
        (s\<lparr>ps_algorithm := a, ps_rng := g\<rparr>)"
      using determine_nothing [OF assms(1) d] by simp
  next
    fix i p vec s c vec' a g outcome s2
    let ?k = "backend_key_of c"
    assume i: "?I i p vec s" and d: "determine_proxy_to rr (clock i) (ps_failed s) ?enable
        (rm_max_fails m) vec (ps_algorithm s) (ps_rng s) = Some (Some c, vec', a, g)"
      and o: "proxy_attempt env config socket_data (req_body req) p c (net i ?k) (note_selected ?k (s\<lparr>ps_algorithm := a, ps_rng := g\<rparr>)) = (outcome, s2)"
    have p: "p = Some (req_parts req)" using i by simp
    note ch = determine_chosen [OF assms(1) d]
    have "settles env config socket_data (req_parts req) net False c" using assms(3) ch(1) i by auto
    note settled = settles_attempt [OF this o [unfolded p]] settles_key [OF assms(5) this]
    have other: "?k \<noteq> backend_key_of b" if "outcome = Attempt_failed st" for st
      using settles_attempt [OF settled(2) o [unfolded p]] that by auto
    have kept: "b = c \<or> b \<in> set vec'" by (rule determine_keeps [OF d]) (use i in auto)
    have healthy: "backend_healthy t (record_failure now ?k f) n b = backend_healthy t f n b" if "?k \<noteq> backend_key_of b" for t now f n
      using that by (simp add: backend_healthy_def record_failure_def tc.get_ins)
    from settled(1) proxy_attempt_sends [OF o [unfolded p]] proxy_attempt_notes [OF o] other kept ch(3) i assms(2)
    show "case outcome of
         Attempt_error e \<Rightarrow> ?Q (Returned (Inl e)) s2
       | Attempt_waits \<Rightarrow> ?Q Awaits s2
       | Attempt_answer r body_holds \<Rightarrow> ?Q (Returned (Inr r)) s2
       | Attempt_failed st \<Rightarrow>
           (let s3 = note_failure ?enable (an_now (net i ?k)) ?k s2
            in if option_bool_or True ''lb_retry_connection'' config \<and> vec' \<noteq> [] then ?I (Suc i) p vec' s3
               else ?Q (Returned (Inr (answer_status st))) s3)"
      by (cases outcome) (auto simp: Let_def healthy)
  qed (simp add: determine_total [OF assms(1)])
  then show ?thesis using assms(7) by (simp add: proxy_request_handler_def)
qed

section \<open>The counts of connections\<close>

definition count_of :: "backend_key \<Rightarrow> LoadBalancerAlgorithm \<Rightarrow> nat" where
  "count_of k algorithm = (case tracking algorithm of Some track \<Rightarrow> tracked_count k track | None \<Rightarrow> 0)"

lemma tracked_count_track [simp]: "tracked_count k (track_backend j track) = tracked_count k track"
  by (auto simp: tracked_count_def track_backend_def split: option.splits)

lemma least_loop_counts: "least_loop n bs mins m track = (min_indexes, track') \<Longrightarrow> tracked_count k track' = tracked_count k track"
  by (induction n bs mins m track rule: least_loop.induct) (auto simp: Let_def split: if_splits)

lemma select_counts:
  "select_backend_index rr algorithm vec g = (i, algorithm', g') \<Longrightarrow>
   count_of k algorithm' = count_of k algorithm \<and> (tracking algorithm' = None \<longleftrightarrow> tracking algorithm = None)"
  by (cases algorithm) (auto dest: least_loop_counts simp: select_backend_index_def count_of_def Let_def split: prod.splits list.splits)

lemma healthy_loop_counts:
  "healthy_loop rr now failed max_fails prev vec algorithm g = Some (c, vec', algorithm', g') \<Longrightarrow>
   count_of k algorithm' = count_of k algorithm \<and> (tracking algorithm' = None \<longleftrightarrow> tracking algorithm = None)"
proof (induction rr now failed max_fails prev vec algorithm g rule: healthy_loop.induct)
  case (1 rr now failed max_fails prev vec algorithm g)
  show ?case
  proof (cases "vec = []")
    case False
    obtain i a1 g1 where s: "select_backend_index rr algorithm vec g = (i, a1, g1)" by (metis prod_cases3)
    obtain x vec1 where x: "vec_remove i vec = Some (x, vec1)"
      using "1.prems" s False by (auto simp: healthy_loop.simps [of rr _ _ _ _ vec] split: option.splits)
    show ?thesis
    proof (cases "backend_healthy now failed max_fails x")
      case True
      then show ?thesis using "1.prems" s x False select_counts [OF s] by (simp add: healthy_loop.simps [of rr _ _ _ _ vec])
    next
      case unhealthy: False
      then have h: "healthy_loop rr now failed max_fails (Some x) vec1 a1 g1 = Some (c, vec', algorithm', g')"
        using "1.prems" s x False by (simp add: healthy_loop.simps [of rr _ _ _ _ vec])
      from "1.IH" [OF False s [symmetric] refl refl x refl unhealthy h] select_counts [OF s] show ?thesis by simp
    qed
  qed (use "1.prems" in \<open>simp add: healthy_loop.simps [of rr _ _ _ _ "[]"]\<close>)
qed

lemma determine_counts:
  "determine_proxy_to rr now failed enable max_fails vec algorithm g = Some (c, vec', algorithm', g') \<Longrightarrow>
   count_of k algorithm' = count_of k algorithm \<and> (tracking algorithm' = None \<longleftrightarrow> tracking algorithm = None)"
  by (auto simp: determine_proxy_to_def healthy_loop_counts select_counts split: if_splits prod.splits option.splits)

lemma count_of_map_tracking:
  "count_of k (map_tracking f algorithm) = (case tracking algorithm of Some track \<Rightarrow> tracked_count k (f track) | None \<Rightarrow> 0)"
  by (cases algorithm) (simp_all add: count_of_def)

lemma count_of_hold:
  "count_of k (hold_connection j algorithm) = count_of k algorithm + (if k = j \<and> tracking algorithm \<noteq> None then 1 else 0)"
  by (cases algorithm) (simp_all add: hold_connection_def count_of_def tracked_count_def)

lemma count_of_release_hold: "count_of k (release_connection j (hold_connection j algorithm)) = count_of k algorithm"
  by (cases algorithm) (simp_all add: release_connection_def hold_connection_def count_of_def tracked_count_def)

lemma proxy_attempt_counts:
  assumes "proxy_attempt env config socket_data body p b net s = (outcome, s')"
  shows "(\<forall>k. count_of k (ps_algorithm s') = count_of k (ps_algorithm s)) \<or>
      (\<forall>k. count_of k (ps_algorithm s') = count_of k (ps_algorithm s) + (if k = backend_key_of b then 1 else 0))"
    and "case outcome of
      Attempt_answer r body_holds \<Rightarrow> body_holds \<or> (\<forall>k. count_of k (ps_algorithm s') = count_of k (ps_algorithm s))
    | Attempt_waits \<Rightarrow> True
    | _ \<Rightarrow> \<forall>k. count_of k (ps_algorithm s') = count_of k (ps_algorithm s)"
proof -
  let ?k = "backend_key_of b"
  have alg: "ps_algorithm s' \<in> {ps_algorithm s, release_connection ?k (hold_connection ?k (ps_algorithm s)), hold_connection ?k (ps_algorithm s)}"
    using assms by (auto simp: proxy_attempt_def Let_def split: sum.splits prod.splits if_splits)
  then show "(\<forall>k. count_of k (ps_algorithm s') = count_of k (ps_algorithm s)) \<or>
      (\<forall>k. count_of k (ps_algorithm s') = count_of k (ps_algorithm s) + (if k = ?k then 1 else 0))"
  proof (cases "ps_algorithm s' = hold_connection ?k (ps_algorithm s) \<and> tracking (ps_algorithm s) \<noteq> None")
    case True
    then show ?thesis by (simp add: count_of_hold)
  next
    case False
    then have "\<forall>k. count_of k (ps_algorithm s') = count_of k (ps_algorithm s)" using alg by (auto simp: count_of_hold count_of_release_hold)
    then show ?thesis by blast
  qed
  have "ps_algorithm s' \<noteq> hold_connection ?k (ps_algorithm s) \<Longrightarrow> \<forall>k. count_of k (ps_algorithm s') = count_of k (ps_algorithm s)"
    using alg by (auto simp: count_of_release_hold)
  moreover have "outcome = Attempt_waits \<or> (\<exists>r. outcome = Attempt_answer r True) \<or>
      ps_algorithm s' \<in> {ps_algorithm s, release_connection ?k (hold_connection ?k (ps_algorithm s))}"
    using assms by (cases outcome) (auto simp: proxy_attempt_def Let_def split: sum.splits prod.splits if_splits)
  ultimately show "case outcome of
      Attempt_answer r body_holds \<Rightarrow> body_holds \<or> (\<forall>k. count_of k (ps_algorithm s') = count_of k (ps_algorithm s))
    | Attempt_waits \<Rightarrow> True
    | _ \<Rightarrow> \<forall>k. count_of k (ps_algorithm s') = count_of k (ps_algorithm s)"
    by (cases outcome) (auto simp: count_of_release_hold)
qed

lemma proxy_attempt_holds:
  assumes "proxy_attempt env config socket_data body p b net s = (Attempt_answer r True, s')"
  shows "rd_response r \<noteq> None"
proof (cases "prepare env config socket_data p (fst b)")
  case (Inl x)
  then show ?thesis using assms prepare_outcome [OF Inl] by (auto simp: proxy_attempt_def)
next
  case (Inr tg)
  then obtain acts where "exchange env config socket_data body (tracking (ps_algorithm s) \<noteq> None) b tg net = (acts, Attempt_answer r True)"
    using assms by (auto simp: proxy_attempt_def Let_def split: prod.splits)
  from exchange_sends [OF this] show ?thesis by simp
qed

text \<open>
  C20: The counts of open connections that the algorithms compare do not leak: when the handler
  returns, every count is as before, except that the backend whose response is returned counts one
  more, the reference its body holds. Failed attempts, errors and intercepted responses leave nothing.
\<close>

theorem connection_counts_balance:
  fixes s :: "'g proxy_state"
  assumes "proxy_request_handler env m config socket_data rr net clock req s = (Returned x, s')"
  shows "(\<forall>k. count_of k (ps_algorithm s') = count_of k (ps_algorithm s)) \<or>
    (\<exists>d r j. x = Inr d \<and> rd_response d = Some r \<and>
       (\<forall>k. count_of k (ps_algorithm s') = count_of k (ps_algorithm s) + (if k = j then 1 else 0)))"
proof -
  let ?same = "\<lambda>s' :: 'g proxy_state. \<forall>k. count_of k (ps_algorithm s') = count_of k (ps_algorithm s)"
  let ?I = "\<lambda>(i::nat) p vec s'. ?same s'"
  let ?Q = "\<lambda>result s'. \<forall>x. result = Returned x \<longrightarrow> ?same s' \<or> (\<exists>d r j. x = Inr d \<and> rd_response d = Some r \<and>
       (\<forall>k. count_of k (ps_algorithm s') = count_of k (ps_algorithm s) + (if k = j then 1 else 0)))"
  have "case proxy_loop env config socket_data (rm_max_fails m) req rr net clock 0 (Some (req_parts req)) (rm_proxy_to m) s of (r, s') \<Rightarrow> ?Q r s'"
  proof (rule proxy_loop_rule [where I = ?I])
    fix i p vec s1 vec' a g
    assume i: "?I i p vec s1" and d: "determine_proxy_to rr (clock i) (ps_failed s1) (option_value_bool ''lb_health_check'' config)
        (rm_max_fails m) vec (ps_algorithm s1) (ps_rng s1) = Some (None, vec', a, g)"
    have "count_of k a = count_of k (ps_algorithm s)" for k using i [THEN spec, of k] determine_counts [OF d, of k] by simp
    then show "?Q (Returned (case p of None \<Rightarrow> Inl ''Request parts are missing'' | Some parts \<Rightarrow> Inr (pass_on (req\<lparr>req_parts := parts\<rparr>))))
        (s1\<lparr>ps_algorithm := a, ps_rng := g\<rparr>)"
      by simp
  next
    fix i p vec and s1 :: "'g proxy_state" and b vec' a g outcome and s2 :: "'g proxy_state"
    let ?k = "backend_key_of b"
    let ?s = "note_selected ?k (s1\<lparr>ps_algorithm := a, ps_rng := g\<rparr>)"
    assume i: "?I i p vec s1" and d: "determine_proxy_to rr (clock i) (ps_failed s1) (option_value_bool ''lb_health_check'' config)
        (rm_max_fails m) vec (ps_algorithm s1) (ps_rng s1) = Some (Some b, vec', a, g)"
      and o: "proxy_attempt env config socket_data (req_body req) p b (net i ?k) ?s = (outcome, s2)"
    have s: "count_of k (ps_algorithm ?s) = count_of k (ps_algorithm s)" for k
      using i [THEN spec, of k] determine_counts [OF d, of k] by (simp add: note_selected_def)
    have "?same s2 \<or> (\<forall>k. count_of k (ps_algorithm s2) = count_of k (ps_algorithm s) + (if k = ?k then 1 else 0))"
      using proxy_attempt_counts(1) [OF o] unfolding s .
    then have more: "?same s2 \<or> (\<exists>j. \<forall>k. count_of k (ps_algorithm s2) = count_of k (ps_algorithm s) + (if k = j then 1 else 0))" by blast
    have quiet: "\<not> (\<exists>r. outcome = Attempt_answer r True) \<and> outcome \<noteq> Attempt_waits \<Longrightarrow> ?same s2"
      using proxy_attempt_counts(2) [OF o] unfolding s by (cases outcome) auto
    show "case outcome of
         Attempt_error e \<Rightarrow> ?Q (Returned (Inl e)) s2
       | Attempt_waits \<Rightarrow> ?Q Awaits s2
       | Attempt_answer r body_holds \<Rightarrow> ?Q (Returned (Inr r)) s2
       | Attempt_failed st \<Rightarrow>
           (let s3 = note_failure (option_value_bool ''lb_health_check'' config) (an_now (net i ?k)) ?k s2
            in if option_bool_or True ''lb_retry_connection'' config \<and> vec' \<noteq> [] then ?I (Suc i) p vec' s3
               else ?Q (Returned (Inr (answer_status st))) s3)"
    proof (cases outcome)
      case (Attempt_answer r h)
      show ?thesis
      proof (cases h)
        case True
        then have "rd_response r \<noteq> None" using o Attempt_answer by (intro proxy_attempt_holds) simp
        with more Attempt_answer show ?thesis by (simp only: attempt_outcome.case) blast
      next
        case False
        with quiet Attempt_answer have "?same s2" by blast
        with Attempt_answer show ?thesis by (simp only: attempt_outcome.case) blast
      qed
    next
      case (Attempt_failed st)
      with quiet have "?same s2" by blast
      then have "?same (note_failure e t j s2)" for e t j by (simp add: note_failure_def)
      with Attempt_failed show ?thesis by (simp only: attempt_outcome.case Let_def split: if_split) blast
    next
      case (Attempt_error e)
      with quiet have "?same s2" by blast
      with Attempt_error show ?thesis by (simp only: attempt_outcome.case) blast
    qed simp
  qed simp_all
  then show ?thesis using assms by (simp add: proxy_request_handler_def)
qed

text \<open>The example: the handler returns, fails over from the first backend to the second, and counts its connection.\<close>

abbreviation example_run :: "nat proxy_state \<Rightarrow> proxy_result \<times> nat proxy_state" where
  "example_run \<equiv> proxy_request_handler example_proxy_env two_backends empty_config (client_socket (V4 1)) mod_rng half_net id plain_request"


theorem failover_reaches_backend_witness:
  "\<exists>d s' parts'. example_run (proxy_state_new two_backends 0) = (Returned (Inr d), s') \<and> sends s' = [Send parts' []]"
proof -
  let ?s = "proxy_state_new two_backends (0 :: nat)" and ?b = "(''b'', None, None, None) :: backend" and ?a = "(''a'', None, None, None) :: backend"
  let ?p = "req_parts plain_request"
  obtain result s' where h: "example_run ?s = (result, s')" by force
  have prep: "isl (prepare example_proxy_env empty_config (client_socket (V4 1)) (Some ?p) (fst x)) = False" if "x \<in> {?a, ?b}" for x
    using that by (elim insertE emptyE) (simp_all only:, code_simp+)
  have st: "settles example_proxy_env empty_config (client_socket (V4 1)) ?p half_net must x" if "x = ?b \<or> x = ?a \<and> \<not> must" for must x
  proof -
    have x: "x \<in> {?a, ?b}" using that by auto
    obtain tg where tg: "prepare example_proxy_env empty_config (client_socket (V4 1)) (Some ?p) (fst x) = Inr tg"
      using prep [of x] x by (cases "prepare example_proxy_env empty_config (client_socket (V4 1)) (Some ?p) (fst x)") auto
    then have e: "\<not> tg_encrypted tg" using that
      by (auto simp: prepare_def example_proxy_env_def example_url_def Let_def split: option.splits sum.splits)
    have n: "proxy_header_of empty_config = None" by code_simp
    show ?thesis unfolding settles_def
      using tg e n that by (intro exI [of _ tg]) (auto simp: stages_ok_def stage_defs proxy_header_to_write_def half_net_def backend_key_of_def)
  qed
  have r: "option_bool_or True ''lb_retry_connection'' empty_config" "\<not> option_value_bool ''lb_health_check'' empty_config" by code_simp+
  have m: "rm_proxy_to two_backends = [?a, ?b]" by (simp add: two_backends_def)
  have "\<exists>d parts'. result = Returned (Inr d) \<and> sends s' = [Send parts' (req_body plain_request)]"
    by (rule failover_reaches_backend [OF rng_ok_mod_rng r(1) _ _ _ _ h, of ?b])
      (use st r(2) in \<open>auto simp: m proxy_state_new_def\<close>)
  with h show ?thesis by (auto simp: plain_request_def)
qed

theorem connection_counts_balance_witness:
  "\<exists>x s'. example_run (proxy_state_new two_backends 0) = (Returned x, s') \<and>
     count_of (''a'', None) (ps_algorithm s') \<le> 1 \<and> count_of (''b'', None) (ps_algorithm s') \<le> 1"
proof -
  let ?s = "proxy_state_new two_backends (0 :: nat)"
  obtain result s' where h: "example_run ?s = (result, s')" by force
  have "case fst (example_run ?s) of Returned x \<Rightarrow> True | _ \<Rightarrow> False" by code_simp
  then obtain x where x: "example_run ?s = (Returned x, s')" using h by (cases result) auto
  have z: "count_of k (ps_algorithm ?s) = 0" for k
    by (simp add: proxy_state_new_def two_backends_def count_of_def tracked_count_def)
  from connection_counts_balance [OF x] have "count_of k (ps_algorithm s') \<le> 1" for k
    unfolding z by (elim disjE exE conjE) (drule spec [of _ k], simp)+
  with x show ?thesis by blast
qed

section \<open>Reused connections\<close>

text \<open>
  A kept connection is reused only if it is open and ready at that moment, and has not been idle
  longer than the timeout of its backend.
\<close>

theorem reused_connection_usable:
  assumes "pull_loop timeout events = Reuse c"
  shows "\<exists>e \<in> set events. \<exists>w. ev_item e = Some w \<and> sw_inner w = Some c \<and> \<not> ev_closed e c \<and> ev_ready e c \<and>
    (\<forall>t. timeout = Some t \<longrightarrow> ev_now e - sw_instant w \<le> t)"
  using assms
proof (induction events)
  case (Cons e es)
  show ?case
  proof (cases "ev_item e")
    case None
    then show ?thesis using Cons.prems by simp
  next
    case (Some w)
    show ?thesis
    proof (cases "fst (wrapper_get (ev_closed e) (ev_ready e) (ev_now e) timeout w) = (Some c, True)")
      case True
      then have "sw_inner w = Some c \<and> \<not> ev_closed e c \<and> ev_ready e c \<and> \<not> too_idle (ev_now e) timeout w"
        by (auto simp: wrapper_get_def Let_def split: option.splits if_splits)
      with Some show ?thesis by (auto simp: too_idle_def)
    next
      case False
      then have "pull_loop timeout es = Reuse c" using Cons.prems Some
        by (auto split: prod.splits option.splits bool.splits)
      with Cons.IH show ?thesis by auto
    qed
  qed
qed simp

definition idle_event :: "nat \<Rightarrow> nat \<Rightarrow> nat pool_event" where
  "idle_event c t = \<lparr>ev_item = Some (wrapper_new t c), ev_closed = (\<lambda>c. False), ev_ready = (\<lambda>c. True), ev_now = 10\<rparr>"

theorem reused_connection_usable_witness:
  "\<exists>e \<in> {idle_event 1 2, idle_event 2 8}. \<exists>w. ev_item e = Some w \<and> sw_inner w = Some 2 \<and> ev_now e - sw_instant w \<le> 5"
proof -
  have "pull_loop (Some 5) [idle_event 1 2, idle_event 2 8] = Reuse 2" by code_simp
  from reused_connection_usable [OF this] show ?thesis by auto
qed

end
