(* ===== verification/Proxy_Loader.thy ===== *)
theory Proxy_Loader
  imports Reverse_Proxy
begin

text \<open>
  Loading the reverse proxy: \<open>ReverseProxyModuleLoader\<close> of \<open>ferron-modules-builtin/src/optional/rproxy.rs\<close>. The
  connection pool of the crate \<open>connpool\<close> is a parameter: how a pool is made, with or without a limit, and
  how a local limit is registered, which gives its index. The platform is Unix.
\<close>

section \<open>Definitions\<close>

definition DEFAULT_CONCURRENT_CONNECTIONS :: u64 where
  "DEFAULT_CONCURRENT_CONNECTIONS = 16384"

definition DEFAULT_KEEPALIVE_IDLE_TIMEOUT :: u64 where
  "DEFAULT_KEEPALIVE_IDLE_TIMEOUT = 60000"

record 'p pool_lib =
  pool_new :: "u64 option \<Rightarrow> 'p"
  set_local_limit :: "u64 \<Rightarrow> 'p \<Rightarrow> nat \<times> 'p"

record 'p ReverseProxyModuleLoader =
  rl_cache :: "ReverseProxyModule ModuleCache"
  rl_connections :: "'p option"
  rl_unix_connections :: "'p option"

definition proxy_loader_new :: "'p ReverseProxyModuleLoader" where
  "proxy_loader_new = \<lparr>rl_cache = module_cache_new [''proxy'', ''lb_health_check_window'', ''lb_health_check_max_fails'', ''lb_algorithm''],
     rl_connections = None, rl_unix_connections = None\<rparr>"

text \<open>A number, unlimited for null, or the default for anything else that is present or absent.\<close>

definition number_or_null :: "u64 \<Rightarrow> ServerConfigurationValue option \<Rightarrow> u64 option" where
  "number_or_null dflt value =
     (case value of
        None \<Rightarrow> Some dflt
      | Some v \<Rightarrow> if is_null v then None else Some (case as_i128 v of Some n \<Rightarrow> word_of_int n | None \<Rightarrow> dflt))"

definition concurrency_limit :: "('m, 'o) ServerConfiguration option \<Rightarrow> u64 option" where
  "concurrency_limit global_config =
     number_or_null DEFAULT_CONCURRENT_CONNECTIONS (Option.bind global_config (get_value_m ''proxy_concurrent_conns''))"

text \<open>An entry \<open>proxy\<close>: the URL, the Unix socket, the limit and the idle timeout in milliseconds.\<close>

definition raw_backend :: "ServerConfigurationEntry \<Rightarrow> (string \<times> string option \<times> u64 option \<times> u64 option) option" where
  "raw_backend e =
     (case entry_values e of
        VString url # vs \<Rightarrow>
          Some (url, Option.bind (map_of (entry_props e) ''unix'') as_str,
            map_option word_of_int (Option.bind (map_of (entry_props e) ''limit'') as_i128),
            number_or_null DEFAULT_KEEPALIVE_IDLE_TIMEOUT (map_of (entry_props e) ''idle_timeout''))
      | _ \<Rightarrow> None)"

fun register_limits ::
  "'p pool_lib \<Rightarrow> (string \<times> string option \<times> u64 option \<times> u64 option) list \<Rightarrow> 'p \<Rightarrow> 'p \<Rightarrow> backend list \<times> 'p \<times> 'p" where
  "register_limits lib [] connections unix_connections = ([], connections, unix_connections)"
| "register_limits lib ((url, proxy_unix, local_limit, idle_timeout) # raw) connections unix_connections =
     (let (limit_index, connections', unix_connections') =
        (case local_limit of
           None \<Rightarrow> (None, connections, unix_connections)
         | Some l \<Rightarrow>
             if proxy_unix \<noteq> None
             then let (i, p) = set_local_limit lib l unix_connections in (Some i, connections, p)
             else let (i, p) = set_local_limit lib l connections in (Some i, p, unix_connections));
          (backends, connections'', unix_connections'') = register_limits lib raw connections' unix_connections'
      in ((url, proxy_unix, limit_index, map_option unat idle_timeout) # backends, connections'', unix_connections''))"

definition lb_algorithm :: "('m, 'o) ServerConfiguration \<Rightarrow> string + LoadBalancerAlgorithm" where
  "lb_algorithm config =
     (let algorithm_name = (case Option.bind (get_value_m ''lb_algorithm'' config) as_str of Some n \<Rightarrow> n | None \<Rightarrow> ''two_random'')
      in if algorithm_name = ''two_random'' then Inr (TwoRandomChoices Map.empty)
         else if algorithm_name = ''least_conn'' then Inr (LeastConnections Map.empty)
         else if algorithm_name = ''round_robin'' then Inr (RoundRobin 0)
         else if algorithm_name = ''random'' then Inr Random
         else Inl (''Unsupported load balancing algorithm: '' @ algorithm_name))"

definition number_or :: "int \<Rightarrow> string \<Rightarrow> ('m, 'o) ServerConfiguration \<Rightarrow> u64" where
  "number_or dflt name config = word_of_int (case Option.bind (get_value_m name config) as_i128 of Some n \<Rightarrow> n | None \<Rightarrow> dflt)"

definition proxy_module_new :: "('m, 'o) ServerConfiguration \<Rightarrow> backend list \<Rightarrow> string + ReverseProxyModule" where
  "proxy_module_new config proxy_to =
     map_sum id (\<lambda>algorithm. \<lparr>rm_failed_backends = ttl_new (unat (number_or 5000 ''lb_health_check_window'' config)),
       rm_algorithm = algorithm, rm_proxy_to = proxy_to, rm_max_fails = number_or 3 ''lb_health_check_max_fails'' config\<rparr>)
       (lb_algorithm config)"

definition proxy_load_module ::
  "'p pool_lib \<Rightarrow> ('m, 'o) ServerConfiguration option \<Rightarrow> ('m, 'o) ServerConfiguration \<Rightarrow> 'p ReverseProxyModuleLoader \<Rightarrow>
     (string + ReverseProxyModule) \<times> 'p ReverseProxyModuleLoader" where
  "proxy_load_module lib global_config config l =
     (let limit = concurrency_limit global_config;
          connections = (case rl_connections l of Some p \<Rightarrow> p | None \<Rightarrow> pool_new lib limit);
          unix_connections = (case rl_unix_connections l of Some p \<Rightarrow> p | None \<Rightarrow> pool_new lib limit);
          (proxy_to, connections', unix_connections') =
            (case cache_get config (rl_cache l) of
               Some m \<Rightarrow> ([], connections, unix_connections)
             | None \<Rightarrow> register_limits lib (List.map_filter raw_backend (entries_of ''proxy'' config)) connections unix_connections);
          (result, c) = cache_get_or_init (\<lambda>config. proxy_module_new config proxy_to) config (rl_cache l)
      in (result, \<lparr>rl_cache = c, rl_connections = Some connections', rl_unix_connections = Some unix_connections'\<rparr>))"

definition proxy_requirements :: "string list" where
  "proxy_requirements = [''proxy'']"

definition below_one :: "ServerConfigurationValue \<Rightarrow> bool" where
  "below_one v \<longleftrightarrow> \<not> is_null v \<and> (case as_i128 v of Some n \<Rightarrow> n | None \<Rightarrow> 0) < 1"

definition proxy_rule :: "string \<times> entry_check" where
  "proxy_rule = (''proxy'', \<lambda>e. check_all
     [(length (entry_values e) \<noteq> 1, ''The `proxy` configuration property must have exactly one value''),
      (\<not> value_is (or_null is_string) 0 e, ''Invalid proxy backend server''),
      (\<not> prop_is is_string ''unix'' e, ''Invalid proxy Unix socket path''),
      (case map_of (entry_props e) ''limit'' of Some v \<Rightarrow> below_one v | None \<Rightarrow> False, ''Invalid proxy connection limit for a backend server''),
      (map_of (entry_props e) ''limit'' = None \<and> (case map_of (entry_props e) ''idle_timeout'' of Some v \<Rightarrow> below_one v | None \<Rightarrow> False),
       ''Invalid proxy idle keep-alive connection timeout for a backend server'')])"

definition proxy_rules :: "(string \<times> entry_check) list" where
  "proxy_rules =
     [one_value ''lb_health_check'' is_bool ''Invalid load balancer health check enabling option'',
      one_value ''lb_health_check_max_fails'' (or_null (int_in (\<lambda>n. 0 \<le> n))) ''Invalid load balancer health check maximum failures'',
      one_value ''lb_health_check_window'' (or_null (int_in (\<lambda>n. 0 \<le> n))) ''Invalid load balancer health check window'',
      proxy_rule,
      one_value ''proxy_intercept_errors'' is_bool ''Invalid proxy error interception enabling option'',
      one_value ''proxy_no_verification'' is_bool ''Invalid proxy backend server certificate verification option'',
      two_values ''proxy_request_header'' is_string ''The header name must be a string'' is_string ''The header value must be a string'',
      one_value ''proxy_request_header_remove'' is_string ''The header name must be a string'',
      one_value ''proxy_keepalive'' is_bool ''Invalid reverse proxy HTTP keep-alive enabling option'',
      two_values ''proxy_request_header_replace'' is_string ''The header name must be a string'' is_string ''The header value must be a string'',
      one_value ''proxy_http2'' is_bool ''Invalid reverse proxy HTTP/2 enabling option'',
      one_value ''lb_retry_connection'' is_bool ''Invalid load balancer retry connection enabling option'',
      one_value ''lb_algorithm'' (or_null is_string) ''Invalid load balancer algorithm'',
      one_value ''proxy_http2_only'' is_bool ''Invalid reverse proxy HTTP/2 only enabling option'',
      one_value ''proxy_proxy_header'' (or_null is_string) ''Invalid PROXY header version'',
      one_value ''proxy_concurrent_conns'' (or_null (int_in (\<lambda>n. 0 \<le> n))) ''Invalid global maximum concurrent connections configuration'']"

definition proxy_validate_configuration ::
  "('m, 'o) ServerConfiguration \<Rightarrow> string set \<Rightarrow> (string + unit) \<times> string set" where
  "proxy_validate_configuration = validate_rules proxy_rules"

section \<open>What loading gives\<close>

definition supported_algorithms :: "string list" where
  "supported_algorithms = [''two_random'', ''least_conn'', ''round_robin'', ''random'']"

text \<open>The one error of loading: an algorithm that is not supported.\<close>

lemma lb_algorithm_loads:
  "isl (lb_algorithm config) \<longleftrightarrow> (\<exists>n. Option.bind (get_value_m ''lb_algorithm'' config) as_str = Some n \<and> n \<notin> set supported_algorithms)"
  by (auto simp: lb_algorithm_def supported_algorithms_def Let_def split: option.split)

lemma register_limits_backends:
  "map (\<lambda>b. (fst b, fst (snd b), snd (snd (snd b)))) (fst (register_limits lib raw c u)) =
     map (\<lambda>(url, proxy_unix, l, t). (url, proxy_unix, map_option unat t)) raw"
  by (induction lib raw c u rule: register_limits.induct) (auto simp: Let_def split: prod.splits option.splits if_splits)

text \<open>
  A configuration that is loaded for the first time gives the module the backends of its \<open>proxy\<close>
  entries, in their order and with their sockets and timeouts, unhealthy for none and with no
  connection counted; it fails to load exactly for a load balancing algorithm that is not supported.
\<close>

theorem proxy_load_as_configured:
  assumes "cache_get config (rl_cache l) = None"
  shows "case fst (proxy_load_module lib global_config config l) of
      Inl e \<Rightarrow> (\<exists>n. Option.bind (get_value_m ''lb_algorithm'' config) as_str = Some n \<and> n \<notin> set supported_algorithms)
    | Inr m \<Rightarrow>
        map (\<lambda>b. (fst b, fst (snd b), snd (snd (snd b)))) (rm_proxy_to m) =
          map (\<lambda>(url, proxy_unix, limit, t). (url, proxy_unix, map_option unat t)) (List.map_filter raw_backend (entries_of ''proxy'' config)) \<and>
        (\<forall>now b. backend_healthy now (rm_failed_backends m) (rm_max_fails m) b)"
proof -
  obtain backends c u where r: "register_limits lib (List.map_filter raw_backend (entries_of ''proxy'' config))
      (case rl_connections l of Some p \<Rightarrow> p | None \<Rightarrow> pool_new lib (concurrency_limit global_config))
      (case rl_unix_connections l of Some p \<Rightarrow> p | None \<Rightarrow> pool_new lib (concurrency_limit global_config)) = (backends, c, u)"
    by (metis prod_cases3)
  have f: "fst (proxy_load_module lib global_config config l) = proxy_module_new config backends"
    using assms r
    by (auto simp: proxy_load_module_def cache_get_or_init_def cache_get_def Let_def split: sum.splits)
  show ?thesis
  proof (cases "lb_algorithm config")
    case (Inl e)
    then have "isl (lb_algorithm config)" by simp
    then show ?thesis unfolding f using Inl lb_algorithm_loads [of config] by (simp add: proxy_module_new_def)
  next
    case (Inr a)
    have "map (\<lambda>b. (fst b, fst (snd b), snd (snd (snd b)))) backends =
        map (\<lambda>(url, proxy_unix, limit, t). (url, proxy_unix, map_option unat t)) (List.map_filter raw_backend (entries_of ''proxy'' config))"
      unfolding arg_cong [OF r, of fst, unfolded fst_conv, symmetric] by (rule register_limits_backends)
    with Inr show ?thesis unfolding f by (simp add: proxy_module_new_def backend_healthy_def)
  qed
qed

text \<open>Two backends, one of them behind a socket, and an algorithm that no code supports.\<close>

definition counting_pool :: "nat pool_lib" where
  "counting_pool = \<lparr>pool_new = (\<lambda>limit. 0), set_local_limit = (\<lambda>l n. (n, n + 1))\<rparr>"

definition proxy_entry :: "string \<Rightarrow> (string \<times> ServerConfigurationValue) list \<Rightarrow> ServerConfigurationEntry" where
  "proxy_entry url props = \<lparr>entry_values = [VString url], entry_props = props\<rparr>"

definition two_entries :: "(unit, unit) ServerConfiguration" where
  "two_entries = default_config\<lparr>sc_entries := [(''proxy'', [proxy_entry ''a'' [(''limit'', VInteger 5), (''idle_timeout'', VInteger (- 1))],
     proxy_entry ''b'' [(''unix'', VString ''s'')]])]\<rparr>"

definition odd_algorithm :: "(unit, unit) ServerConfiguration" where
  "odd_algorithm = default_config\<lparr>sc_entries := [(''lb_algorithm'', [proxy_entry ''fastest'' []])]\<rparr>"

theorem proxy_load_as_configured_witness:
  "\<exists>m. fst (proxy_load_module counting_pool None two_entries proxy_loader_new) = Inr m \<and> map fst (rm_proxy_to m) = [''a'', ''b'']"
proof -
  let ?r = "fst (proxy_load_module counting_pool None two_entries proxy_loader_new)"
  have n: "cache_get two_entries (rl_cache (proxy_loader_new :: nat ReverseProxyModuleLoader)) = None" by code_simp
  have a: "Option.bind (get_value_m ''lb_algorithm'' two_entries) as_str = None"
    and raw: "map fst (List.map_filter raw_backend (entries_of ''proxy'' two_entries)) = [''a'', ''b'']" by code_simp+
  let ?P = "\<lambda>m. map (\<lambda>b. (fst b, fst (snd b), snd (snd (snd b)))) (rm_proxy_to m) =
       map (\<lambda>(url, proxy_unix, limit, t). (url, proxy_unix, map_option unat t)) (List.map_filter raw_backend (entries_of ''proxy'' two_entries))"
  have "\<exists>m. ?r = Inr m \<and> ?P m"
  proof (cases ?r)
    case (Inl e)
    then show ?thesis using proxy_load_as_configured [OF n, of counting_pool None] a by simp
  next
    case (Inr m)
    have "?P m" using proxy_load_as_configured [OF n, of counting_pool None] unfolding Inr sum.case by (rule conjunct1)
    with Inr show ?thesis by blast
  qed
  then obtain m where m: "?r = Inr m" "?P m" by blast
  have first: "map fst (map (\<lambda>b. (fst b, fst (snd b), snd (snd (snd b)))) bs) = map fst bs" for bs :: "backend list"
    by (induction bs) simp_all
  have raw_first: "map fst (map (\<lambda>(url, proxy_unix, limit, t). (url, proxy_unix, map_option unat t)) rs) = map fst rs"
    for rs :: "(string \<times> string option \<times> u64 option \<times> u64 option) list"
    by (induction rs) auto
  have "map fst (rm_proxy_to m) = [''a'', ''b'']"
    using arg_cong [OF m(2), of "map fst"] unfolding first raw_first raw .
  then show ?thesis by (intro exI [of _ m] conjI m(1))
qed

text \<open>Such an algorithm passes validation, and loading fails.\<close>

lemma odd_algorithm_validated:
  "fst (proxy_validate_configuration odd_algorithm {}) = Inr () \<and> isl (lb_algorithm odd_algorithm)"
  by code_simp

text \<open>A negative idle timeout passes validation when the backend has a limit, and becomes 2 to the 64th less one milliseconds.\<close>

lemma idle_timeout_unchecked:
  "fst (proxy_validate_configuration two_entries {}) = Inr () \<and>
   snd (snd (snd (hd (List.map_filter raw_backend (entries_of ''proxy'' two_entries))))) = Some (- 1)"
  by code_simp

end
