(* ===== verification/Spec2Isabelle.thy ===== *)
theory Spec2Isabelle
  imports Url_Sanitizer Ttl_Cache Ip_Blocklist Matching Placeholders Q_Value Config_Pipeline Module_Cache Fcgi Proxy_Protocol
    Cgi_Response Body_Replacer Blocklist_Module Limit_Module Rewrite_Module Load_Balancer Core_Module File_Stream Static_Safety Status_Module Server_Safety Cache_Safety Proxy_Safety Proxy_Loader
begin

text \<open>
  A verification development for the Ferron web server. (Header to be completed.)
\<close>

end
